(* ===== verification/Prelude.thy ===== *)
theory Prelude
  imports Main "HOL-Library.Word"
begin

text \<open>
  Shared vocabulary of the development: the machine types of the Rust sources, saturating
  arithmetic as the standard library defines it, Rust's \<open>Result\<close>, byte sequences read in network
  order, and the two generic devices the components are built on: reachability for the actor loops
  and transition systems with an invariant.
\<close>

unbundle bit_operations_syntax

section \<open>Machine types\<close>

type_synonym u8 = "8 word"
type_synonym u16 = "16 word"
type_synonym u32 = "32 word"
type_synonym u64 = "64 word"
type_synonym u128 = "128 word"

text \<open>A packet buffer is seen as the bytes it holds; a duration is a number of nanoseconds.\<close>

type_synonym packet = "u8 list"
type_synonym duration = nat

text \<open>An actor handle, and the sending end of a channel: \<open>same_channel\<close> is equality.\<close>

type_synonym chan = nat

text \<open>Rust's \<open>Result<T, E>\<close>, errors on the left.\<close>

type_synonym ('e, 'a) result = "'e + 'a"

abbreviation Err :: "'e \<Rightarrow> ('e, 'a) result" where "Err \<equiv> Inl"
abbreviation Ok :: "'a \<Rightarrow> ('e, 'a) result" where "Ok \<equiv> Inr"

definition is_ok :: "('e, 'a) result \<Rightarrow> bool" where
  "is_ok r = (case r of Err _ \<Rightarrow> False | Ok _ \<Rightarrow> True)"

section \<open>Proof collections\<close>

named_theorems sat_simps "saturating arithmetic"
named_theorems byte_simps "words read from and written to byte sequences"
named_theorems law_simps "equations promised by a library interface"

section \<open>Saturating arithmetic\<close>

definition u64_max :: nat where
  "u64_max = 2 ^ 64 - 1"

definition duration_max :: duration where
  "duration_max = (2 ^ 64 - 1) * 10 ^ 9 + 999999999"

definition sat_add :: "nat \<Rightarrow> nat \<Rightarrow> nat" where
  "sat_add a b = min u64_max (a + b)"

definition dur_sat_add :: "duration \<Rightarrow> duration \<Rightarrow> duration" where
  "dur_sat_add a b = min duration_max (a + b)"

definition dur_sat_mul :: "duration \<Rightarrow> nat \<Rightarrow> duration" where
  "dur_sat_mul a k = min duration_max (a * k)"

lemma sat_add_le [simp]: "sat_add a b \<le> u64_max"
  by (simp add: sat_add_def)

lemma sat_add_exact [sat_simps]: "a + b \<le> u64_max \<Longrightarrow> sat_add a b = a + b"
  by (simp add: sat_add_def)

lemma sat_add_0 [sat_simps]: "a \<le> u64_max \<Longrightarrow> sat_add a 0 = a"
  by (simp add: sat_add_def)

lemma sat_add_assoc: "sat_add (sat_add a b) c = sat_add a (b + c)"
  by (auto simp: sat_add_def)

lemma dur_sat_add_le [simp]: "dur_sat_add a b \<le> duration_max"
  by (simp add: dur_sat_add_def)

lemma dur_sat_add_assoc: "dur_sat_add (dur_sat_add a b) c = dur_sat_add a (b + c)"
  by (auto simp: dur_sat_add_def)

section \<open>Bytes in network order\<close>

definition be_nat :: "u8 list \<Rightarrow> nat" where
  "be_nat bs = foldl (\<lambda>acc b. acc * 256 + unat b) 0 bs"

fun nat_be :: "nat \<Rightarrow> nat \<Rightarrow> u8 list" where
  "nat_be 0 v = []"
| "nat_be (Suc n) v = nat_be n (v div 256) @ [word_of_nat (v mod 256)]"

definition u16_from_be_bytes :: "u8 \<Rightarrow> u8 \<Rightarrow> u16" where
  "u16_from_be_bytes hi lo = word_of_nat (unat hi * 256 + unat lo)"

definition u16_to_be_bytes :: "u16 \<Rightarrow> u8 \<times> u8" where
  "u16_to_be_bytes w = (word_of_nat (unat w div 256), word_of_nat (unat w mod 256))"

lemma unat_u8_less [simp]: "unat (b :: u8) < 256"
  using unsigned_less [of b] by simp

lemma unat_u16_less [simp]: "unat (w :: u16) < 65536"
  using unsigned_less [of w] by simp

lemma unat_of_nat_small:
  "n < 2 ^ LENGTH('a) \<Longrightarrow> unat (word_of_nat n :: 'a::len word) = n"
  by (simp add: unsigned_of_nat take_bit_nat_eq_self)

lemma be_nat_Nil [simp]: "be_nat [] = 0"
  by (simp add: be_nat_def)

lemma be_nat_snoc [simp]: "be_nat (bs @ [b]) = be_nat bs * 256 + unat b"
  by (simp add: be_nat_def)

lemma be_nat_less: "be_nat bs < 256 ^ length bs"
proof (induction bs rule: rev_induct)
  case (snoc b bs)
  have "be_nat bs * 256 + unat b < (be_nat bs + 1) * 256"
    by (simp add: unat_u8_less)
  also have "\<dots> \<le> 256 ^ length bs * 256"
    using snoc by (intro mult_right_mono) simp_all
  finally show ?case by (simp add: mult.commute)
qed simp

lemma nat_be_be_nat [simp]: "nat_be (length bs) (be_nat bs) = bs"
proof (induction bs rule: rev_induct)
  case (snoc b bs)
  have "(be_nat bs * 256 + unat b) div 256 = be_nat bs"
    and "(be_nat bs * 256 + unat b) mod 256 = unat b"
    by (simp_all add: div_mult_self3)
  with snoc show ?case by (simp add: mult.commute add.commute)
qed simp

lemma be_nat_inj: "length bs = length cs \<Longrightarrow> be_nat bs = be_nat cs \<Longrightarrow> bs = cs"
  by (metis nat_be_be_nat)

lemma unat_u16_from_be_bytes [byte_simps]:
  "unat (u16_from_be_bytes hi lo) = unat hi * 256 + unat lo"
proof -
  have "unat hi * 256 + unat lo < 2 ^ LENGTH(16)"
    using unat_u8_less [of hi] unat_u8_less [of lo] by (simp del: unat_u8_less)
  then show ?thesis
    unfolding u16_from_be_bytes_def by (rule unat_of_nat_small)
qed

lemma u16_from_to_be_bytes [byte_simps]:
  "u16_from_be_bytes (fst (u16_to_be_bytes w)) (snd (u16_to_be_bytes w)) = w"
proof -
  have "unat w div 256 < 256"
    using unat_u16_less [of w] by linarith
  then show ?thesis
    by (simp add: u16_from_be_bytes_def u16_to_be_bytes_def unsigned_of_nat take_bit_nat_def)
qed

section \<open>Reachability and invariants\<close>

inductive reachable :: "('s \<Rightarrow> bool) \<Rightarrow> ('s \<Rightarrow> 's \<Rightarrow> bool) \<Rightarrow> 's \<Rightarrow> bool"
  for init :: "'s \<Rightarrow> bool" and step :: "'s \<Rightarrow> 's \<Rightarrow> bool" where
  reachable_init: "init s \<Longrightarrow> reachable init step s"
| reachable_step: "reachable init step s \<Longrightarrow> step s t \<Longrightarrow> reachable init step t"

text \<open>
  The contract of an actor loop: an invariant its initial states have and each of its steps keeps.
\<close>

locale inductive_invariant =
  fixes init :: "'s \<Rightarrow> bool" and step :: "'s \<Rightarrow> 's \<Rightarrow> bool" and inv :: "'s \<Rightarrow> bool"
  assumes inv_init: "init s \<Longrightarrow> inv s"
    and inv_step: "inv s \<Longrightarrow> step s t \<Longrightarrow> inv t"
begin

lemma reachable_inv: "reachable init step s \<Longrightarrow> inv s"
  by (induction rule: reachable.induct) (auto intro: inv_init inv_step)

lemma steps_inv: "step\<^sup>*\<^sup>* s t \<Longrightarrow> inv s \<Longrightarrow> inv t"
  by (induction rule: rtranclp_induct) (auto intro: inv_step)

end

section \<open>Lists and options\<close>

lemma takeWhile_all_id: "\<forall>x\<in>set xs. P x \<Longrightarrow> takeWhile P xs = xs"
  by (simp add: takeWhile_eq_all_conv)

lemma concat_map_filter_Nil: "(\<And>x. x \<in> set xs \<Longrightarrow> f x = []) \<Longrightarrow> concat (map f xs) = []"
  by (induction xs) auto

lemma sum_list_append_map: "sum_list (map f (xs @ ys)) = sum_list (map f xs) + (sum_list (map f ys) :: nat)"
  by simp

end
