(* ===== verification/Ip.thy ===== *)
theory Ip
  imports Prelude
begin

text \<open>
  Addresses and prefixes. \<open>std::net::IpAddr\<close> is data of the standard library and is defined here.
  The crates \<open>ipnet\<close> and \<open>ipnet-trie\<close> are not part of the repository: their types are data, their
  operations are the fields of the records \<open>ipnet_lib\<close> and \<open>trie_lib\<close> that the components take
  as arguments, and what their documentation promises is the predicates \<open>ipnet_ok\<close> and \<open>trie_ok\<close>.
  The reference instances at the end show that both contracts can be met.
\<close>

section \<open>Addresses\<close>

datatype ip_addr = V4 u32 | V6 u128

type_synonym socket_addr = "ip_addr \<times> u16"

definition ipv4_from_octets :: "u8 list \<Rightarrow> ip_addr" where
  "ipv4_from_octets bs = V4 (word_of_nat (be_nat bs))"

definition ipv6_from_octets :: "u8 list \<Rightarrow> ip_addr" where
  "ipv6_from_octets bs = V6 (word_of_nat (be_nat bs))"

fun is_ipv4 :: "ip_addr \<Rightarrow> bool" where
  "is_ipv4 (V4 _) = True"
| "is_ipv4 (V6 _) = False"

definition is_ipv6 :: "ip_addr \<Rightarrow> bool" where
  "is_ipv6 a = (\<not> is_ipv4 a)"

fun ip_bits :: "ip_addr \<Rightarrow> nat" where
  "ip_bits (V4 w) = unat w"
| "ip_bits (V6 w) = unat w"

fun ip_width :: "ip_addr \<Rightarrow> nat" where
  "ip_width (V4 _) = 32"
| "ip_width (V6 _) = 128"

lemma ip_addr_eqI: "is_ipv4 a = is_ipv4 b \<Longrightarrow> ip_bits a = ip_bits b \<Longrightarrow> a = b"
  by (cases a; cases b) (auto intro: word_unat_eq_iff [THEN iffD2])

lemma ip_width_cong: "is_ipv4 a = is_ipv4 b \<Longrightarrow> ip_width a = ip_width b"
  by (cases a; cases b) simp_all

lemma ipv4_from_octets_inj:
  assumes "length bs = 4" "length cs = 4"
  shows "ipv4_from_octets bs = ipv4_from_octets cs \<longleftrightarrow> bs = cs"
proof
  assume "ipv4_from_octets bs = ipv4_from_octets cs"
  then have "unat (word_of_nat (be_nat bs) :: 32 word) = unat (word_of_nat (be_nat cs) :: 32 word)"
    by (simp only: ipv4_from_octets_def ip_addr.inject)
  moreover have "be_nat bs < 2 ^ LENGTH(32)" "be_nat cs < 2 ^ LENGTH(32)"
    using be_nat_less [of bs] be_nat_less [of cs] assms by simp_all
  ultimately have "be_nat bs = be_nat cs"
    by (simp only: unat_of_nat_small)
  with assms show "bs = cs" by (intro be_nat_inj) simp_all
qed simp

lemma ipv6_from_octets_inj:
  assumes "length bs = 16" "length cs = 16"
  shows "ipv6_from_octets bs = ipv6_from_octets cs \<longleftrightarrow> bs = cs"
proof
  assume "ipv6_from_octets bs = ipv6_from_octets cs"
  then have "unat (word_of_nat (be_nat bs) :: 128 word) = unat (word_of_nat (be_nat cs) :: 128 word)"
    by (simp only: ipv6_from_octets_def ip_addr.inject)
  moreover have "be_nat bs < 2 ^ LENGTH(128)" "be_nat cs < 2 ^ LENGTH(128)"
    using be_nat_less [of bs] be_nat_less [of cs] assms by simp_all
  ultimately have "be_nat bs = be_nat cs"
    by (simp only: unat_of_nat_small)
  with assms show "bs = cs" by (intro be_nat_inj) simp_all
qed simp

section \<open>Prefixes\<close>

datatype ipnet = NetV4 u32 nat | NetV6 u128 nat

fun net_addr :: "ipnet \<Rightarrow> ip_addr" where
  "net_addr (NetV4 a _) = V4 a"
| "net_addr (NetV6 a _) = V6 a"

fun net_prefix_len :: "ipnet \<Rightarrow> nat" where
  "net_prefix_len (NetV4 _ l) = l"
| "net_prefix_len (NetV6 _ l) = l"

fun mk_net :: "ip_addr \<Rightarrow> nat \<Rightarrow> ipnet" where
  "mk_net (V4 a) l = NetV4 a l"
| "mk_net (V6 a) l = NetV6 a l"

lemma net_addr_mk_net [simp]: "net_addr (mk_net a l) = a"
  by (cases a) simp_all

lemma net_prefix_len_mk_net [simp]: "net_prefix_len (mk_net a l) = l"
  by (cases a) simp_all

lemma ipnet_eqI: "net_addr n = net_addr m \<Longrightarrow> net_prefix_len n = net_prefix_len m \<Longrightarrow> n = m"
  by (cases n; cases m) simp_all

text \<open>
  The number of host bits, the addresses a prefix covers, and the canonical form in which the host
  bits are zero.
\<close>

definition host_bits :: "ipnet \<Rightarrow> nat" where
  "host_bits n = ip_width (net_addr n) - net_prefix_len n"

definition net_wf :: "ipnet \<Rightarrow> bool" where
  "net_wf n = (net_prefix_len n \<le> ip_width (net_addr n))"

definition covers :: "ipnet \<Rightarrow> ip_addr \<Rightarrow> bool" where
  "covers n a = (is_ipv4 (net_addr n) = is_ipv4 a
     \<and> ip_bits (net_addr n) div 2 ^ host_bits n = ip_bits a div 2 ^ host_bits n)"

definition canonical :: "ipnet \<Rightarrow> bool" where
  "canonical n = (net_wf n \<and> ip_bits (net_addr n) mod 2 ^ host_bits n = 0)"

definition host_net :: "ip_addr \<Rightarrow> ipnet" where
  "host_net a = mk_net a (ip_width a)"

fun trunc_ip :: "ip_addr \<Rightarrow> nat \<Rightarrow> ip_addr" where
  "trunc_ip (V4 a) h = V4 (word_of_nat (unat a div 2 ^ h * 2 ^ h))"
| "trunc_ip (V6 a) h = V6 (word_of_nat (unat a div 2 ^ h * 2 ^ h))"

fun fill_ip :: "ip_addr \<Rightarrow> nat \<Rightarrow> ip_addr" where
  "fill_ip (V4 a) h = V4 (word_of_nat (unat a div 2 ^ h * 2 ^ h + (2 ^ h - 1)))"
| "fill_ip (V6 a) h = V6 (word_of_nat (unat a div 2 ^ h * 2 ^ h + (2 ^ h - 1)))"

fun halves :: "ipnet \<Rightarrow> ipnet list" where
  "halves (NetV4 _ _) = [NetV4 0 1, NetV4 (2 ^ 31) 1]"
| "halves (NetV6 _ _) = [NetV6 0 1, NetV6 (2 ^ 127) 1]"

definition net_truncated :: "ipnet \<Rightarrow> ipnet" where
  "net_truncated n = mk_net (trunc_ip (net_addr n) (host_bits n)) (net_prefix_len n)"

lemma host_net_simps [simp]:
  "net_addr (host_net a) = a" "net_prefix_len (host_net a) = ip_width a"
  "host_bits (host_net a) = 0"
  by (simp_all add: host_net_def host_bits_def)

lemma canonical_host_net [simp]: "canonical (host_net a)"
  by (simp add: canonical_def net_wf_def)

lemma covers_host_net [simp]: "covers (host_net a) b \<longleftrightarrow> b = a"
proof
  show "covers (host_net a) b \<Longrightarrow> b = a"
    by (rule ip_addr_eqI) (simp_all add: covers_def)
qed (simp add: covers_def)

lemma host_net_inj [simp]: "host_net a = host_net b \<longleftrightarrow> a = b"
  by (cases a; cases b) (simp_all add: host_net_def)

lemma canonical_bits:
  "canonical n \<Longrightarrow> ip_bits (net_addr n) div 2 ^ host_bits n * 2 ^ host_bits n = ip_bits (net_addr n)"
  unfolding canonical_def by (blast intro: dvd_div_mult_self mod_0_imp_dvd)

lemma canonical_same_len_eq:
  assumes "canonical n" "canonical m" "covers n a" "covers m a"
    "net_prefix_len n = net_prefix_len m"
  shows "n = m"
proof (rule ipnet_eqI)
  have fam: "is_ipv4 (net_addr n) = is_ipv4 (net_addr m)"
    using assms(3,4) by (simp add: covers_def)
  then have h: "host_bits n = host_bits m"
    using assms(5) ip_width_cong [OF fam] by (simp add: host_bits_def)
  have "ip_bits (net_addr n) = ip_bits (net_addr m)"
    using canonical_bits [OF assms(1)] canonical_bits [OF assms(2)] assms(3,4) h
    unfolding covers_def by metis
  with fam show "net_addr n = net_addr m" by (rule ip_addr_eqI)
qed (fact assms(5))

section \<open>The crate \<open>ipnet\<close>\<close>

record ipnet_lib =
  from_addr :: "ip_addr \<Rightarrow> ipnet"
  net_new :: "ip_addr \<Rightarrow> nat \<Rightarrow> ipnet option"
  trunc :: "ipnet \<Rightarrow> ipnet"
  contains_addr :: "ipnet \<Rightarrow> ip_addr \<Rightarrow> bool"
  contains_net :: "ipnet \<Rightarrow> ipnet \<Rightarrow> bool"
  subnets :: "ipnet \<Rightarrow> nat \<Rightarrow> ipnet list option"
  network :: "ipnet \<Rightarrow> ip_addr"
  broadcast :: "ipnet \<Rightarrow> ip_addr"

text \<open>
  What the documentation of \<open>ipnet\<close> states of the operations the program calls: the conversion of
  an address gives its host prefix, \<open>new\<close> refuses a length longer than the address, \<open>trunc\<close> clears
  the host bits, \<open>contains\<close> compares the addresses from \<open>network()\<close> to \<open>broadcast()\<close>, which are the
  addresses with the host bits cleared and set, and \<open>subnets(1)\<close> of a default route gives its halves.
\<close>

definition ipnet_ok :: "ipnet_lib \<Rightarrow> bool" where
  "ipnet_ok L \<longleftrightarrow>
     (\<forall>a. from_addr L a = host_net a) \<and>
     (\<forall>a l. net_new L a l = (if l \<le> ip_width a then Some (mk_net a l) else None)) \<and>
     (\<forall>n. net_wf n \<longrightarrow> trunc L n = net_truncated n) \<and>
     (\<forall>n a. net_wf n \<longrightarrow> contains_addr L n a = covers n a) \<and>
     (\<forall>n m. net_wf n \<longrightarrow> net_wf m \<longrightarrow> contains_net L n m =
        (covers n (net_addr m) \<and> net_prefix_len n \<le> net_prefix_len m)) \<and>
     (\<forall>n. net_prefix_len n = 0 \<longrightarrow> subnets L n 1 = Some (halves n)) \<and>
     (\<forall>n. net_wf n \<longrightarrow> network L n = trunc_ip (net_addr n) (host_bits n)) \<and>
     (\<forall>n. net_wf n \<longrightarrow> broadcast L n = fill_ip (net_addr n) (host_bits n))"

lemma ipnet_ok_from_addr [law_simps]: "ipnet_ok L \<Longrightarrow> from_addr L a = host_net a"
  by (simp add: ipnet_ok_def)

section \<open>The crate \<open>ipnet-trie\<close>\<close>

record ('e, 't) trie_lib =
  trie_new :: 't
  exact_match :: "'t \<Rightarrow> ipnet \<Rightarrow> 'e option"
  trie_insert :: "ipnet \<Rightarrow> 'e \<Rightarrow> 't \<Rightarrow> 't"
  longest_match :: "'t \<Rightarrow> ipnet \<Rightarrow> (ipnet \<times> 'e) option"
  trie_len :: "'t \<Rightarrow> nat \<times> nat"

text \<open>
  A trie is a finite map from prefixes to entries; \<open>longest_match\<close> on a host prefix returns the
  entry of the longest stored prefix that covers the address. The contract is stated for prefixes
  whose host bits are zero, which is all its documentation describes.
\<close>

definition trie_ok :: "('e, 't) trie_lib \<Rightarrow> bool" where
  "trie_ok T \<longleftrightarrow>
     (\<forall>n. exact_match T (trie_new T) n = None) \<and>
     (\<forall>t n m e. canonical n \<longrightarrow> canonical m \<longrightarrow>
        exact_match T (trie_insert T n e t) m = (if m = n then Some e else exact_match T t m)) \<and>
     (\<forall>t a p e. longest_match T t (host_net a) = Some (p, e) \<longleftrightarrow>
        canonical p \<and> exact_match T t p = Some e \<and> covers p a \<and>
        (\<forall>q e'. canonical q \<and> exact_match T t q = Some e' \<and> covers q a \<longrightarrow>
           net_prefix_len q \<le> net_prefix_len p))"

lemma trie_ok_new [law_simps]: "trie_ok T \<Longrightarrow> exact_match T (trie_new T) n = None"
  by (simp add: trie_ok_def)

lemma trie_ok_insert [law_simps]:
  "trie_ok T \<Longrightarrow> canonical n \<Longrightarrow> canonical m \<Longrightarrow>
     exact_match T (trie_insert T n e t) m = (if m = n then Some e else exact_match T t m)"
  by (simp add: trie_ok_def)

lemma trie_ok_longest:
  "trie_ok T \<Longrightarrow> longest_match T t (host_net a) = Some (p, e) \<longleftrightarrow>
     canonical p \<and> exact_match T t p = Some e \<and> covers p a \<and>
     (\<forall>q e'. canonical q \<and> exact_match T t q = Some e' \<and> covers q a \<longrightarrow>
        net_prefix_len q \<le> net_prefix_len p)"
  by (simp add: trie_ok_def)

section \<open>Reference instances\<close>

definition ipnet_ref :: ipnet_lib where
  "ipnet_ref = \<lparr>
     from_addr = host_net,
     net_new = (\<lambda>a l. if l \<le> ip_width a then Some (mk_net a l) else None),
     trunc = net_truncated,
     contains_addr = covers,
     contains_net = (\<lambda>n m. covers n (net_addr m) \<and> net_prefix_len n \<le> net_prefix_len m),
     subnets = (\<lambda>n l. if net_prefix_len n = 0 \<and> l = 1 then Some (halves n) else None),
     network = (\<lambda>n. trunc_ip (net_addr n) (host_bits n)),
     broadcast = (\<lambda>n. fill_ip (net_addr n) (host_bits n))\<rparr>"

fun best_match :: "(ipnet \<times> 'e) list \<Rightarrow> ip_addr \<Rightarrow> (ipnet \<times> 'e) option" where
  "best_match [] a = None"
| "best_match ((n, e) # t) a =
     (if canonical n \<and> covers n a
      then (case best_match t a of
              None \<Rightarrow> Some (n, e)
            | Some (m, f) \<Rightarrow> if net_prefix_len m \<le> net_prefix_len n then Some (n, e) else Some (m, f))
      else best_match t a)"

definition trie_ref :: "('e, (ipnet \<times> 'e) list) trie_lib" where
  "trie_ref = \<lparr>
     trie_new = [],
     exact_match = map_of,
     trie_insert = (\<lambda>n e t. (n, e) # t),
     longest_match = (\<lambda>t n. best_match t (net_addr n)),
     trie_len = (\<lambda>t. let ks = remdups (map fst t) in
       (length (filter (is_ipv4 \<circ> net_addr) ks), length (filter (is_ipv6 \<circ> net_addr) ks)))\<rparr>"

lemma ipnet_ref_ok: "ipnet_ok ipnet_ref"
  by (simp add: ipnet_ok_def ipnet_ref_def)

text \<open>What \<open>best_match\<close> returns, in terms of the association list.\<close>

lemma best_match_None:
  "best_match t a = None \<Longrightarrow> canonical q \<Longrightarrow> covers q a \<Longrightarrow> map_of t q = None"
  by (induction t a rule: best_match.induct) (auto split: if_splits option.splits)

lemma best_match_Some:
  "best_match t a = Some (p, e) \<Longrightarrow>
     canonical p \<and> covers p a \<and> map_of t p = Some e \<and>
     (\<forall>q f. canonical q \<and> covers q a \<and> map_of t q = Some f \<longrightarrow> net_prefix_len q \<le> net_prefix_len p)"
proof (induction t arbitrary: p e)
  case (Cons ne t)
  obtain n e' where ne: "ne = (n, e')" by (cases ne)
  show ?case
  proof (cases "canonical n \<and> covers n a")
    case False
    with Cons ne show ?thesis by auto
  next
    case True
    show ?thesis
    proof (cases "best_match t a")
      case None
      with Cons.prems True ne show ?thesis by (auto dest: best_match_None)
    next
      case (Some r)
      obtain m f where r: "r = (m, f)" by (cases r)
      note best = Cons.IH [OF Some [unfolded r]]
      show ?thesis
      proof (cases "net_prefix_len m \<le> net_prefix_len n")
        case le: True
        with Cons.prems True ne Some r have "p = n" "e = e'" by simp_all
        with True ne best le show ?thesis by (auto intro: le_trans)
      next
        case gt: False
        with Cons.prems True ne Some r have "p = m" "e = f" by simp_all
        with ne best gt show ?thesis by auto
      qed
    qed
  qed
qed simp

lemma trie_ref_ok: "trie_ok (trie_ref :: ('e, (ipnet \<times> 'e) list) trie_lib)"
proof -
  have "best_match t a = Some (p, e)"
    if "canonical p" "map_of t p = Some e" "covers p a"
      "\<forall>q f. canonical q \<and> map_of t q = Some f \<and> covers q a \<longrightarrow> net_prefix_len q \<le> net_prefix_len p"
    for t :: "(ipnet \<times> 'e) list" and a p e
  proof (cases "best_match t a")
    case None
    with that show ?thesis by (auto dest: best_match_None)
  next
    case (Some r)
    obtain p' e' where r: "r = (p', e')" by (cases r)
    note best = best_match_Some [OF Some [unfolded r]]
    have "net_prefix_len p' = net_prefix_len p"
    proof (rule le_antisym)
      show "net_prefix_len p \<le> net_prefix_len p'" using best that(1-3) by blast
      show "net_prefix_len p' \<le> net_prefix_len p" using best that(4) by blast
    qed
    then have "p' = p"
      using canonical_same_len_eq [of p' p a] that(1,3) best by blast
    moreover have "map_of t p' = Some e'" using best by blast
    ultimately show ?thesis using Some r that(2) by simp
  qed
  then show ?thesis
    unfolding trie_ok_def trie_ref_def by (auto dest: best_match_Some)
qed

end
