(* ===== verification/Text.thy ===== *)
theory Text
  imports Ip
begin

text \<open>
  The parts of the standard library the program uses on text. A Rust string is the list of its
  UTF-8 bytes, so \<open>len\<close> is the length of the list. \<open>trim\<close> removes the characters with the Unicode
  property White_Space, matched by their UTF-8 encodings; the address parser is the one of
  \<open>std::net\<close>, a parser over the remaining input that restores it on failure.
\<close>

section \<open>Characters\<close>

definition byte_of :: "char \<Rightarrow> nat" where
  "byte_of c = of_char c"

text \<open>The UTF-8 encodings of the white space characters, as lists of bytes.\<close>

definition whitespace :: "nat list list" where
  "whitespace =
     map (\<lambda>b. [b]) [9, 10, 11, 12, 13, 32] @ [[194, 133], [194, 160], [225, 154, 128]] @
     map (\<lambda>b. [226, 128, b]) [128, 129, 130, 131, 132, 133, 134, 135, 136, 137, 138, 168, 169, 175] @
     [[226, 129, 159], [227, 128, 128]]"

definition ws_prefix :: "nat list list \<Rightarrow> nat list \<Rightarrow> nat option" where
  "ws_prefix ws bs = map_option length (find (\<lambda>w. take (length w) bs = w) ws)"

fun skip_ws :: "nat \<Rightarrow> nat list list \<Rightarrow> string \<Rightarrow> string" where
  "skip_ws 0 ws s = s"
| "skip_ws (Suc n) ws s = (case ws_prefix ws (map byte_of s) of
     None \<Rightarrow> s | Some k \<Rightarrow> skip_ws n ws (drop k s))"

definition trim_start :: "string \<Rightarrow> string" where
  "trim_start s = skip_ws (length s) whitespace s"

definition trim_end :: "string \<Rightarrow> string" where
  "trim_end s = rev (skip_ws (length s) (map rev whitespace) (rev s))"

definition trim :: "string \<Rightarrow> string" where
  "trim s = trim_end (trim_start s)"

definition to_ascii_lowercase :: "string \<Rightarrow> string" where
  "to_ascii_lowercase s = map (\<lambda>c. if 65 \<le> byte_of c \<and> byte_of c \<le> 90 then char_of (byte_of c + 32) else c) s"

definition strip_prefix :: "string \<Rightarrow> string \<Rightarrow> string option" where
  "strip_prefix s pre = (if take (length pre) s = pre then Some (drop (length pre) s) else None)"

definition ends_with :: "string \<Rightarrow> string \<Rightarrow> bool" where
  "ends_with s suf = (length suf \<le> length s \<and> drop (length s - length suf) s = suf)"

definition strip_suffix :: "string \<Rightarrow> string \<Rightarrow> string option" where
  "strip_suffix s suf = (if ends_with s suf then Some (take (length s - length suf) s) else None)"

function decimal :: "nat \<Rightarrow> string" where
  "decimal n = (if n < 10 then [char_of (48 + n)] else decimal (n div 10) @ [char_of (48 + n mod 10)])"
  by pat_completeness auto

termination
  by (relation "measure id") auto

declare decimal.simps [simp del]

section \<open>The address parser of the standard library\<close>

type_synonym 'a parser = "string \<Rightarrow> ('a \<times> string) option"

definition digit_value :: "nat \<Rightarrow> char \<Rightarrow> nat option" where
  "digit_value radix c =
     (let b = byte_of c;
          v = (if 48 \<le> b \<and> b \<le> 57 then Some (b - 48)
               else if 97 \<le> b \<and> b \<le> 122 then Some (b - 87)
               else if 65 \<le> b \<and> b \<le> 90 then Some (b - 55) else None)
      in case v of Some d \<Rightarrow> if d < radix then Some d else None | None \<Rightarrow> None)"

fun read_given_char :: "char \<Rightarrow> unit parser" where
  "read_given_char c [] = None"
| "read_given_char c (x # xs) = (if x = c then Some ((), xs) else None)"

text \<open>The digits read, their value so far and their number; failure on overflow or too many digits.\<close>

fun read_digits :: "nat \<Rightarrow> nat \<Rightarrow> nat \<Rightarrow> nat \<Rightarrow> nat \<Rightarrow> string \<Rightarrow> (nat \<times> nat \<times> string) option" where
  "read_digits radix max_digits limit acc n [] = Some (acc, n, [])"
| "read_digits radix max_digits limit acc n (c # cs) =
     (case digit_value radix c of
        None \<Rightarrow> Some (acc, n, c # cs)
      | Some d \<Rightarrow>
          (if limit < acc * radix + d \<or> max_digits < Suc n then None
           else read_digits radix max_digits limit (acc * radix + d) (Suc n) cs))"

definition read_number :: "nat \<Rightarrow> nat \<Rightarrow> nat \<Rightarrow> bool \<Rightarrow> nat parser" where
  "read_number radix max_digits limit allow_zero_prefix s =
     (case read_digits radix max_digits limit 0 0 s of
        None \<Rightarrow> None
      | Some (v, n, rest) \<Rightarrow>
          if n = 0 then None
          else if \<not> allow_zero_prefix \<and> take 1 s = ''0'' \<and> 1 < n then None
          else Some (v, rest))"

definition read_separator :: "char \<Rightarrow> nat \<Rightarrow> 'a parser \<Rightarrow> 'a parser" where
  "read_separator sep index inner s =
     (if 0 < index then (case read_given_char sep s of None \<Rightarrow> None | Some (_, s') \<Rightarrow> inner s') else inner s)"

fun read_ipv4_groups :: "nat \<Rightarrow> nat \<Rightarrow> nat list parser" where
  "read_ipv4_groups i 0 s = Some ([], s)"
| "read_ipv4_groups i (Suc k) s =
     (case read_separator (CHR ''.'') i (read_number 10 3 255 False) s of
        None \<Rightarrow> None
      | Some (g, s') \<Rightarrow> map_option (\<lambda>(gs, r). (g # gs, r)) (read_ipv4_groups (Suc i) k s'))"

definition read_ipv4_addr :: "nat list parser" where
  "read_ipv4_addr s = read_ipv4_groups 0 4 s"

text \<open>Reads at most \<open>k\<close> more 16-bit groups from group number \<open>i\<close>; a dotted quad ends the sequence.\<close>

fun read_groups :: "nat \<Rightarrow> nat \<Rightarrow> string \<Rightarrow> nat list \<times> bool \<times> string" where
  "read_groups i 0 s = ([], False, s)"
| "read_groups i (Suc k) s =
     (case (if 0 < k then read_separator (CHR '':'') i read_ipv4_addr s else None) of
        Some (qs, s') \<Rightarrow> ([qs ! 0 * 256 + qs ! 1, qs ! 2 * 256 + qs ! 3], True, s')
      | None \<Rightarrow>
          (case read_separator (CHR '':'') i (read_number 16 4 65535 True) s of
             None \<Rightarrow> ([], False, s)
           | Some (g, s') \<Rightarrow> (let (gs, v4, r) = read_groups (Suc i) k s' in (g # gs, v4, r))))"

definition read_ipv6_addr :: "nat list parser" where
  "read_ipv6_addr s =
     (let (hd8, head_v4, s1) = read_groups 0 8 s in
      if length hd8 = 8 then Some (hd8, s1)
      else if head_v4 then None
      else case read_given_char (CHR '':'') s1 of
        None \<Rightarrow> None
      | Some (_, s2) \<Rightarrow>
          (case read_given_char (CHR '':'') s2 of
             None \<Rightarrow> None
           | Some (_, s3) \<Rightarrow>
               (let (tl7, _, s4) = read_groups 0 (8 - (length hd8 + 1)) s3
                in Some (hd8 @ replicate (8 - length hd8 - length tl7) 0 @ tl7, s4))))"

definition parse_ip :: "string \<Rightarrow> ip_addr option" where
  "parse_ip s =
     (case read_ipv4_addr s of
        Some (qs, []) \<Rightarrow> Some (V4 (word_of_nat (foldl (\<lambda>a q. a * 256 + q) 0 qs)))
      | Some (qs, _) \<Rightarrow> None
      | None \<Rightarrow>
          (case read_ipv6_addr s of
             Some (gs, []) \<Rightarrow> Some (V6 (word_of_nat (foldl (\<lambda>a g. a * 65536 + g) 0 gs)))
           | _ \<Rightarrow> None))"

section \<open>Prefixes and suffixes\<close>

lemma ends_with_append [simp]: "ends_with (s @ suf) suf"
  by (simp add: ends_with_def)

lemma ends_with_iff: "ends_with s suf \<longleftrightarrow> (\<exists>pre. s = pre @ suf)"
proof
  assume "ends_with s suf"
  then have "s = take (length s - length suf) s @ suf"
    by (metis append_take_drop_id ends_with_def)
  then show "\<exists>pre. s = pre @ suf" by blast
qed auto

lemma strip_suffix_append [simp]: "strip_suffix (s @ suf) suf = Some s"
  by (simp add: strip_suffix_def)

lemma strip_prefix_append [simp]: "strip_prefix (pre @ s) pre = Some s"
  by (simp add: strip_prefix_def)

lemma strip_prefix_Some: "strip_prefix s pre = Some r \<longleftrightarrow> s = pre @ r"
  by (auto simp: strip_prefix_def split: if_splits) (metis append_take_drop_id)

lemma strip_prefix_None: "strip_prefix s pre = None \<longleftrightarrow> (\<nexists>r. s = pre @ r)"
  by (metis not_Some_eq strip_prefix_Some)

section \<open>Decimal numbers\<close>

definition is_digit :: "char \<Rightarrow> bool" where
  "is_digit c = (48 \<le> byte_of c \<and> byte_of c \<le> 57)"

definition undecimal :: "string \<Rightarrow> nat" where
  "undecimal s = foldl (\<lambda>acc c. acc * 10 + (byte_of c - 48)) 0 s"

lemma byte_of_char_of [simp]: "n < 256 \<Longrightarrow> byte_of (char_of n) = n"
  by (simp add: byte_of_def)

lemma is_digit_char_of: "(n :: nat) < 10 \<Longrightarrow> is_digit (char_of (48 + n))"
  by (simp add: is_digit_def)

lemma decimal_digits: "list_all is_digit (decimal n)"
  by (induction n rule: decimal.induct) (subst decimal.simps, auto intro: is_digit_char_of)

lemma undecimal_decimal [simp]: "undecimal (decimal n) = n"
proof (induction n rule: decimal.induct)
  case (1 n)
  then show ?case
    by (subst decimal.simps) (auto simp: undecimal_def)
qed

lemma decimal_not_Nil [simp]: "decimal n \<noteq> []"
  by (subst decimal.simps) simp

lemma decimal_inj: "decimal m = decimal n \<Longrightarrow> m = n"
  by (metis undecimal_decimal)

section \<open>Lossy decoding of UTF-8\<close>

text \<open>
  The number of bytes that \<open>String::from_utf8_lossy\<close> consumes next and whether they are a valid
  character; a maximal invalid prefix is replaced by U+FFFD.
\<close>

definition cont_ranges :: "nat \<Rightarrow> (nat \<times> nat) list option" where
  "cont_ranges b =
     (let c = (128, 191) in
      if b < 128 then Some []
      else if 194 \<le> b \<and> b \<le> 223 then Some [c]
      else if b = 224 then Some [(160, 191), c]
      else if 225 \<le> b \<and> b \<le> 236 \<or> b = 238 \<or> b = 239 then Some [c, c]
      else if b = 237 then Some [(128, 159), c]
      else if b = 240 then Some [(144, 191), c, c]
      else if 241 \<le> b \<and> b \<le> 243 then Some [c, c, c]
      else if b = 244 then Some [(128, 143), c, c]
      else None)"

fun match_ranges :: "(nat \<times> nat) list \<Rightarrow> string \<Rightarrow> bool \<times> nat" where
  "match_ranges [] s = (True, 0)"
| "match_ranges (r # rs) [] = (False, 0)"
| "match_ranges ((lo, hi) # rs) (c # s) =
     (if lo \<le> byte_of c \<and> byte_of c \<le> hi then (let (ok, n) = match_ranges rs s in (ok, Suc n)) else (False, 0))"

definition replacement_char :: string where
  "replacement_char = map char_of [239 :: nat, 191, 189]"

function from_utf8_lossy :: "string \<Rightarrow> string" where
  "from_utf8_lossy [] = []"
| "from_utf8_lossy (c # s) =
     (case cont_ranges (byte_of c) of
        None \<Rightarrow> replacement_char @ from_utf8_lossy s
      | Some rs \<Rightarrow>
          (let (ok, n) = match_ranges rs s in
           (if ok then c # take n s else replacement_char) @ from_utf8_lossy (drop n s)))"
  by pat_completeness auto

termination
  by (relation "measure length") auto

lemma from_utf8_lossy_ascii: "\<forall>c\<in>set s. byte_of c < 128 \<Longrightarrow> from_utf8_lossy s = s"
  by (induction s) (simp_all add: cont_ranges_def)

end
