(* ===== verification/Config.thy ===== *)
theory Config
  imports Text
begin

text \<open>
  The configuration of \<open>config.rs\<close>: the structures, their defaults, the validation of a
  configuration and of a peer list, and the conversion of endpoints to and from URIs. The YAML
  reader and \<open>Url::parse\<close> are third-party code; the URL parser is the parameter \<open>url_parse\<close>.
\<close>

section \<open>Endpoints\<close>

record udp_endpoint =
  udp_host :: string
  udp_port :: u16

record h3_endpoint =
  h3e_host :: string
  h3e_port :: u16
  h3e_path :: string

record api_endpoint =
  api_host :: string
  api_port :: u16
  api_path :: string

section \<open>Local settings\<close>

record local_h3 =
  lh3_listen :: h3_endpoint
  lh3_cert :: string
  lh3_key :: string

record local_bare =
  lbare_listen :: udp_endpoint

record local_dns =
  dns_server :: socket_addr
  dns_bindif :: "string option"

record local_tun =
  tun_ifname :: string
  tun_addrs :: "ipnet list"
  tun_mtu :: u16

record local_api =
  lapi_listen :: api_endpoint

record local_cfg =
  lc_table :: bool
  lc_dns :: local_dns
  lc_h3 :: "local_h3 option"
  lc_bare :: "local_bare option"
  lc_api :: "local_api option"
  lc_tun :: local_tun

section \<open>Peers\<close>

record peer_h3 =
  ph3_endpoint :: "h3_endpoint option"
  ph3_token :: string
  ph3_bindif :: "string option"
  ph3_sni :: "string option"

record peer_bare =
  pbare_endpoint :: udp_endpoint
  pbare_bindif :: "string option"

datatype peer_transport = H3 peer_h3 | Bare peer_bare

record peer_tun =
  allowed_ips :: "ipnet list"

record peer =
  peer_id :: string
  peer_transport :: peer_transport
  peer_tun :: peer_tun

record raw_peer =
  raw_id :: string
  raw_h3 :: "peer_h3 option"
  raw_bare :: "peer_bare option"
  raw_tun :: peer_tun

definition peer_try_from :: "raw_peer \<Rightarrow> (string, peer) result" where
  "peer_try_from raw =
     (case (raw_h3 raw, raw_bare raw) of
        (Some h3, None) \<Rightarrow> Ok \<lparr>peer_id = raw_id raw, peer_transport = H3 h3, peer_tun = raw_tun raw\<rparr>
      | (None, Some bare) \<Rightarrow> Ok \<lparr>peer_id = raw_id raw, peer_transport = Bare bare, peer_tun = raw_tun raw\<rparr>
      | _ \<Rightarrow> Err (''peer '' @ [CHR 0x27] @ raw_id raw @ [CHR 0x27] @ '' must configure exactly one of h3 or bare''))"

definition raw_peer_from :: "peer \<Rightarrow> raw_peer" where
  "raw_peer_from p =
     (let (h3, bare) = (case peer_transport p of
        H3 h3 \<Rightarrow> (Some h3, None) | Bare bare \<Rightarrow> (None, Some bare))
      in \<lparr>raw_id = peer_id p, raw_h3 = h3, raw_bare = bare, raw_tun = peer_tun p\<rparr>)"

section \<open>Tuning\<close>

record io_tuning =
  packet_queue_depth :: nat
  socket_buffer_size :: nat
  tun_tx_queue_len :: "nat option"
  tun_enable_offload :: bool
  udp_enable_offload :: bool
  metrics_push_interval :: duration

record dns_tuning =
  dns_query_timeout :: duration
  dns_refresh_interval :: duration
  dns_query_interval :: duration
  dns_min_ttl :: duration

record h3_tuning =
  h3_handshake_timeout :: duration
  h3_max_idle_timeout :: duration
  h3_keepalive_interval :: duration
  h3_cc_algorithm :: string
  h3_enable_pacing :: bool
  h3_insecure_skip_verify :: bool
  h3_trusted_ca :: "string option"

record tuning =
  reconcile_interval :: duration
  reconnect_backoff_min :: duration
  reconnect_backoff_max :: duration
  metrics_log_interval :: duration
  t_io :: io_tuning
  t_dns :: dns_tuning
  t_h3 :: h3_tuning

record config =
  cfg_local :: local_cfg
  cfg_tuning :: tuning
  cfg_peers :: "peer list"

text \<open>\<open>usize\<close> is 64 bits wide on the supported targets.\<close>

definition socket_buffer_bytes :: "io_tuning \<Rightarrow> nat" where
  "socket_buffer_bytes t = min u64_max (socket_buffer_size t * (1024 * 1024))"

definition secs :: "nat \<Rightarrow> duration" where "secs n = n * 1000000000"
definition millis :: "nat \<Rightarrow> duration" where "millis n = n * 1000000"

definition io_tuning_default :: io_tuning where
  "io_tuning_default = \<lparr>packet_queue_depth = 256, socket_buffer_size = 16, tun_tx_queue_len = None,
     tun_enable_offload = False, udp_enable_offload = False, metrics_push_interval = millis 1000\<rparr>"

definition dns_tuning_default :: dns_tuning where
  "dns_tuning_default = \<lparr>dns_query_timeout = secs 2, dns_refresh_interval = secs 120,
     dns_query_interval = millis 100, dns_min_ttl = secs 300\<rparr>"

definition h3_tuning_default :: h3_tuning where
  "h3_tuning_default = \<lparr>h3_handshake_timeout = secs 5, h3_max_idle_timeout = secs 60,
     h3_keepalive_interval = secs 20, h3_cc_algorithm = ''none'', h3_enable_pacing = False,
     h3_insecure_skip_verify = False, h3_trusted_ca = None\<rparr>"

definition tuning_default :: tuning where
  "tuning_default = \<lparr>reconcile_interval = secs 10, reconnect_backoff_min = secs 3,
     reconnect_backoff_max = secs 60, metrics_log_interval = secs 3,
     t_io = io_tuning_default, t_dns = dns_tuning_default, t_h3 = h3_tuning_default\<rparr>"

definition default_dns_server :: socket_addr where
  "default_dns_server = (ipv4_from_octets [1, 1, 1, 1], 53)"

definition default_dns :: local_dns where
  "default_dns = \<lparr>dns_server = default_dns_server, dns_bindif = None\<rparr>"

definition default_ifname :: string where "default_ifname = ''h3llo0''"
definition default_mtu :: u16 where "default_mtu = 1291"
definition MAX_H3_IPV4_MTU :: u16 where "MAX_H3_IPV4_MTU = 1413"

section \<open>Validation\<close>

text \<open>
  The two field conflicts carry the values their messages print, the duplicate carries the value
  whose \<open>to_string\<close> is printed.
\<close>

datatype conflict = KeepaliveNotBelowIdle duration duration | BackoffMinAboveMax duration duration

datatype dup_value = DupString string | DupNet ipnet

datatype validation_error =
    FieldMustBePositive string
  | FieldConflict conflict
  | FieldEmpty string string
  | FieldHasWhitespace string string
  | DuplicateValue string string dup_value
  | PeerTokenTooShort string
  | InvalidCcAlgorithm string

datatype config_error = Parse string | Validation "validation_error list"

datatype config_warning = MtuAboveSafe | BackoffNotAboveHandshake | DnsTtlBelowTwiceRefresh

definition check_not_empty ::
  "bool \<Rightarrow> string \<Rightarrow> string \<Rightarrow> validation_error list \<Rightarrow> validation_error list" where
  "check_not_empty none ctx field errors = (if none then errors @ [FieldEmpty ctx field] else errors)"

definition check_unique ::
  "('a \<Rightarrow> dup_value) \<Rightarrow> 'a \<Rightarrow> string \<Rightarrow> string \<Rightarrow> 'a set \<times> validation_error list \<Rightarrow>
     'a set \<times> validation_error list" where
  "check_unique shw value ctx field st =
     (let (seen, errors) = st in
      (insert value seen,
       if value \<in> seen then errors @ [DuplicateValue ctx field (shw value)] else errors))"

definition check_trimmed ::
  "string \<Rightarrow> string \<Rightarrow> string \<Rightarrow> bool \<Rightarrow> validation_error list \<Rightarrow> validation_error list" where
  "check_trimmed value ctx field check_empty errors =
     (if check_empty \<and> trim value = [] then errors @ [FieldEmpty ctx field]
      else if value \<noteq> trim value then errors @ [FieldHasWhitespace ctx field]
      else errors)"

definition peer_ctx :: "string \<Rightarrow> string" where
  "peer_ctx pid = ''peer '' @ [CHR 0x27] @ pid @ [CHR 0x27]"

definition validate_peer_h3 ::
  "string \<Rightarrow> string \<Rightarrow> peer_h3 \<Rightarrow> string set \<times> validation_error list \<Rightarrow> string set \<times> validation_error list" where
  "validate_peer_h3 pid ctx h3 st =
     (let (tokens, errors) = st;
          errors = (if length (ph3_token h3) < 12 then errors @ [PeerTokenTooShort pid]
                    else check_trimmed (ph3_token h3) ctx ''h3.token'' False errors);
          (tokens, errors) = check_unique DupString (ph3_token h3) ctx ''h3.token'' (tokens, errors);
          errors = (case ph3_sni h3 of Some sni \<Rightarrow> check_trimmed sni ctx ''h3.sni'' True errors
                    | None \<Rightarrow> errors);
          errors = (case ph3_bindif h3 of Some bindif \<Rightarrow> check_trimmed bindif ctx ''h3.bindif'' False errors
                    | None \<Rightarrow> errors)
      in (tokens, errors))"

definition validate_peer_step ::
  "peer \<Rightarrow> string set \<times> string set \<times> validation_error list \<Rightarrow>
     string set \<times> string set \<times> validation_error list" where
  "validate_peer_step p st =
     (let (ids, tokens, errors) = st;
          ctx = peer_ctx (peer_id p);
          errors = check_trimmed (peer_id p) ctx ''id'' True errors;
          (ids, errors) = check_unique DupString (peer_id p) ctx ''id'' (ids, errors);
          (tokens, errors) = (case peer_transport p of
             H3 h3 \<Rightarrow> validate_peer_h3 (peer_id p) ctx h3 (tokens, errors)
           | Bare _ \<Rightarrow> (tokens, errors));
          errors = check_not_empty (allowed_ips (peer_tun p) = []) ctx ''tun.allowed_ips'' errors;
          (_, errors) = fold (\<lambda>net. check_unique DupNet net ctx ''tun.allowed_ips'')
             (allowed_ips (peer_tun p)) ({}, errors)
      in (ids, tokens, errors))"

definition validate_peers :: "peer list \<Rightarrow> (validation_error list, unit) result" where
  "validate_peers peers =
     (let (_, _, errors) = fold validate_peer_step peers ({}, {}, [])
      in if errors = [] then Ok () else Err errors)"

definition duration_checks :: "tuning \<Rightarrow> (string \<times> duration) list" where
  "duration_checks t =
     [(''tuning.reconcile_interval'', reconcile_interval t),
      (''tuning.reconnect_backoff_min'', reconnect_backoff_min t),
      (''tuning.reconnect_backoff_max'', reconnect_backoff_max t),
      (''tuning.metrics_push_interval'', metrics_push_interval (t_io t)),
      (''tuning.metrics_log_interval'', metrics_log_interval t),
      (''tuning.dns_query_timeout'', dns_query_timeout (t_dns t)),
      (''tuning.dns_refresh_interval'', dns_refresh_interval (t_dns t)),
      (''tuning.dns_query_interval'', dns_query_interval (t_dns t)),
      (''tuning.h3_handshake_timeout'', h3_handshake_timeout (t_h3 t)),
      (''tuning.h3_max_idle_timeout'', h3_max_idle_timeout (t_h3 t)),
      (''tuning.h3_keepalive_interval'', h3_keepalive_interval (t_h3 t))]"

definition cc_algorithms :: "string list" where
  "cc_algorithms = [''reno'', ''cubic'', ''bbr'', ''bbr2'', ''none'']"

definition is_h3 :: "peer \<Rightarrow> bool" where
  "is_h3 p = (case peer_transport p of H3 _ \<Rightarrow> True | Bare _ \<Rightarrow> False)"

definition validate_warnings :: "config \<Rightarrow> config_warning list" where
  "validate_warnings c =
     (let t = cfg_tuning c; has_h3_peers = (\<exists>p\<in>set (cfg_peers c). is_h3 p);
          w1 = (if has_h3_peers \<and> MAX_H3_IPV4_MTU < tun_mtu (lc_tun (cfg_local c)) then [MtuAboveSafe] else []);
          w2 = (if has_h3_peers \<and> reconnect_backoff_min t \<le> h3_handshake_timeout (t_h3 t)
                then [BackoffNotAboveHandshake] else []);
          min_safe_ttl = dur_sat_mul (dns_refresh_interval (t_dns t)) 2;
          w3 = (if dns_min_ttl (t_dns t) < min_safe_ttl then [DnsTtlBelowTwiceRefresh] else [])
      in w1 @ w2 @ w3)"

definition validate_errors :: "config \<Rightarrow> validation_error list" where
  "validate_errors c =
     (let t = cfg_tuning c;
          errors = (if packet_queue_depth (t_io t) = 0
                    then [FieldMustBePositive ''tuning.packet_queue_depth''] else []);
          errors = errors @ concat (map (\<lambda>(field, dur). if dur = 0 then [FieldMustBePositive field] else [])
                              (duration_checks t));
          errors = errors @ (if h3_max_idle_timeout (t_h3 t) \<le> h3_keepalive_interval (t_h3 t)
                    then [FieldConflict (KeepaliveNotBelowIdle (h3_keepalive_interval (t_h3 t))
                                           (h3_max_idle_timeout (t_h3 t)))] else []);
          errors = errors @ (if h3_cc_algorithm (t_h3 t) \<notin> set cc_algorithms
                    then [InvalidCcAlgorithm (h3_cc_algorithm (t_h3 t))] else []);
          errors = errors @ (if reconnect_backoff_max t < reconnect_backoff_min t
                    then [FieldConflict (BackoffMinAboveMax (reconnect_backoff_min t)
                                           (reconnect_backoff_max t))] else []);
          errors = (case lc_h3 (cfg_local c) of None \<Rightarrow> errors
                    | Some h3 \<Rightarrow> check_trimmed (lh3_key h3) ''local.h3'' ''key'' True
                        (check_trimmed (lh3_cert h3) ''local.h3'' ''cert'' True errors));
          errors = check_not_empty (tun_addrs (lc_tun (cfg_local c)) = []) ''local.tun'' ''addrs'' errors
      in case validate_peers (cfg_peers c) of Err peer_errors \<Rightarrow> errors @ peer_errors | Ok _ \<Rightarrow> errors)"

definition validate :: "config \<Rightarrow> (config_error, unit) result" where
  "validate c = (let errors = validate_errors c in if errors = [] then Ok () else Err (Validation errors))"

text \<open>\<open>parsed\<close> is the result of \<open>serde_yaml\<close> on the input.\<close>

definition load_config :: "(string, config) result \<Rightarrow> (config_error, config) result" where
  "load_config parsed =
     (case parsed of
        Err e \<Rightarrow> Err (Parse e)
      | Ok c \<Rightarrow> (case validate c of Err e \<Rightarrow> Err e | Ok _ \<Rightarrow> Ok c))"

section \<open>Endpoint URIs\<close>

text \<open>What the accessors of a parsed \<open>Url\<close> return.\<close>

record url =
  url_scheme :: string
  url_username :: string
  url_password :: "string option"
  url_host :: "string option"
  url_port :: "u16 option"
  url_path :: string
  url_query :: "string option"
  url_fragment :: "string option"

type_synonym url_parser = "string \<Rightarrow> (string, url) result"

definition parse_endpoint_uri ::
  "url_parser \<Rightarrow> string \<Rightarrow> string \<Rightarrow> (string, string \<times> u16 option \<times> string) result" where
  "parse_endpoint_uri url_parse raw expected_scheme =
     (case url_parse raw of
        Err e \<Rightarrow> Err e
      | Ok u \<Rightarrow>
          if url_scheme u \<noteq> expected_scheme then Err (''scheme must be '' @ expected_scheme)
          else if url_username u \<noteq> [] \<or> url_password u \<noteq> None then Err ''userinfo is not supported''
          else (case url_host u of
             None \<Rightarrow> Err ''host is required''
           | Some host \<Rightarrow>
               if host = [] then Err ''host is required''
               else if url_query u \<noteq> None \<or> url_fragment u \<noteq> None
               then Err ''query and fragment are not supported''
               else Ok (host, url_port u, url_path u)))"

definition unbracket :: "string \<Rightarrow> string" where
  "unbracket host =
     (case strip_prefix host ''['' of
        None \<Rightarrow> host
      | Some s \<Rightarrow> (case strip_suffix s '']'' of None \<Rightarrow> host | Some t \<Rightarrow> t))"

definition parse_dns_server_uri :: "url_parser \<Rightarrow> string \<Rightarrow> (string, socket_addr) result" where
  "parse_dns_server_uri url_parse raw =
     (case parse_endpoint_uri url_parse raw ''udp'' of
        Err e \<Rightarrow> Err e
      | Ok (host, port, path) \<Rightarrow>
          (case port of
             None \<Rightarrow> Err ''port is required (e.g., udp://1.1.1.1:53)''
           | Some p \<Rightarrow>
               if path \<noteq> ''/'' \<and> path \<noteq> [] then Err ''path must be empty''
               else (case parse_ip (unbracket host) of
                  None \<Rightarrow> Err ''host must be an IP literal''
                | Some ip \<Rightarrow> Ok (ip, p))))"

definition parse_h3_uri :: "url_parser \<Rightarrow> string \<Rightarrow> (string, h3_endpoint) result" where
  "parse_h3_uri url_parse raw =
     (case parse_endpoint_uri url_parse raw ''https'' of
        Err e \<Rightarrow> Err e
      | Ok (host, port, path) \<Rightarrow>
          Ok \<lparr>h3e_host = host, h3e_port = (case port of Some p \<Rightarrow> p | None \<Rightarrow> 443), h3e_path = path\<rparr>)"

definition parse_api_uri :: "url_parser \<Rightarrow> string \<Rightarrow> (string, api_endpoint) result" where
  "parse_api_uri url_parse raw =
     (case parse_endpoint_uri url_parse raw ''http'' of
        Err e \<Rightarrow> Err e
      | Ok (host, port, path) \<Rightarrow>
          Ok \<lparr>api_host = host, api_port = (case port of Some p \<Rightarrow> p | None \<Rightarrow> 9090), api_path = path\<rparr>)"

definition parse_udp_uri :: "url_parser \<Rightarrow> string \<Rightarrow> (string, udp_endpoint) result" where
  "parse_udp_uri url_parse raw =
     (case parse_endpoint_uri url_parse raw ''udp'' of
        Err e \<Rightarrow> Err e
      | Ok (host, port, path) \<Rightarrow>
          (case port of
             None \<Rightarrow> Err ''port is required (e.g., udp://host:6635)''
           | Some p \<Rightarrow>
               if path \<noteq> ''/'' \<and> path \<noteq> [] then Err ''path must be empty''
               else Ok \<lparr>udp_host = host, udp_port = p\<rparr>))"

definition format_udp_uri :: "udp_endpoint \<Rightarrow> string" where
  "format_udp_uri ep = ''udp://'' @ udp_host ep @ '':'' @ decimal (unat (udp_port ep))"

definition format_h3_uri :: "h3_endpoint \<Rightarrow> string" where
  "format_h3_uri ep =
     (if h3e_port ep = 443 then ''https://'' @ h3e_host ep @ h3e_path ep
      else ''https://'' @ h3e_host ep @ '':'' @ decimal (unat (h3e_port ep)) @ h3e_path ep)"

definition format_api_uri :: "api_endpoint \<Rightarrow> string" where
  "format_api_uri ep = ''http://'' @ api_host ep @ '':'' @ decimal (unat (api_port ep)) @ api_path ep"

text \<open>
  What the documentation of the crate \<open>url\<close> states of plain URLs: the parts are returned as
  written, except that \<open>port()\<close> is \<open>None\<close> for the default port of the scheme. A plain host is a
  domain name in lower case, whose labels start with a letter and go on with letters, digits and single
  hyphens, or a dotted IPv4 address, or the unspecified or the loopback IPv6 address in brackets; these are
  the forms the parser does not rewrite. A plain path is rooted and made of letters, digits, hyphens,
  underscores and slashes; the scheme \<open>udp\<close> is not special, so that its path may be empty.
\<close>

definition is_lower :: "char \<Rightarrow> bool" where
  "is_lower c = (97 \<le> byte_of c \<and> byte_of c \<le> 122)"

definition is_upper :: "char \<Rightarrow> bool" where
  "is_upper c = (65 \<le> byte_of c \<and> byte_of c \<le> 90)"

text \<open>\<open>in_label\<close> says that a label has begun, \<open>hyphen\<close> that its last character is a hyphen.\<close>

fun plain_labels :: "bool \<Rightarrow> bool \<Rightarrow> string \<Rightarrow> bool" where
  "plain_labels in_label hyphen [] = (in_label \<and> \<not> hyphen)"
| "plain_labels in_label hyphen (c # cs) =
     (if is_lower c then plain_labels True False cs
      else if is_digit c then in_label \<and> plain_labels True False cs
      else if c = CHR ''-'' then in_label \<and> \<not> hyphen \<and> plain_labels True True cs
      else c = CHR ''.'' \<and> in_label \<and> \<not> hyphen \<and> plain_labels False False cs)"

definition dotted_ipv4 :: "nat \<times> nat \<times> nat \<times> nat \<Rightarrow> string" where
  "dotted_ipv4 = (\<lambda>(a, b, c, d). decimal a @ ''.'' @ decimal b @ ''.'' @ decimal c @ ''.'' @ decimal d)"

definition plain_host :: "string \<Rightarrow> bool" where
  "plain_host h \<longleftrightarrow> plain_labels False False h \<or>
     (\<exists>a b c d. a < 256 \<and> b < 256 \<and> c < 256 \<and> d < 256 \<and> h = dotted_ipv4 (a, b, c, d)) \<or> h \<in> {''[::]'', ''[::1]''}"

definition plain_path :: "string \<Rightarrow> bool" where
  "plain_path p = (take 1 p = ''/'' \<and>
     list_all (\<lambda>c. c \<in> {CHR ''/'', CHR ''-'', CHR ''_''} \<or> is_lower c \<or> is_upper c \<or> is_digit c) p)"

definition default_port :: "string \<Rightarrow> u16 option" where
  "default_port scheme =
     (if scheme = ''http'' then Some 80 else if scheme = ''https'' then Some 443 else None)"

definition plain_url :: "string \<Rightarrow> string \<Rightarrow> u16 option \<Rightarrow> string \<Rightarrow> string" where
  "plain_url scheme host port path =
     scheme @ ''://'' @ host @ (case port of None \<Rightarrow> [] | Some p \<Rightarrow> '':'' @ decimal (unat p)) @ path"

definition url_ok :: "url_parser \<Rightarrow> bool" where
  "url_ok url_parse \<longleftrightarrow>
     (\<forall>scheme host port path.
        scheme \<in> {''http'', ''https'', ''udp''} \<longrightarrow> plain_host host \<longrightarrow>
        (plain_path path \<or> scheme = ''udp'' \<and> path = []) \<longrightarrow>
        url_parse (plain_url scheme host port path) =
          Ok \<lparr>url_scheme = scheme, url_username = [], url_password = None, url_host = Some host,
              url_port = (if port = default_port scheme then None else port), url_path = path,
              url_query = None, url_fragment = None\<rparr>)"

section \<open>What validation accepts\<close>

text \<open>The declarative contract of \<open>validate_peers\<close> and of \<open>validate\<close>.\<close>

definition trimmed :: "string \<Rightarrow> bool" where
  "trimmed s = (trim s = s)"

definition peer_h3_fields_ok :: "peer_h3 \<Rightarrow> bool" where
  "peer_h3_fields_ok h3 =
     (12 \<le> length (ph3_token h3) \<and> trimmed (ph3_token h3)
      \<and> (\<forall>sni. ph3_sni h3 = Some sni \<longrightarrow> sni \<noteq> [] \<and> trimmed sni)
      \<and> (\<forall>bindif. ph3_bindif h3 = Some bindif \<longrightarrow> trimmed bindif))"

definition peer_fields_ok :: "peer \<Rightarrow> bool" where
  "peer_fields_ok p =
     (peer_id p \<noteq> [] \<and> trimmed (peer_id p)
      \<and> (\<forall>h3. peer_transport p = H3 h3 \<longrightarrow> peer_h3_fields_ok h3)
      \<and> allowed_ips (peer_tun p) \<noteq> [] \<and> distinct (allowed_ips (peer_tun p)))"

definition peer_token :: "peer \<Rightarrow> string option" where
  "peer_token p = (case peer_transport p of H3 h3 \<Rightarrow> Some (ph3_token h3) | Bare _ \<Rightarrow> None)"

definition peer_tokens :: "peer list \<Rightarrow> string list" where
  "peer_tokens ps = List.map_filter peer_token ps"

definition peers_valid :: "peer list \<Rightarrow> bool" where
  "peers_valid ps =
     (distinct (map peer_id ps) \<and> distinct (peer_tokens ps) \<and> (\<forall>p\<in>set ps. peer_fields_ok p))"

definition tuning_valid :: "tuning \<Rightarrow> bool" where
  "tuning_valid t =
     (0 < packet_queue_depth (t_io t)
      \<and> 0 < reconcile_interval t \<and> 0 < reconnect_backoff_min t \<and> 0 < reconnect_backoff_max t
      \<and> 0 < metrics_push_interval (t_io t) \<and> 0 < metrics_log_interval t
      \<and> 0 < dns_query_timeout (t_dns t) \<and> 0 < dns_refresh_interval (t_dns t) \<and> 0 < dns_query_interval (t_dns t)
      \<and> 0 < h3_handshake_timeout (t_h3 t) \<and> 0 < h3_max_idle_timeout (t_h3 t) \<and> 0 < h3_keepalive_interval (t_h3 t)
      \<and> h3_keepalive_interval (t_h3 t) < h3_max_idle_timeout (t_h3 t)
      \<and> h3_cc_algorithm (t_h3 t) \<in> {''reno'', ''cubic'', ''bbr'', ''bbr2'', ''none''}
      \<and> reconnect_backoff_min t \<le> reconnect_backoff_max t)"

definition local_valid :: "local_cfg \<Rightarrow> bool" where
  "local_valid l =
     (tun_addrs (lc_tun l) \<noteq> []
      \<and> (\<forall>h3. lc_h3 l = Some h3 \<longrightarrow> lh3_cert h3 \<noteq> [] \<and> trimmed (lh3_cert h3)
             \<and> lh3_key h3 \<noteq> [] \<and> trimmed (lh3_key h3)))"

lemma check_not_empty_Nil: "check_not_empty b ctx f es = [] \<longleftrightarrow> es = [] \<and> \<not> b"
  by (simp add: check_not_empty_def)

lemma trim_Nil [simp]: "trim [] = []"
  by (simp add: trim_def trim_start_def trim_end_def)

lemma check_trimmed_Nil:
  "check_trimmed v ctx f ce es = [] \<longleftrightarrow> es = [] \<and> trimmed v \<and> (ce \<longrightarrow> v \<noteq> [])"
  by (auto simp: check_trimmed_def trimmed_def split: if_splits)

lemma check_unique_simps:
  "fst (check_unique shw v ctx f st) = insert v (fst st)"
  "snd (check_unique shw v ctx f st) = [] \<longleftrightarrow> snd st = [] \<and> v \<notin> fst st"
  by (auto simp: check_unique_def split: prod.split)

lemma check_unique_fold:
  "snd (fold (\<lambda>v. check_unique shw v ctx f) vs st) = [] \<longleftrightarrow>
     snd st = [] \<and> distinct vs \<and> set vs \<inter> fst st = {}"
  by (induction vs arbitrary: st) (auto simp: check_unique_simps)

lemma validate_peer_h3_simps:
  "fst (validate_peer_h3 pid ctx h3 (T, es)) = insert (ph3_token h3) T"
  "snd (validate_peer_h3 pid ctx h3 (T, es)) = [] \<longleftrightarrow>
     es = [] \<and> peer_h3_fields_ok h3 \<and> ph3_token h3 \<notin> T"
proof -
  let ?es = "if length (ph3_token h3) < 12 then es @ [PeerTokenTooShort pid]
    else check_trimmed (ph3_token h3) ctx ''h3.token'' False es"
  let ?es' = "if ph3_token h3 \<in> T then ?es @ [DuplicateValue ctx ''h3.token'' (DupString (ph3_token h3))] else ?es"
  have eq: "validate_peer_h3 pid ctx h3 (T, es) = (insert (ph3_token h3) T,
      case ph3_bindif h3 of None \<Rightarrow> (case ph3_sni h3 of None \<Rightarrow> ?es' | Some sni \<Rightarrow> check_trimmed sni ctx ''h3.sni'' True ?es')
      | Some bindif \<Rightarrow> check_trimmed bindif ctx ''h3.bindif'' False
          (case ph3_sni h3 of None \<Rightarrow> ?es' | Some sni \<Rightarrow> check_trimmed sni ctx ''h3.sni'' True ?es'))"
    by (simp only: validate_peer_h3_def check_unique_def Let_def prod.case)
  have "?es' = [] \<longleftrightarrow> es = [] \<and> 12 \<le> length (ph3_token h3) \<and> trimmed (ph3_token h3) \<and> ph3_token h3 \<notin> T"
    by (auto simp: check_trimmed_Nil)
  then show "snd (validate_peer_h3 pid ctx h3 (T, es)) = [] \<longleftrightarrow>
      es = [] \<and> peer_h3_fields_ok h3 \<and> ph3_token h3 \<notin> T"
    unfolding eq peer_h3_fields_ok_def snd_conv
    by (cases "ph3_sni h3"; cases "ph3_bindif h3") (simp_all only: option.case check_trimmed_Nil, auto)
  show "fst (validate_peer_h3 pid ctx h3 (T, es)) = insert (ph3_token h3) T"
    unfolding eq by simp
qed

lemmas validate_simps = check_not_empty_Nil check_trimmed_Nil check_unique_simps check_unique_fold
  validate_peer_h3_simps

lemma validate_peer_step_simps:
  "fst (validate_peer_step p (I, T, es)) = insert (peer_id p) I"
  "fst (snd (validate_peer_step p (I, T, es))) = set_option (peer_token p) \<union> T"
  "snd (snd (validate_peer_step p (I, T, es))) = [] \<longleftrightarrow>
     es = [] \<and> peer_fields_ok p \<and> peer_id p \<notin> I \<and> set_option (peer_token p) \<inter> T = {}"
proof -
  let ?ctx = "peer_ctx (peer_id p)"
  let ?u = "check_unique DupString (peer_id p) ?ctx ''id'' (I, check_trimmed (peer_id p) ?ctx ''id'' True es)"
  let ?h = "case peer_transport p of
     H3 h3 \<Rightarrow> validate_peer_h3 (peer_id p) ?ctx h3 (T, snd ?u) | Bare _ \<Rightarrow> (T, snd ?u)"
  let ?f = "fold (\<lambda>net. check_unique DupNet net ?ctx ''tun.allowed_ips'') (allowed_ips (peer_tun p))
     ({}, check_not_empty (allowed_ips (peer_tun p) = []) ?ctx ''tun.allowed_ips'' (snd ?h))"
  have eq: "validate_peer_step p (I, T, es) = (fst ?u, fst ?h, snd ?f)"
    by (cases "peer_transport p") (simp_all add: validate_peer_step_def Let_def case_prod_beta)
  show "fst (validate_peer_step p (I, T, es)) = insert (peer_id p) I"
    unfolding eq by (simp add: check_unique_simps)
  show "fst (snd (validate_peer_step p (I, T, es))) = set_option (peer_token p) \<union> T"
    unfolding eq by (cases "peer_transport p") (simp_all add: validate_peer_h3_simps peer_token_def)
  show "snd (snd (validate_peer_step p (I, T, es))) = [] \<longleftrightarrow>
     es = [] \<and> peer_fields_ok p \<and> peer_id p \<notin> I \<and> set_option (peer_token p) \<inter> T = {}"
    unfolding eq snd_conv validate_simps
    by (cases "peer_transport p")
      (auto simp: validate_simps peer_token_def peer_fields_ok_def)
qed

lemma validate_peers_fold:
  "snd (snd (fold validate_peer_step ps (I, T, es))) = [] \<longleftrightarrow>
     es = [] \<and> peers_valid ps \<and> set (map peer_id ps) \<inter> I = {} \<and> set (peer_tokens ps) \<inter> T = {}"
proof (induction ps arbitrary: I T es)
  case (Cons p ps)
  obtain I' T' es' where st: "validate_peer_step p (I, T, es) = (I', T', es')"
    by (cases "validate_peer_step p (I, T, es)")
  with validate_peer_step_simps [of p I T es]
  have I': "I' = insert (peer_id p) I" and T': "T' = set_option (peer_token p) \<union> T"
    and es': "es' = [] \<longleftrightarrow> es = [] \<and> peer_fields_ok p \<and> peer_id p \<notin> I \<and> set_option (peer_token p) \<inter> T = {}"
    by simp_all
  show ?case
    using Cons.IH [of I' T' es'] es' unfolding I' T'
    by (cases "peer_token p")
      (auto simp: st I' T' peers_valid_def peer_tokens_def List.map_filter_simps)
qed (simp add: peers_valid_def peer_tokens_def List.map_filter_simps)

lemma validate_peers_iff: "validate_peers ps = Ok () \<longleftrightarrow> peers_valid ps"
  using validate_peers_fold [of ps "{}" "{}" "[]"]
  by (simp add: validate_peers_def Let_def case_prod_beta)

lemma validate_peers_cases: "validate_peers ps = Ok () \<or> (\<exists>es. validate_peers ps = Err es \<and> es \<noteq> [])"
  by (simp add: validate_peers_def Let_def case_prod_beta)

lemma validate_iff:
  "validate c = Ok () \<longleftrightarrow>
     tuning_valid (cfg_tuning c) \<and> local_valid (cfg_local c) \<and> peers_valid (cfg_peers c)"
proof -
  have dur: "concat (map (\<lambda>(field, dur). if dur = 0 then [FieldMustBePositive field] else []) ds) = [] \<longleftrightarrow>
      (\<forall>(field, dur)\<in>set ds. 0 < dur)" for ds :: "(string \<times> duration) list"
    by (fastforce split: if_splits)
  have peers: "(case validate_peers ps of Err pe \<Rightarrow> es @ pe | Ok _ \<Rightarrow> es) = [] \<longleftrightarrow> es = [] \<and> peers_valid ps"
    for es ps
    using validate_peers_cases [of ps] validate_peers_iff [of ps] by auto
  have h3: "(case l of None \<Rightarrow> es | Some h3 \<Rightarrow> check_trimmed (lh3_key h3) a b True
        (check_trimmed (lh3_cert h3) c d True es)) = [] \<longleftrightarrow>
      es = [] \<and> (\<forall>h3. l = Some h3 \<longrightarrow> lh3_cert h3 \<noteq> [] \<and> trimmed (lh3_cert h3)
             \<and> lh3_key h3 \<noteq> [] \<and> trimmed (lh3_key h3))" for l es a b c d
    by (cases l) (auto simp: check_trimmed_Nil)
  have if_Nil: "(if b then [x] else []) = [] \<longleftrightarrow> \<not> b" for b and x :: validation_error
    by simp
  have "validate_errors c = [] \<longleftrightarrow>
      tuning_valid (cfg_tuning c) \<and> local_valid (cfg_local c) \<and> peers_valid (cfg_peers c)"
    unfolding validate_errors_def Let_def peers check_not_empty_Nil h3 append_is_Nil_conv dur if_Nil
      tuning_valid_def local_valid_def not_le not_less not_not cc_algorithms_def duration_checks_def list.set ball_simps prod.case
    by blast
  then show ?thesis by (simp add: validate_def Let_def)
qed

section \<open>A parser of plain URLs\<close>

definition host_char :: "char \<Rightarrow> bool" where
  "host_char c = (is_lower c \<or> is_digit c \<or> c \<in> {CHR ''.'', CHR ''-''})"

definition url_host_part :: "string \<Rightarrow> string" where
  "url_host_part rest =
     (if take 1 rest = ''['' then takeWhile (\<lambda>c. c \<noteq> CHR '']'') rest @ '']'' else takeWhile host_char rest)"

definition url_ref :: url_parser where
  "url_ref s =
     (let scheme = takeWhile (\<lambda>c. c \<noteq> CHR '':'') s;
          rest = drop (length scheme + 3) s;
          host = url_host_part rest;
          tail = drop (length host) rest;
          digits = (if take 1 tail = '':'' then takeWhile is_digit (drop 1 tail) else []);
          port = (if digits = [] then None else Some (word_of_nat (undecimal digits)));
          path = (if digits = [] then tail else drop (Suc (length digits)) tail)
      in Ok \<lparr>url_scheme = scheme, url_username = [], url_password = None, url_host = Some host,
            url_port = (if port = default_port scheme then None else port), url_path = path,
            url_query = None, url_fragment = None\<rparr>)"

lemma plain_labels_host_char: "plain_labels b y h \<Longrightarrow> \<forall>c\<in>set h. host_char c"
  by (induction b y h rule: plain_labels.induct) (auto simp: host_char_def split: if_splits)

lemma dotted_ipv4_host_char: "\<forall>c\<in>set (dotted_ipv4 q). host_char c"
  using decimal_digits by (cases q) (auto simp: dotted_ipv4_def host_char_def list_all_iff)

lemma takeWhile_stop: "\<forall>c\<in>set xs. P c \<Longrightarrow> ys = [] \<or> \<not> P (hd ys) \<Longrightarrow> takeWhile P (xs @ ys) = xs"
  by (cases ys) (auto simp: takeWhile_append2)

lemma plain_path_stop:
  assumes "plain_path p \<or> p = []"
  shows "p = [] \<or> \<not> host_char (hd p)" "p = [] \<or> \<not> is_digit (hd p)" "take 1 p \<noteq> '':''"
  using assms by (auto simp: plain_path_def host_char_def is_lower_def is_digit_def byte_of_def take_Suc split: if_splits)

lemma url_host_part_plain:
  assumes "plain_host h" "t = [] \<or> \<not> host_char (hd t)"
  shows "url_host_part (h @ t) = h"
proof -
  consider "\<forall>c\<in>set h. host_char c" "h \<noteq> []" | "h \<in> {''[::]'', ''[::1]''}"
  proof -
    have "h \<noteq> []" using assms(1) by (auto simp: plain_host_def dotted_ipv4_def)
    moreover have "(\<forall>c\<in>set h. host_char c) \<or> h \<in> {''[::]'', ''[::1]''}"
      using assms(1) plain_labels_host_char dotted_ipv4_host_char unfolding plain_host_def by blast
    ultimately show ?thesis using that by blast
  qed
  then show ?thesis
  proof cases
    case 1
    moreover have "\<not> host_char (CHR ''['')" by (simp add: host_char_def is_lower_def is_digit_def byte_of_def)
    ultimately have "take 1 (h @ t) \<noteq> ''[''" by (cases h) auto
    then show ?thesis unfolding url_host_part_def using takeWhile_stop [OF 1(1) assms(2)] by simp
  qed (auto simp: url_host_part_def)
qed

lemma url_ref_ok: "url_ok url_ref"
proof -
  have "url_ref (plain_url scheme host port path) =
      Ok \<lparr>url_scheme = scheme, url_username = [], url_password = None, url_host = Some host,
        url_port = (if port = default_port scheme then None else port), url_path = path,
        url_query = None, url_fragment = None\<rparr>"
    if scheme: "scheme \<in> {''http'', ''https'', ''udp''}" and host: "plain_host host"
      and path: "plain_path path \<or> path = []" for scheme host port path
  proof -
    let ?tail = "(case port of None \<Rightarrow> [] | Some p \<Rightarrow> '':'' @ decimal (unat p)) @ path"
    have sch: "takeWhile (\<lambda>c. c \<noteq> CHR '':'') (plain_url scheme host port path) = scheme"
      using scheme by (auto simp: plain_url_def)
    have rest: "drop (length scheme + 3) (plain_url scheme host port path) = host @ ?tail"
      by (simp add: plain_url_def)
    have "\<not> host_char (CHR '':'')" by (simp add: host_char_def is_lower_def is_digit_def byte_of_def)
    then have hst: "url_host_part (host @ ?tail) = host"
      using plain_path_stop(1) [OF path] by (intro url_host_part_plain [OF host]) (auto split: option.split)
    have digs: "takeWhile is_digit (decimal n @ path) = decimal n" for n
      using decimal_digits [of n] plain_path_stop(2) [OF path]
      by (intro takeWhile_stop) (auto simp: list_all_iff)
    show ?thesis
      unfolding url_ref_def Let_def sch rest hst
      using digs plain_path_stop(3) [OF path] by (cases port) simp_all
  qed
  then show ?thesis unfolding url_ok_def by blast
qed

section \<open>Formatting as plain URLs\<close>

lemma format_uri_plain:
  "format_h3_uri \<lparr>h3e_host = h, h3e_port = p, h3e_path = q\<rparr> =
     plain_url ''https'' h (if p = 443 then None else Some p) q"
  "format_udp_uri \<lparr>udp_host = h, udp_port = p\<rparr> = plain_url ''udp'' h (Some p) []"
  "format_api_uri \<lparr>api_host = h, api_port = p, api_path = q\<rparr> = plain_url ''http'' h (Some p) q"
  by (simp_all add: format_h3_uri_def format_udp_uri_def format_api_uri_def plain_url_def)

lemma parse_endpoint_uri_plain:
  assumes "url_ok U" "scheme \<in> {''http'', ''https'', ''udp''}" "plain_host host"
    "plain_path path \<or> scheme = ''udp'' \<and> path = []"
  shows "parse_endpoint_uri U (plain_url scheme host port path) scheme =
    Ok (host, if port = default_port scheme then None else port, path)"
proof -
  have "host \<noteq> []" using assms(3) by (auto simp: plain_host_def dotted_ipv4_def)
  moreover have "U (plain_url scheme host port path) =
      Ok \<lparr>url_scheme = scheme, url_username = [], url_password = None, url_host = Some host,
        url_port = (if port = default_port scheme then None else port), url_path = path,
        url_query = None, url_fragment = None\<rparr>"
    using assms unfolding url_ok_def by blast
  ultimately show ?thesis by (simp add: parse_endpoint_uri_def)
qed

section \<open>Properties\<close>

text \<open>The wire format of a peer is exact: a \<open>RawPeer\<close> converts to a peer precisely when it is what
  that peer serialises to. So serialisation followed by deserialisation is the identity, and an entry
  with both or neither of \<open>h3\<close> and \<open>bare\<close> is refused.\<close>

theorem peer_wire_format_exact: "peer_try_from raw = Ok p \<longleftrightarrow> raw = raw_peer_from p"
  by (cases raw; cases p; cases "peer_transport p")
    (auto simp: peer_try_from_def raw_peer_from_def split: option.split)

text \<open>C15: \<open>Config::validate\<close> accepts a configuration exactly when its declarative contract holds: all
  intervals and the queue depth are positive, the keepalive interval is below the idle timeout, the
  congestion control algorithm is known, the reconnect backoff range is not empty, the TLS paths and
  the TUN addresses are present, and the peers have trimmed, non-empty, pairwise distinct identifiers,
  trimmed, pairwise distinct tokens of at least 12 bytes, and non-empty duplicate-free prefix lists.\<close>

theorem validate_accepts_iff:
  "validate c = Ok () \<longleftrightarrow>
     tuning_valid (cfg_tuning c) \<and> local_valid (cfg_local c) \<and> peers_valid (cfg_peers c)"
  by (rule validate_iff)

text \<open>Writing an HTTP/3 or a \<open>BareUDP\<close> endpoint as a URI and parsing it back returns the endpoint,
  for every port, when host and path are in the plain form that \<open>Url::parse\<close> returns unchanged.\<close>

theorem endpoint_uri_roundtrip:
  assumes "url_ok U" "plain_host host" "plain_path path"
  shows "parse_h3_uri U (format_h3_uri \<lparr>h3e_host = host, h3e_port = port, h3e_path = path\<rparr>) =
      Ok \<lparr>h3e_host = host, h3e_port = port, h3e_path = path\<rparr> \<and>
    parse_udp_uri U (format_udp_uri \<lparr>udp_host = host, udp_port = port\<rparr>) =
      Ok \<lparr>udp_host = host, udp_port = port\<rparr>"
  using assms
  by (simp add: parse_h3_uri_def parse_udp_uri_def format_uri_plain parse_endpoint_uri_plain default_port_def)

theorem endpoint_uri_roundtrip_witness:
  "parse_h3_uri url_ref (format_h3_uri \<lparr>h3e_host = ''node1.example.com'', h3e_port = 8443, h3e_path = ''/a''\<rparr>) =
     Ok \<lparr>h3e_host = ''node1.example.com'', h3e_port = 8443, h3e_path = ''/a''\<rparr>"
  using endpoint_uri_roundtrip [OF url_ref_ok, of "''node1.example.com''" "''/a''" 8443]
  by (simp add: plain_host_def plain_path_def is_lower_def is_digit_def byte_of_def)

text \<open>C26: A management API endpoint survives the same round trip on every port but 80: the port is
  always written, but the URL parser drops the default port of the scheme \<open>http\<close>, so that port 80 is
  read back as 9090.\<close>

theorem api_uri_roundtrip_port_80:
  assumes "url_ok U" "plain_host host" "plain_path path"
  shows "parse_api_uri U (format_api_uri \<lparr>api_host = host, api_port = port, api_path = path\<rparr>) =
    Ok \<lparr>api_host = host, api_port = (if port = 80 then 9090 else port), api_path = path\<rparr>"
  using assms
  by (simp add: parse_api_uri_def format_uri_plain parse_endpoint_uri_plain default_port_def)

theorem api_uri_roundtrip_port_80_witness:
  "parse_api_uri url_ref (format_api_uri \<lparr>api_host = ''localhost'', api_port = 80, api_path = ''/''\<rparr>) =
     Ok \<lparr>api_host = ''localhost'', api_port = 9090, api_path = ''/''\<rparr>"
  using api_uri_roundtrip_port_80 [OF url_ref_ok, of "''localhost''" "''/''" 80]
  by (simp add: plain_host_def plain_path_def is_lower_def is_digit_def byte_of_def)

end
