(* ===== verification/Helpers.thy ===== *)
theory Helpers
  imports Prelude
begin

text \<open>
  The helpers of \<open>helpers.rs\<close>: pooled packet buffers with headroom, the size of a batch, the retry
  of transient I/O errors, and the bounded send with its backpressure events. The crate
  \<open>buffer_pool\<close> is the parameter \<open>buf_lib\<close>; a bounded channel of tokio is the environment of a
  sending actor, which decides the outcome of each of its sends.
\<close>

section \<open>Packet buffers\<close>

definition MAX_PACKET_BUFFER_SIZE :: nat where "MAX_PACKET_BUFFER_SIZE = 64 * 1024"
definition HEADROOM :: nat where "HEADROOM = 10"

text \<open>
  The operations of \<open>ConsumeBuffer\<close> the program uses: \<open>expand\<close>, \<open>pop_front\<close>, \<open>truncate\<close>,
  \<open>copy_from_slice\<close> on the visible bytes, and \<open>add_prefix\<close>, which fails without headroom.
\<close>

record 'b buf_lib =
  buf_empty :: 'b
  buf_bytes :: "'b \<Rightarrow> u8 list"
  buf_headroom :: "'b \<Rightarrow> nat"
  buf_expand :: "nat \<Rightarrow> 'b \<Rightarrow> 'b"
  buf_pop_front :: "nat \<Rightarrow> 'b \<Rightarrow> 'b"
  buf_truncate :: "nat \<Rightarrow> 'b \<Rightarrow> 'b"
  buf_copy :: "u8 list \<Rightarrow> 'b \<Rightarrow> 'b"
  buf_add_prefix :: "u8 list \<Rightarrow> 'b \<Rightarrow> 'b option"

definition buf_ok :: "'b buf_lib \<Rightarrow> bool" where
  "buf_ok B \<longleftrightarrow>
     buf_bytes B (buf_empty B) = [] \<and> buf_headroom B (buf_empty B) = 0 \<and>
     (\<forall>n. length (buf_bytes B (buf_expand B n (buf_empty B))) = n \<and>
        buf_headroom B (buf_expand B n (buf_empty B)) = 0) \<and>
     (\<forall>n b. n \<le> length (buf_bytes B b) \<longrightarrow>
        buf_bytes B (buf_pop_front B n b) = drop n (buf_bytes B b) \<and>
        buf_headroom B (buf_pop_front B n b) = buf_headroom B b + n) \<and>
     (\<forall>n b. buf_bytes B (buf_truncate B n b) = take n (buf_bytes B b) \<and>
        buf_headroom B (buf_truncate B n b) = buf_headroom B b) \<and>
     (\<forall>d b. length d = length (buf_bytes B b) \<longrightarrow>
        buf_bytes B (buf_copy B d b) = d \<and> buf_headroom B (buf_copy B d b) = buf_headroom B b) \<and>
     (\<forall>p b. buf_headroom B b < length p \<longrightarrow> buf_add_prefix B p b = None) \<and>
     (\<forall>p b. length p \<le> buf_headroom B b \<longrightarrow>
        (\<exists>b'. buf_add_prefix B p b = Some b' \<and> buf_bytes B b' = p @ buf_bytes B b \<and>
           buf_headroom B b' = buf_headroom B b - length p))"

text \<open>\<open>max_datagram\<close> is \<open>MAX_DATAGRAM_SIZE\<close> of the crate \<open>datagram_socket\<close>.\<close>

definition alloc_uninit_packet_buf :: "'b buf_lib \<Rightarrow> nat \<Rightarrow> nat \<Rightarrow> 'b" where
  "alloc_uninit_packet_buf B max_datagram len =
     (let capacity = (if len + HEADROOM \<le> max_datagram then max_datagram else MAX_PACKET_BUFFER_SIZE)
      in buf_pop_front B HEADROOM (buf_expand B capacity (buf_empty B)))"

definition alloc_packet_buf :: "'b buf_lib \<Rightarrow> nat \<Rightarrow> u8 list \<Rightarrow> 'b" where
  "alloc_packet_buf B max_datagram data =
     (let buf = alloc_uninit_packet_buf B max_datagram (length data);
          buf = buf_truncate B (length data) buf
      in buf_copy B data buf)"

definition batch_stats :: "packet list \<Rightarrow> nat \<times> nat" where
  "batch_stats batch = (length batch, sum_list (map length batch))"

section \<open>Retrying transient I/O errors\<close>

datatype io_error_kind =
    Interrupted | WouldBlock | ConnectionRefused | ConnectionReset | ConnectionAborted
  | HostUnreachable | NetworkUnreachable | NetworkDown | AddrNotAvailable | InvalidInput | TimedOut | OtherIo

text \<open>\<open>io::Error\<close>: its kind, the operating-system error behind it, and what it displays.\<close>

record io_error =
  ie_kind :: io_error_kind
  ie_raw :: "nat option"
  ie_text :: string

text \<open>
  \<open>results\<close> are the outcomes of the successive evaluations of the expression with the time at which
  each is seen; the loop consumes them until a value or a non-transient error. The result is
  \<open>None\<close> when the outcomes are all transient, that is when the loop still runs.
\<close>

fun retry_on_transient ::
  "duration option \<Rightarrow> (duration \<times> (io_error, 'a) result) list \<Rightarrow>
     ((io_error, 'a) result \<times> duration option) option" where
  "retry_on_transient wb_start [] = None"
| "retry_on_transient wb_start ((now, Ok v) # rs) = Some (Ok v, map_option (\<lambda>start. now - start) wb_start)"
| "retry_on_transient wb_start ((now, Err e) # rs) =
     (if ie_kind e = Interrupted then retry_on_transient wb_start rs
      else if ie_kind e = WouldBlock
      then retry_on_transient (case wb_start of None \<Rightarrow> Some now | Some s \<Rightarrow> Some s) rs
      else Some (Err e, map_option (\<lambda>start. now - start) wb_start))"

section \<open>Sends with backpressure\<close>

datatype send_event = Fast | Full | Waited duration

datatype try_send_result = TrySent | TryFull | TryClosed

text \<open>
  What the environment does with one send: the answer of \<open>try_send\<close>, and the answer of the awaited
  send when the queue was full, the time it took or \<open>None\<close> when the receiver is gone.
\<close>

record send_env =
  try_answer :: try_send_result
  send_answer :: "duration option"

text \<open>The sending side of an actor: how many sends it has made and what it has delivered, in order.\<close>

record 'v outbox =
  sends :: nat
  delivered :: "(chan \<times> 'v) list"

definition deliver :: "chan \<Rightarrow> 'v \<Rightarrow> 'v outbox \<Rightarrow> 'v outbox" where
  "deliver tx v out = out\<lparr>delivered := delivered out @ [(tx, v)]\<rparr>"

definition send_with_backpressure ::
  "(nat \<Rightarrow> send_env) \<Rightarrow> chan \<Rightarrow> 'v \<Rightarrow> 'v outbox \<Rightarrow> bool \<times> send_event list \<times> 'v outbox" where
  "send_with_backpressure env tx value out =
     (let e = env (sends out); out' = out\<lparr>sends := Suc (sends out)\<rparr> in
      case try_answer e of
        TrySent \<Rightarrow> (True, [Fast], deliver tx value out')
      | TryFull \<Rightarrow>
          (case send_answer e of
             Some waited \<Rightarrow> (True, [Full, Waited waited], deliver tx value out')
           | None \<Rightarrow> (False, [Full], out'))
      | TryClosed \<Rightarrow> (False, [], out'))"

text \<open>A send is accepted when the environment takes the value on either path.\<close>

definition accepts :: "send_env \<Rightarrow> bool" where
  "accepts e = (try_answer e = TrySent \<or> try_answer e = TryFull \<and> send_answer e \<noteq> None)"

section \<open>Lemmas\<close>

lemma batch_stats_simps [simp]:
  "fst (batch_stats b) = length b" "snd (batch_stats b) = sum_list (map length b)"
  by (simp_all add: batch_stats_def)

lemma send_ok: "fst (send_with_backpressure env tx v out) = accepts (env (sends out))"
  by (simp add: send_with_backpressure_def accepts_def Let_def split: try_send_result.split option.split)

lemma send_outbox:
  "snd (snd (send_with_backpressure env tx v out)) =
     \<lparr>sends = Suc (sends out),
      delivered = delivered out @ (if accepts (env (sends out)) then [(tx, v)] else [])\<rparr>"
  by (simp add: send_with_backpressure_def accepts_def deliver_def Let_def
      split: try_send_result.split option.split)

definition transient :: "(io_error, 'a) result \<Rightarrow> bool" where
  "transient r = (case r of Ok _ \<Rightarrow> False | Err e \<Rightarrow> ie_kind e = Interrupted \<or> ie_kind e = WouldBlock)"

definition would_block :: "(io_error, 'a) result \<Rightarrow> bool" where
  "would_block r = (case r of Ok _ \<Rightarrow> False | Err e \<Rightarrow> ie_kind e = WouldBlock)"

lemma retry_on_transient_skips:
  assumes "\<forall>(t, r)\<in>set rs. transient r"
  shows "retry_on_transient wb (rs @ rest) =
     retry_on_transient (case wb of Some s \<Rightarrow> Some s
       | None \<Rightarrow> map_option fst (find (\<lambda>(t, r). would_block r) rs)) rest"
  using assms
proof (induction rs arbitrary: wb)
  case (Cons tr rs)
  obtain t e where tr: "tr = (t, Err e)" "ie_kind e = Interrupted \<or> ie_kind e = WouldBlock"
    using Cons.prems by (cases tr; cases "snd tr") (auto simp: transient_def)
  with Cons show ?case by (auto simp: would_block_def split: option.split)
qed (simp split: option.split)

lemma retry_on_transient_result:
  assumes "retry_on_transient wb rs = Some (r, d)"
  shows "\<exists>t. (t, r) \<in> set rs \<and> \<not> transient r"
  using assms
proof (induction rs arbitrary: wb)
  case (Cons tr rs)
  then show ?case by (cases tr; cases "snd tr") (fastforce simp: transient_def split: if_splits)+
qed simp

lemma alloc_uninit_packet_buf_shape:
  assumes "buf_ok B" "len + HEADROOM \<le> MAX_PACKET_BUFFER_SIZE" "HEADROOM \<le> max_datagram"
  shows "len \<le> length (buf_bytes B (alloc_uninit_packet_buf B max_datagram len))
     \<and> buf_headroom B (alloc_uninit_packet_buf B max_datagram len) = HEADROOM"
  using assms
  by (auto simp: buf_ok_def alloc_uninit_packet_buf_def HEADROOM_def MAX_PACKET_BUFFER_SIZE_def Let_def)

lemma alloc_packet_buf_shape:
  assumes "buf_ok B" "length data + HEADROOM \<le> MAX_PACKET_BUFFER_SIZE" "HEADROOM \<le> max_datagram"
  shows "buf_bytes B (alloc_packet_buf B max_datagram data) = data
     \<and> buf_headroom B (alloc_packet_buf B max_datagram data) = HEADROOM"
  using alloc_uninit_packet_buf_shape [OF assms] assms(1)
  by (simp add: alloc_packet_buf_def buf_ok_def Let_def)

section \<open>A reference buffer\<close>

definition buf_ref :: "(nat \<times> u8 list) buf_lib" where
  "buf_ref = \<lparr>
     buf_empty = (0, []),
     buf_bytes = snd,
     buf_headroom = fst,
     buf_expand = (\<lambda>n (h, b). (h, b @ replicate (n - length b) 0)),
     buf_pop_front = (\<lambda>n (h, b). (h + n, drop n b)),
     buf_truncate = (\<lambda>n (h, b). (h, take n b)),
     buf_copy = (\<lambda>d (h, b). (h, d)),
     buf_add_prefix = (\<lambda>p (h, b). if length p \<le> h then Some (h - length p, p @ b) else None)\<rparr>"

lemma buf_ref_ok: "buf_ok buf_ref"
  by (auto simp: buf_ok_def buf_ref_def)

lemma buf_ok_pop_front:
  "buf_ok B \<Longrightarrow> n \<le> length (buf_bytes B b) \<Longrightarrow> buf_bytes B (buf_pop_front B n b) = drop n (buf_bytes B b)"
  by (simp add: buf_ok_def)

lemma buf_ok_add_prefix:
  assumes "buf_ok B"
  shows "(buf_add_prefix B p b = None \<longleftrightarrow> buf_headroom B b < length p) \<and>
    (\<forall>b'. buf_add_prefix B p b = Some b' \<longrightarrow>
       buf_bytes B b' = p @ buf_bytes B b \<and> buf_headroom B b' = buf_headroom B b - length p)"
proof (cases "buf_headroom B b < length p")
  case True
  with assms show ?thesis by (simp add: buf_ok_def)
next
  case False
  with assms obtain b' where "buf_add_prefix B p b = Some b'" "buf_bytes B b' = p @ buf_bytes B b"
    "buf_headroom B b' = buf_headroom B b - length p"
    unfolding buf_ok_def by (meson not_le)
  with False show ?thesis by simp
qed

end
