(* ===== verification/Bind.thy ===== *)
theory Bind
  imports Config Helpers "HOL-Library.Product_Lexorder"
begin

text \<open>
  Interface selection and UDP sockets: \<open>bind.rs\<close>. A route of the crate \<open>route_manager\<close> is data; the
  calls on a socket are recorded in order, and the environment says which of them fail. Interface names
  and indexes are resolved by functions of the environment. The code of the Linux target is modelled.
\<close>

section \<open>Routes\<close>

record sys_route =
  sr_destination :: ip_addr
  sr_prefix :: nat
  sr_if_index :: "nat option"
  sr_metric :: "nat option"
  sr_table :: nat

definition RT_TABLE_MAIN :: nat where "RT_TABLE_MAIN = 254"

text \<open>Prefix length, whether the route is in the main table, metric and interface.\<close>

type_synonym probe_match = "nat \<times> bool \<times> nat option \<times> nat"

definition probe_route_match :: "ipnet_lib \<Rightarrow> sys_route \<Rightarrow> ip_addr \<Rightarrow> probe_match option" where
  "probe_route_match L route target =
     (case sr_if_index route of
        None \<Rightarrow> None
      | Some ifindex \<Rightarrow>
          (case net_new L (sr_destination route) (sr_prefix route) of
             None \<Rightarrow> None
           | Some net \<Rightarrow>
               if \<not> contains_addr L net target then None
               else Some (sr_prefix route, sr_table route = RT_TABLE_MAIN, sr_metric route, ifindex)))"

text \<open>
  The comparison of \<open>sort_by\<close> as a key: prefix length descending, main table first, metric ascending with
  an absent metric as 0. Prefix lengths are below 256.
\<close>

fun match_key :: "probe_match \<Rightarrow> nat \<times> nat \<times> nat" where
  "match_key (prefix_len, is_main, metric, idx) =
     (255 - prefix_len, if is_main then 0 else 1, case metric of Some m \<Rightarrow> m | None \<Rightarrow> 0)"

text \<open>\<open>filter(|idx| seen.insert(*idx))\<close>: the first occurrence of each index stays.\<close>

fun first_seen :: "'a set \<Rightarrow> 'a list \<Rightarrow> 'a list" where
  "first_seen seen [] = []"
| "first_seen seen (x # xs) = (if x \<in> seen then first_seen seen xs else x # first_seen (insert x seen) xs)"

definition match_index :: "probe_match \<Rightarrow> nat" where
  "match_index m = (case m of (_, _, _, idx) \<Rightarrow> idx)"

definition matching_route_indexes :: "ipnet_lib \<Rightarrow> sys_route list \<Rightarrow> ip_addr \<Rightarrow> nat option \<Rightarrow> nat list" where
  "matching_route_indexes L routes target tun_index =
     (let matches = List.map_filter (\<lambda>r. probe_route_match L r target) routes;
          sorted_matches = sort_key match_key matches
      in first_seen {} (filter (\<lambda>idx. tun_index \<noteq> Some idx) (map match_index sorted_matches)))"

datatype route_probe_error = Probe string | ProbeInterfaceLookup nat string

fun names_of :: "(nat \<Rightarrow> (string, string) result) \<Rightarrow> nat list \<Rightarrow> (route_probe_error, string list) result" where
  "names_of to_name [] = Ok []"
| "names_of to_name (i # is) =
     (case to_name i of
        Err e \<Rightarrow> Err (ProbeInterfaceLookup i e)
      | Ok nm \<Rightarrow> (case names_of to_name is of Err e \<Rightarrow> Err e | Ok nms \<Rightarrow> Ok (nm # nms)))"

definition probe_interfaces_impl ::
  "ipnet_lib \<Rightarrow> (string \<Rightarrow> nat option) \<Rightarrow> (nat \<Rightarrow> (string, string) result) \<Rightarrow> (string, sys_route list) result \<Rightarrow>
     ip_addr \<Rightarrow> string option \<Rightarrow> (route_probe_error, string list) result" where
  "probe_interfaces_impl L lookup_ifindex ifindex_to_name listing target tun_if =
     (let tun_index = (case tun_if of None \<Rightarrow> None | Some n \<Rightarrow> lookup_ifindex n) in
      case listing of
        Err e \<Rightarrow> Err (Probe e)
      | Ok routes \<Rightarrow> names_of ifindex_to_name (matching_route_indexes L routes target tun_index))"

definition filter_preferred_interfaces :: "string list \<Rightarrow> string list option \<Rightarrow> string list" where
  "filter_preferred_interfaces nms preferred_ifs =
     (case preferred_ifs of
        None \<Rightarrow> nms
      | Some preferred \<Rightarrow>
          (let allowed = filter (\<lambda>i. i \<noteq> []) (map trim preferred) in
           if allowed = [] then [] else filter (\<lambda>nm. nm \<in> set allowed) nms))"

text \<open>\<open>probe\<close> is the route probe; a failed or empty probe leaves the socket unbound.\<close>

definition select_bind_interface ::
  "(ip_addr \<Rightarrow> string option \<Rightarrow> (route_probe_error, string list) result) \<Rightarrow> ip_addr \<Rightarrow> string option \<Rightarrow>
     string option \<Rightarrow> string option" where
  "select_bind_interface probe target tun_if preferred_if =
     (case probe target tun_if of
        Err _ \<Rightarrow> None
      | Ok interfaces \<Rightarrow>
          if interfaces = [] then None
          else let candidates = (case preferred_if of
                   Some preferred \<Rightarrow>
                     (let filtered = filter_preferred_interfaces interfaces (Some [preferred])
                      in if filtered = [] then interfaces else filtered)
                 | None \<Rightarrow> interfaces)
               in Some (hd candidates))"

section \<open>Sockets\<close>

datatype sock_op =
    NewSocket bool
  | SetNonblocking
  | SetRecvBuffer nat
  | SetSendBuffer nat
  | BindDevice bool string
  | SetReuseAddress
  | BindAddr socket_addr
  | ConnectAddr socket_addr

text \<open>A socket is the sequence of calls that succeeded on it; \<open>sys\<close> gives the error of a call that fails.\<close>

type_synonym sock = "sock_op list"
type_synonym sys_calls = "sock_op \<Rightarrow> io_error option"

definition sys_try :: "sys_calls \<Rightarrow> sock_op \<Rightarrow> sock \<Rightarrow> (io_error, sock) result" where
  "sys_try sys op s = (case sys op of Some e \<Rightarrow> Err e | None \<Rightarrow> Ok (s @ [op]))"

definition sys_best_effort :: "sys_calls \<Rightarrow> sock_op \<Rightarrow> sock \<Rightarrow> sock" where
  "sys_best_effort sys op s = (case sys_try sys op s of Err _ \<Rightarrow> s | Ok s' \<Rightarrow> s')"

definition bind_to_device :: "sys_calls \<Rightarrow> bool \<Rightarrow> string \<Rightarrow> sock \<Rightarrow> sock" where
  "bind_to_device sys ipv4 iface s =
     (let iface = trim iface in if iface = [] then s else sys_best_effort sys (BindDevice ipv4 iface) s)"

definition make_udp_socket_raw ::
  "sys_calls \<Rightarrow> bool \<Rightarrow> socket_addr option \<Rightarrow> string option \<Rightarrow> nat \<Rightarrow> (io_error, sock) result" where
  "make_udp_socket_raw sys ipv4 bind_addr bind_interface buffer_bytes =
     (case sys_try sys (NewSocket ipv4) [] of
        Err e \<Rightarrow> Err e
      | Ok s \<Rightarrow>
          (case sys_try sys SetNonblocking s of
             Err e \<Rightarrow> Err e
           | Ok s \<Rightarrow>
               (let s = (if 0 < buffer_bytes
                         then sys_best_effort sys (SetSendBuffer buffer_bytes)
                                (sys_best_effort sys (SetRecvBuffer buffer_bytes) s)
                         else s);
                    s = (case bind_interface of None \<Rightarrow> s | Some i \<Rightarrow> bind_to_device sys ipv4 i s)
                in case bind_addr of
                     None \<Rightarrow> Ok s
                   | Some addr \<Rightarrow>
                       (case sys_try sys SetReuseAddress s of
                          Err e \<Rightarrow> Err e
                        | Ok s \<Rightarrow> sys_try sys (BindAddr addr) s))))"

datatype udp_error = UdpSocketError string

definition make_server_udp_socket :: "sys_calls \<Rightarrow> socket_addr \<Rightarrow> nat \<Rightarrow> (udp_error, sock) result" where
  "make_server_udp_socket sys listen buffer_bytes =
     (case make_udp_socket_raw sys (is_ipv4 (fst listen)) (Some listen) None buffer_bytes of
        Err e \<Rightarrow> Err (UdpSocketError (ie_text e))
      | Ok s \<Rightarrow> Ok s)"

fun is_loopback :: "ip_addr \<Rightarrow> bool" where
  "is_loopback (V4 a) = (drop_bit 24 a = 127)"
| "is_loopback (V6 a) = (a = 1)"

definition make_unbound_udp_socket ::
  "sys_calls \<Rightarrow> (ip_addr \<Rightarrow> string option \<Rightarrow> (route_probe_error, string list) result) \<Rightarrow> socket_addr \<Rightarrow>
     string option \<Rightarrow> string option \<Rightarrow> nat \<Rightarrow> (udp_error, sock) result" where
  "make_unbound_udp_socket sys probe target tun_if bind_interface buffer_bytes =
     (let selected = (if is_loopback (fst target) then None
                      else select_bind_interface probe (fst target) tun_if bind_interface)
      in case make_udp_socket_raw sys (is_ipv4 (fst target)) None selected buffer_bytes of
           Err e \<Rightarrow> Err (UdpSocketError (ie_text e))
         | Ok s \<Rightarrow> Ok s)"

definition make_client_udp_socket ::
  "(socket_addr \<Rightarrow> string) \<Rightarrow> sys_calls \<Rightarrow>
     (ip_addr \<Rightarrow> string option \<Rightarrow> (route_probe_error, string list) result) \<Rightarrow> socket_addr \<Rightarrow>
     string option \<Rightarrow> string option \<Rightarrow> nat \<Rightarrow> (udp_error, sock) result" where
  "make_client_udp_socket show_addr sys probe target tun_if bind_interface buffer_bytes =
     (case make_unbound_udp_socket sys probe target tun_if bind_interface buffer_bytes of
        Err e \<Rightarrow> Err e
      | Ok s \<Rightarrow>
          (case sys_try sys (ConnectAddr target) s of
             Err e \<Rightarrow> Err (UdpSocketError (''connect to '' @ show_addr target @ '': '' @ ie_text e))
           | Ok s \<Rightarrow> Ok s))"

section \<open>Order of the probed interfaces\<close>

lemma set_first_seen: "set (first_seen seen xs) = set xs - seen"
  by (induction seen xs rule: first_seen.induct) auto

lemma distinct_first_seen: "distinct (first_seen seen xs)"
  by (induction seen xs rule: first_seen.induct) (auto simp: set_first_seen)

lemma first_seen_order:
  assumes "sorted (map k ms)" "i < j" "j < length (first_seen seen (filter P (map f ms)))" "m \<in> set ms"
    "f m = first_seen seen (filter P (map f ms)) ! j"
  shows "\<exists>m'\<in>set ms. f m' = first_seen seen (filter P (map f ms)) ! i \<and> k m' \<le> k m"
  using assms
proof (induction ms arbitrary: seen i j)
  case (Cons m0 ms)
  let ?out = "first_seen seen (filter P (map f (m0 # ms)))"
  have k0: "k m0 \<le> k m" using Cons.prems(1,4) by auto
  have mem: "f m \<in> set ?out" using Cons.prems(3,5) by (metis nth_mem)
  show ?case
  proof (cases "P (f m0) \<and> f m0 \<notin> seen")
    case True
    let ?rest = "first_seen (insert (f m0) seen) (filter P (map f ms))"
    have out: "?out = f m0 # ?rest" using True by simp
    obtain j' where j': "j = Suc j'" using Cons.prems(2) by (cases j) auto
    show ?thesis
    proof (cases i)
      case 0
      with out k0 show ?thesis by auto
    next
      case (Suc i')
      have "f m = ?rest ! j'" "j' < length ?rest" using Cons.prems(3,5) out j' by simp_all
      then have "f m \<in> set ?rest" by (metis nth_mem)
      then have "m \<noteq> m0" by (auto simp: set_first_seen)
      with Cons.IH [of i' j' "insert (f m0) seen"] Cons.prems(1,2,4) \<open>f m = ?rest ! j'\<close> \<open>j' < length ?rest\<close> j' Suc
      have "\<exists>m'\<in>set ms. f m' = ?rest ! i' \<and> k m' \<le> k m" by simp
      then show ?thesis unfolding out Suc nth_Cons_Suc by auto
    qed
  next
    case False
    then have out: "?out = first_seen seen (filter P (map f ms))" by auto
    have "m \<noteq> m0" using mem False unfolding out by (auto simp: set_first_seen)
    with Cons.IH [of i j seen] Cons.prems out
    have "\<exists>m'\<in>set ms. f m' = ?out ! i \<and> k m' \<le> k m" by simp
    then show ?thesis by auto
  qed
qed simp

definition route_matches :: "ipnet_lib \<Rightarrow> sys_route list \<Rightarrow> ip_addr \<Rightarrow> probe_match set" where
  "route_matches L routes target = {m. \<exists>r\<in>set routes. probe_route_match L r target = Some m}"

lemma set_map_filter: "set (List.map_filter g xs) = {y. \<exists>x\<in>set xs. g x = Some y}"
  by (force simp: List.map_filter_def)

lemma matching_route_indexes_set:
  "set (matching_route_indexes L routes target tun) =
     {i. tun \<noteq> Some i \<and> (\<exists>m\<in>route_matches L routes target. match_index m = i)}"
  unfolding matching_route_indexes_def Let_def set_first_seen set_filter set_map set_sort set_map_filter
    route_matches_def by blast

lemma names_of_Ok:
  "names_of f is = Ok nms \<Longrightarrow> nm \<in> set nms \<Longrightarrow> \<exists>i\<in>set is. f i = Ok nm"
  by (induction "is" arbitrary: nms) (auto split: sum.splits)

text \<open>What the operating system promises of interface names: they are unique and have no white space around them.\<close>

definition ifnames_ok :: "(string \<Rightarrow> nat option) \<Rightarrow> (nat \<Rightarrow> (string, string) result) \<Rightarrow> bool" where
  "ifnames_ok lookup to_name \<longleftrightarrow>
     (\<forall>i nm. to_name i = Ok nm \<longrightarrow> trim nm = nm \<and> (\<forall>j. lookup nm = Some j \<longrightarrow> j = i))"

lemma select_bind_interface_probed:
  assumes "select_bind_interface probe target tun_if pref = Some nm"
  shows "\<exists>nms. probe target tun_if = Ok nms \<and> nm \<in> set nms"
proof -
  obtain nms where nms: "probe target tun_if = Ok nms" "nms \<noteq> []"
    using assms by (auto simp: select_bind_interface_def split: sum.splits if_splits)
  have sub: "set (filter_preferred_interfaces nms (Some [p])) \<subseteq> set nms" for p
    by (auto simp: filter_preferred_interfaces_def Let_def)
  show ?thesis
  proof (cases pref)
    case None
    with assms nms have "nm = hd nms" by (simp add: select_bind_interface_def)
    with nms show ?thesis by simp
  next
    case (Some p)
    with assms nms have "nm = hd (if filter_preferred_interfaces nms (Some [p]) = [] then nms
        else filter_preferred_interfaces nms (Some [p]))"
      by (simp add: select_bind_interface_def Let_def)
    with nms sub [of p] have "nm \<in> set nms" by (auto split: if_splits)
    with nms show ?thesis by simp
  qed
qed

lemma probed_interface_not_tun:
  assumes "ifnames_ok lookup to_name" "lookup tun = Some t"
    and "probe_interfaces_impl L lookup to_name listing target (Some tun) = Ok nms" "nm \<in> set nms"
  shows "nm \<noteq> tun \<and> trim nm = nm"
proof -
  obtain routes where "names_of to_name (matching_route_indexes L routes target (Some t)) = Ok nms"
    using assms(2,3) by (auto simp: probe_interfaces_impl_def split: sum.splits)
  then obtain i where i: "i \<in> set (matching_route_indexes L routes target (Some t))" "to_name i = Ok nm"
    using names_of_Ok assms(4) by blast
  then have "i \<noteq> t" by (auto simp: matching_route_indexes_set)
  with assms(1,2) i(2) show ?thesis by (auto simp: ifnames_ok_def)
qed

lemma sys_best_effort_set: "set (sys_best_effort sys op s) \<subseteq> insert op (set s)"
  by (auto simp: sys_best_effort_def sys_try_def split: option.splits)

lemma bind_to_device_set: "set (bind_to_device sys v4 i s) \<subseteq> insert (BindDevice v4 (trim i)) (set s)"
  using sys_best_effort_set by (auto simp: bind_to_device_def Let_def)

text \<open>Without an address the socket is neither bound nor marked for address reuse, and at most the given device.\<close>

lemma make_udp_socket_raw_unbound:
  assumes "make_udp_socket_raw sys v4 None i n = Ok s"
  shows "set s \<subseteq> {NewSocket v4, SetNonblocking, SetRecvBuffer n, SetSendBuffer n}
    \<union> (case i of None \<Rightarrow> {} | Some iface \<Rightarrow> {BindDevice v4 (trim iface)})"
proof -
  let ?s0 = "[NewSocket v4, SetNonblocking]"
  let ?s1 = "if 0 < n then sys_best_effort sys (SetSendBuffer n) (sys_best_effort sys (SetRecvBuffer n) ?s0) else ?s0"
  have s: "s = (case i of None \<Rightarrow> ?s1 | Some iface \<Rightarrow> bind_to_device sys v4 iface ?s1)"
    using assms by (auto simp: make_udp_socket_raw_def sys_try_def Let_def split: option.splits)
  have "set ?s1 \<subseteq> {NewSocket v4, SetNonblocking, SetRecvBuffer n, SetSendBuffer n}"
    using sys_best_effort_set [of sys "SetSendBuffer n" "sys_best_effort sys (SetRecvBuffer n) ?s0"]
      sys_best_effort_set [of sys "SetRecvBuffer n" ?s0] by auto
  then show ?thesis
    using bind_to_device_set [of sys v4 "the i" ?s1] unfolding s by (cases i) auto
qed

section \<open>Properties\<close>

text \<open>
  What it means for a route to lead to a target over an interface, and for one route to be preferred to
  another, in the words of the documentation of \<open>matching_route_indexes\<close>.
\<close>

definition leads_to :: "sys_route \<Rightarrow> ip_addr \<Rightarrow> nat \<Rightarrow> bool" where
  "leads_to r target i \<longleftrightarrow> sr_if_index r = Some i \<and> sr_prefix r \<le> ip_width (sr_destination r) \<and>
     covers (mk_net (sr_destination r) (sr_prefix r)) target"

definition route_metric :: "sys_route \<Rightarrow> nat" where
  "route_metric r = (case sr_metric r of Some m \<Rightarrow> m | None \<Rightarrow> 0)"

definition preferred_to :: "sys_route \<Rightarrow> sys_route \<Rightarrow> bool" where
  "preferred_to r r' \<longleftrightarrow>
     sr_prefix r > sr_prefix r' \<or>
     sr_prefix r = sr_prefix r' \<and> sr_table r = RT_TABLE_MAIN \<and> sr_table r' \<noteq> RT_TABLE_MAIN \<or>
     sr_prefix r = sr_prefix r' \<and> (sr_table r = RT_TABLE_MAIN \<longleftrightarrow> sr_table r' = RT_TABLE_MAIN) \<and> route_metric r \<le> route_metric r'"

lemma probe_route_match_Some:
  assumes "ipnet_ok L"
  shows "probe_route_match L r target = Some m \<longleftrightarrow>
    leads_to r target (match_index m) \<and> m = (sr_prefix r, sr_table r = RT_TABLE_MAIN, sr_metric r, match_index m)"
  using assms by (cases m) (auto simp: probe_route_match_def leads_to_def ipnet_ok_def net_wf_def match_index_def split: option.splits)

lemma match_key_preferred:
  assumes "ipnet_ok L" "probe_route_match L r target = Some m" "probe_route_match L r' target = Some m'" "match_key m \<le> match_key m'"
  shows "preferred_to r r'"
proof -
  have short: "sr_prefix x \<le> 128" if "leads_to x target i" for x i
    using that by (cases "sr_destination x") (auto simp: leads_to_def)
  obtain i i' where "leads_to r target i" "m = (sr_prefix r, sr_table r = RT_TABLE_MAIN, sr_metric r, i)"
      "leads_to r' target i'" "m' = (sr_prefix r', sr_table r' = RT_TABLE_MAIN, sr_metric r', i')"
    using assms(2,3) probe_route_match_Some [OF assms(1)] by blast
  with assms(4) short [of r i] short [of r' i'] show ?thesis
    by (auto simp: preferred_to_def route_metric_def less_eq_prod_def split: if_splits)
qed

text \<open>C27: Interfaces are probed in the documented order. Exactly the interfaces of the routes whose prefix
  covers the target are listed, each once, except the TUN interface, which never is. An interface that comes
  earlier has a route that is preferred to every such route of one that comes later: a longer prefix, or on
  equal prefixes the main table, or then a metric that is not higher, an absent metric being 0.\<close>

theorem probe_order:
  assumes "ipnet_ok L"
  shows "distinct (matching_route_indexes L routes target tun) \<and>
    set (matching_route_indexes L routes target tun) = {i. tun \<noteq> Some i \<and> (\<exists>r\<in>set routes. leads_to r target i)} \<and>
    (\<forall>i j r. i < j \<and> j < length (matching_route_indexes L routes target tun) \<and> r \<in> set routes \<and>
        leads_to r target (matching_route_indexes L routes target tun ! j) \<longrightarrow>
      (\<exists>r'\<in>set routes. leads_to r' target (matching_route_indexes L routes target tun ! i) \<and> preferred_to r' r))"
proof -
  define idxs where "idxs = matching_route_indexes L routes target tun"
  define ms where "ms = sort_key match_key (List.map_filter (\<lambda>r. probe_route_match L r target) routes)"
  have ms: "sorted (map match_key ms)" "set ms = route_matches L routes target"
    by (auto simp: ms_def set_map_filter route_matches_def)
  have idxs: "idxs = first_seen {} (filter (\<lambda>idx. tun \<noteq> Some idx) (map match_index ms))"
    by (simp add: idxs_def matching_route_indexes_def ms_def Let_def)
  have match: "\<exists>m. probe_route_match L r target = Some m \<and> match_index m = i" if "leads_to r target i" for r i
    using that probe_route_match_Some [OF assms, of r target "(sr_prefix r, sr_table r = RT_TABLE_MAIN, sr_metric r, i)"]
    by (auto simp: match_index_def)
  have "\<exists>r'\<in>set routes. leads_to r' target (idxs ! i) \<and> preferred_to r' r"
    if h: "i < j" "j < length idxs" "r \<in> set routes" "leads_to r target (idxs ! j)" for i j r
  proof -
    obtain m where m: "probe_route_match L r target = Some m" "match_index m = idxs ! j" using match [OF h(4)] by blast
    then have "m \<in> set ms" using h(3) ms(2) by (auto simp: route_matches_def)
    then obtain m' where m': "m' \<in> set ms" "match_index m' = idxs ! i" "match_key m' \<le> match_key m"
      using first_seen_order [OF ms(1) h(1), of "{}" "\<lambda>idx. tun \<noteq> Some idx" match_index m] h(2) m(2) unfolding idxs by auto
    then obtain r' where r': "r' \<in> set routes" "probe_route_match L r' target = Some m'" using ms(2) by (auto simp: route_matches_def)
    then have "leads_to r' target (idxs ! i)" using probe_route_match_Some [OF assms, of r' target m'] m'(2) by simp
    with r' match_key_preferred [OF assms r'(2) m(1) m'(3)] show ?thesis by blast
  qed
  moreover have "distinct idxs" unfolding idxs by (rule distinct_first_seen)
  moreover have "set idxs = {i. tun \<noteq> Some i \<and> (\<exists>r\<in>set routes. leads_to r target i)}"
    unfolding idxs_def matching_route_indexes_set route_matches_def using match probe_route_match_Some [OF assms] by blast
  ultimately show ?thesis unfolding idxs_def by blast
qed

text \<open>C28: Traffic of the tunnel itself never enters the tunnel. A client socket is connected to its target,
  is never bound to the TUN interface, and, having no fixed local address, is never marked for address reuse.
  This holds whatever the preferred interface and whichever best-effort calls fail.\<close>

theorem client_socket_avoids_tun:
  assumes "ifnames_ok lookup to_name" "lookup tun = Some t"
    and "make_client_udp_socket show_addr sys (probe_interfaces_impl L lookup to_name listing) target (Some tun) pref n = Ok s"
  shows "last s = ConnectAddr target \<and> SetReuseAddress \<notin> set s \<and> (\<forall>v4. BindDevice v4 tun \<notin> set s) \<and>
    (\<forall>addr. BindAddr addr \<notin> set s)"
proof -
  let ?probe = "probe_interfaces_impl L lookup to_name listing"
  obtain s0 where s0: "make_unbound_udp_socket sys ?probe target (Some tun) pref n = Ok s0" "s = s0 @ [ConnectAddr target]"
    using assms(3) by (auto simp: make_client_udp_socket_def sys_try_def split: sum.splits option.splits)
  define sel where "sel = (if is_loopback (fst target) then None else select_bind_interface ?probe (fst target) (Some tun) pref)"
  have raw: "make_udp_socket_raw sys (is_ipv4 (fst target)) None sel n = Ok s0"
    using s0(1) by (auto simp: make_unbound_udp_socket_def sel_def [symmetric] split: sum.splits)
  have "trim i \<noteq> tun" if "sel = Some i" for i
  proof -
    have "select_bind_interface ?probe (fst target) (Some tun) pref = Some i"
      using that by (auto simp: sel_def split: if_splits)
    from select_bind_interface_probed [OF this] probed_interface_not_tun [OF assms(1,2)]
    show ?thesis by metis
  qed
  with make_udp_socket_raw_unbound [OF raw] s0(2) show ?thesis by (auto split: option.splits)
qed

definition sample_sys_routes :: "sys_route list" where
  "sample_sys_routes =
     [\<lparr>sr_destination = V4 0, sr_prefix = 0, sr_if_index = Some 2, sr_metric = Some 100, sr_table = 254\<rparr>,
      \<lparr>sr_destination = V4 0, sr_prefix = 1, sr_if_index = Some 7, sr_metric = None, sr_table = 254\<rparr>]"

definition sample_names :: "nat \<Rightarrow> (string, string) result" where
  "sample_names i = (if i = 2 then Ok ''eth0'' else if i = 7 then Ok ''h3llo0'' else Err ''no such interface'')"

definition sample_ifindex :: "string \<Rightarrow> nat option" where
  "sample_ifindex nm = (if nm = ''eth0'' then Some 2 else if nm = ''h3llo0'' then Some 7 else None)"

lemma sample_matches:
  "List.map_filter (\<lambda>r. probe_route_match ipnet_ref r (V4 134744072)) sample_sys_routes = [(0, True, Some 100, 2), (1, True, None, 7)]"
  by (auto simp: sample_sys_routes_def List.map_filter_def probe_route_match_def ipnet_ref_def covers_def
      host_bits_def RT_TABLE_MAIN_def)

lemma sample_indexes:
  "matching_route_indexes ipnet_ref sample_sys_routes (V4 134744072) (Some 7) = [2]"
  "matching_route_indexes ipnet_ref sample_sys_routes (V4 134744072) None = [7, 2]"
  by (simp_all add: matching_route_indexes_def sample_matches match_index_def less_eq_prod_def)

theorem probe_order_witness:
  "matching_route_indexes ipnet_ref sample_sys_routes (V4 134744072) None = [7, 2] \<and>
   (\<exists>r'\<in>set sample_sys_routes. leads_to r' (V4 134744072) 7 \<and> preferred_to r' (hd sample_sys_routes))"
proof -
  have "0 < (1::nat) \<and> 1 < length (matching_route_indexes ipnet_ref sample_sys_routes (V4 134744072) None) \<and>
      hd sample_sys_routes \<in> set sample_sys_routes \<and>
      leads_to (hd sample_sys_routes) (V4 134744072) (matching_route_indexes ipnet_ref sample_sys_routes (V4 134744072) None ! 1)"
    by (simp add: sample_indexes) (simp add: sample_sys_routes_def leads_to_def covers_def host_bits_def)
  with probe_order [OF ipnet_ref_ok, of sample_sys_routes "V4 134744072" None]
  have "\<exists>r'\<in>set sample_sys_routes. leads_to r' (V4 134744072) (matching_route_indexes ipnet_ref sample_sys_routes (V4 134744072) None ! 0) \<and>
      preferred_to r' (hd sample_sys_routes)"
    by blast
  then show ?thesis by (simp add: sample_indexes)
qed

lemma sample_ifname_trim: "trim ''eth0'' = ''eth0''" "trim ''h3llo0'' = ''h3llo0''"
  by code_simp+

lemma sample_ifnames_ok: "ifnames_ok sample_ifindex sample_names"
  by (auto simp: ifnames_ok_def sample_ifindex_def sample_names_def sample_ifname_trim split: if_splits)

theorem client_socket_avoids_tun_witness:
  "\<exists>s. make_client_udp_socket (\<lambda>_. ''target'') (\<lambda>op. None) (probe_interfaces_impl ipnet_ref sample_ifindex sample_names (Ok sample_sys_routes))
      (V4 134744072, 443) (Some ''h3llo0'') None 0 = Ok s \<and> BindDevice True ''eth0'' \<in> set s \<and> BindDevice True ''h3llo0'' \<notin> set s"
proof -
  have probe: "probe_interfaces_impl ipnet_ref sample_ifindex sample_names (Ok sample_sys_routes) (V4 134744072) (Some ''h3llo0'') = Ok [''eth0'']"
    by (simp add: probe_interfaces_impl_def sample_ifindex_def sample_names_def sample_indexes)
  let ?s = "[NewSocket True, SetNonblocking, BindDevice True ''eth0'', ConnectAddr (V4 134744072, 443)]"
  have s: "make_client_udp_socket (\<lambda>_. ''target'') (\<lambda>op. None) (probe_interfaces_impl ipnet_ref sample_ifindex sample_names (Ok sample_sys_routes))
      (V4 134744072, 443) (Some ''h3llo0'') None 0 = Ok ?s"
    by (simp add: make_client_udp_socket_def make_unbound_udp_socket_def select_bind_interface_def probe
        make_udp_socket_raw_def sys_try_def bind_to_device_def sample_ifname_trim sys_best_effort_def)
  have "BindDevice True ''h3llo0'' \<notin> set ?s"
    using client_socket_avoids_tun [OF sample_ifnames_ok _ s, of 7] by (simp add: sample_ifindex_def)
  with s show ?thesis by (intro exI [of _ ?s]) simp
qed

end
