(* ===== verification/Udp.thy ===== *)
theory Udp
  imports Bind
begin

text \<open>
  The UDP actors of \<open>udp.rs\<close>: the receive loop, which cuts a coalesced read (GRO) into packets, and the
  send loop, which joins runs of packets of one size into segmented sends (GSO). The crate \<open>quinn_udp\<close>
  and the operating system are the outcomes of the calls, which the loops consume in order: the
  reads of a readable socket, the attempts of each send, and the number of segments one send may have.
\<close>

section \<open>Construction\<close>

record udp_rx =
  ur_socket :: sock
  ur_max_udp_payload :: nat

record udp_tx =
  ut_socket :: sock
  ut_enable_offload :: bool

text \<open>\<open>from_std\<close> and the two initialisations of the crate's socket state may each fail.\<close>

definition make_udp ::
  "(sock \<Rightarrow> io_error option) \<Rightarrow> (sock \<Rightarrow> io_error option) \<Rightarrow> (sock \<Rightarrow> io_error option) \<Rightarrow> sock \<Rightarrow> nat \<Rightarrow> bool \<Rightarrow>
     (udp_error, udp_rx \<times> udp_tx) result" where
  "make_udp from_std state_rx state_tx socket max_udp_payload enable_offload =
     (case from_std socket of
        Some e \<Rightarrow> Err (UdpSocketError (''tokio from_std: '' @ ie_text e))
      | None \<Rightarrow>
          (case state_rx socket of
             Some e \<Rightarrow> Err (UdpSocketError (''quinn-udp rx state: '' @ ie_text e))
           | None \<Rightarrow>
               (case state_tx socket of
                  Some e \<Rightarrow> Err (UdpSocketError (''quinn-udp tx state: '' @ ie_text e))
                | None \<Rightarrow> Ok (\<lparr>ur_socket = socket, ur_max_udp_payload = max_udp_payload\<rparr>,
                             \<lparr>ut_socket = socket, ut_enable_offload = enable_offload\<rparr>))))"

section \<open>Receiving\<close>

text \<open>\<open>slice::chunks\<close> of the standard library; a chunk size of zero panics, which its callers model.\<close>

function chunks :: "nat \<Rightarrow> 'a list \<Rightarrow> 'a list list" where
  "chunks n xs = (if n = 0 \<or> xs = [] then [] else take n xs # chunks n (drop n xs))"
  by auto
termination by (relation "measure (\<lambda>(n, xs). length xs)") auto

declare chunks.simps [simp del]

record recv_meta =
  rm_addr :: socket_addr
  rm_len :: nat
  rm_stride :: nat

text \<open>One call of \<open>recv\<close>: how many messages it read, their description, and the buffer it filled.\<close>

datatype recv_outcome = Received nat recv_meta "u8 list" | RecvFailed io_error

datatype udp_rx_wake = Readable "recv_outcome list" | ReadableFailed io_error | RxStop

datatype io_exit = ExitOk | ExitErr io_error | ExitPanic

text \<open>A plain awaited send: it completes unless the receiver is gone.\<close>

definition awaited_send :: "(nat \<Rightarrow> send_env) \<Rightarrow> chan \<Rightarrow> 'v \<Rightarrow> 'v outbox \<Rightarrow> bool \<times> 'v outbox" where
  "awaited_send env tx value out =
     (let out' = out\<lparr>sends := Suc (sends out)\<rparr> in
      case send_answer (env (sends out)) of
        Some _ \<Rightarrow> (True, deliver tx value out')
      | None \<Rightarrow> (False, out'))"

text \<open>
  The loop of reads while the socket is readable. \<open>None\<close> means that the loop was left by a \<open>break\<close>;
  the outcomes end where the socket has nothing more to read.
\<close>

fun udp_rx_drain ::
  "'b buf_lib \<Rightarrow> nat \<Rightarrow> (nat \<Rightarrow> send_env) \<Rightarrow> chan \<Rightarrow> recv_outcome list \<Rightarrow> (socket_addr \<times> 'b list) outbox \<Rightarrow>
     io_exit option \<times> (socket_addr \<times> 'b list) outbox" where
  "udp_rx_drain B max_datagram env output [] out = (None, out)"
| "udp_rx_drain B max_datagram env output (RecvFailed e # rs) out =
     (if ie_kind e = WouldBlock \<or> ie_kind e = Interrupted then (None, out) else (Some (ExitErr e), out))"
| "udp_rx_drain B max_datagram env output (Received n meta buf # rs) out =
     (if n = 0 then (None, out)
      else if rm_len meta = 0 then (None, out)
      else let stride = min (rm_stride meta) (rm_len meta) in
        if length buf < rm_len meta \<or> stride = 0 then (Some ExitPanic, out)
        else let batch = map (alloc_packet_buf B max_datagram) (chunks stride (take (rm_len meta) buf));
                 (ok, out') = awaited_send env output (rm_addr meta, batch) out
             in if ok then udp_rx_drain B max_datagram env output rs out' else (Some ExitOk, out'))"

fun udp_rx_loop ::
  "'b buf_lib \<Rightarrow> nat \<Rightarrow> (nat \<Rightarrow> send_env) \<Rightarrow> chan \<Rightarrow> udp_rx_wake list \<Rightarrow> (socket_addr \<times> 'b list) outbox \<Rightarrow>
     io_exit option \<times> (socket_addr \<times> 'b list) outbox" where
  "udp_rx_loop B max_datagram env output [] out = (None, out)"
| "udp_rx_loop B max_datagram env output (RxStop # ws) out = (Some ExitOk, out)"
| "udp_rx_loop B max_datagram env output (ReadableFailed e # ws) out = (Some (ExitErr e), out)"
| "udp_rx_loop B max_datagram env output (Readable rs # ws) out =
     (case udp_rx_drain B max_datagram env output rs out of
        (None, out') \<Rightarrow> udp_rx_loop B max_datagram env output ws out'
      | (Some x, out') \<Rightarrow> (Some x, out'))"

section \<open>Sending\<close>

record transmit =
  tr_destination :: socket_addr
  tr_contents :: "u8 list"
  tr_segment_size :: nat

text \<open>The attempts of one send: waiting for writability fails, or the send is tried at a time.\<close>

datatype send_attempt = WritableFailed io_error | Tried duration "(io_error, unit) result"

definition EMSGSIZE :: nat where "EMSGSIZE = 90"
definition ENOBUFS :: nat where "ENOBUFS = 105"
definition EIO :: nat where "EIO = 5"

definition is_non_fatal_send_error :: "io_error \<Rightarrow> bool \<Rightarrow> bool" where
  "is_non_fatal_send_error err used_gso =
     (let non_fatal_kind = ie_kind err \<in> {ConnectionRefused, ConnectionReset, ConnectionAborted, HostUnreachable,
            NetworkUnreachable, NetworkDown, AddrNotAvailable, InvalidInput, TimedOut};
          raw_error = ie_raw err
      in non_fatal_kind \<or> raw_error = Some EMSGSIZE \<or> raw_error = Some ENOBUFS \<or> (used_gso \<and> raw_error = Some EIO))"

definition max_payload_to :: "socket_addr \<Rightarrow> nat" where
  "max_payload_to dest = (if is_ipv4 (fst dest) then 65535 - 20 - 8 else 65535 - 8)"

fun gso_run :: "nat \<Rightarrow> nat \<Rightarrow> u8 list \<Rightarrow> packet list \<Rightarrow> u8 list \<times> packet list" where
  "gso_run segment_size max_segs_run gso_buf [] = (gso_buf, [])"
| "gso_run segment_size max_segs_run gso_buf (p # ps) =
     (if length p = segment_size \<and> length gso_buf div segment_size < max_segs_run
      then gso_run segment_size max_segs_run (gso_buf @ p) ps
      else (gso_buf, p # ps))"

text \<open>\<open>retry_on_transient\<close> over attempts that first wait for writability; \<open>None\<close> while it still retries.\<close>

fun is_tried :: "send_attempt \<Rightarrow> bool" where
  "is_tried (Tried _ _) = True"
| "is_tried (WritableFailed _) = False"

fun tried :: "send_attempt \<Rightarrow> duration \<times> (io_error, unit) result" where
  "tried (Tried t r) = (t, r)"
| "tried (WritableFailed e) = (0, Err e)"

datatype send_status = SendDone "(io_error, unit) result" | SendUnwritable io_error | SendPending

definition send_transmit :: "send_attempt list \<Rightarrow> send_status" where
  "send_transmit attempts =
     (case retry_on_transient None (map tried (takeWhile is_tried attempts)) of
        Some (r, _) \<Rightarrow> SendDone r
      | None \<Rightarrow>
          (case dropWhile is_tried attempts of
             WritableFailed e # _ \<Rightarrow> SendUnwritable e
           | _ \<Rightarrow> SendPending))"

text \<open>The actor's environment, indexed by the sends it has made, and what it has put on the wire.\<close>

record udp_tx_env =
  ue_enable_offload :: bool
  ue_max_gso_segments :: "nat \<Rightarrow> nat"
  ue_attempts :: "nat \<Rightarrow> send_attempt list"

record udp_tx_state =
  us_sends :: nat
  us_wire :: "transmit list"

datatype tx_status = TxNext | TxExit io_exit | TxBlocked

definition segs_run :: "udp_tx_env \<Rightarrow> nat \<Rightarrow> socket_addr \<Rightarrow> nat \<Rightarrow> nat" where
  "segs_run E n dest segment_size =
     (let max_segs = (if ue_enable_offload E then ue_max_gso_segments E n else 1)
      in max (min max_segs (max_payload_to dest div segment_size)) 1)"

lemma gso_run_rest: "length (snd (gso_run s m acc ps)) \<le> length ps"
  by (induction ps arbitrary: acc) (auto intro: le_SucI)

lemma gso_run_progress: "0 < m \<Longrightarrow> length (snd (gso_run (length p) m [] (p # ps))) < Suc (length ps)"
  using gso_run_rest [of "length p" m p ps] by (simp add: less_Suc_eq_le)

lemma segs_run_pos: "0 < segs_run E n dest s"
  by (simp add: segs_run_def Let_def)

function udp_tx_packets ::
  "udp_tx_env \<Rightarrow> socket_addr \<Rightarrow> packet list \<Rightarrow> udp_tx_state \<Rightarrow> tx_status \<times> udp_tx_state" where
  "udp_tx_packets E dest [] st = (TxNext, st)"
| "udp_tx_packets E dest (p # ps) st =
     (let segment_size = length p in
      if segment_size = 0 then (TxExit ExitPanic, st)
      else let (gso_buf, rest) = gso_run segment_size (segs_run E (us_sends st) dest segment_size) [] (p # ps);
               t = \<lparr>tr_destination = dest, tr_contents = gso_buf, tr_segment_size = segment_size\<rparr>;
               st' = st\<lparr>us_sends := Suc (us_sends st)\<rparr>
           in case send_transmit (ue_attempts E (us_sends st)) of
                SendPending \<Rightarrow> (TxBlocked, st')
              | SendUnwritable e \<Rightarrow> (TxExit (ExitErr e), st')
              | SendDone (Ok _) \<Rightarrow> udp_tx_packets E dest rest (st'\<lparr>us_wire := us_wire st @ [t]\<rparr>)
              | SendDone (Err e) \<Rightarrow>
                  if is_non_fatal_send_error e (length gso_buf > segment_size) then (TxNext, st')
                  else (TxExit (ExitErr e), st'))"
  by pat_completeness auto
termination
  by (relation "measure (\<lambda>(E, dest, ps, st). length ps)")
    (auto dest!: arg_cong [where f = snd] simp del: gso_run.simps intro: gso_run_progress [OF segs_run_pos])

declare udp_tx_packets.simps [simp del]

text \<open>
  What the loop takes next: a batch, or the stop of the actor, after which the input is closed and the
  batches still buffered are drained. The list ends where the channel is closed and empty.
\<close>

datatype udp_tx_input = TxBatch socket_addr "packet list" | TxStop

fun udp_tx_loop :: "udp_tx_env \<Rightarrow> udp_tx_input list \<Rightarrow> udp_tx_state \<Rightarrow> tx_status \<times> udp_tx_state" where
  "udp_tx_loop E [] st = (TxExit ExitOk, st)"
| "udp_tx_loop E (TxStop # ins) st = udp_tx_loop E ins st"
| "udp_tx_loop E (TxBatch dest pkts # ins) st =
     (if pkts = [] then udp_tx_loop E ins st
      else case udp_tx_packets E dest pkts st of
             (TxNext, st') \<Rightarrow> udp_tx_loop E ins st'
           | (r, st') \<Rightarrow> (r, st'))"

section \<open>Cutting and joining\<close>

lemma concat_chunks: "0 < n \<Longrightarrow> concat (chunks n xs) = xs"
proof (induction n xs rule: chunks.induct)
  case (1 n xs)
  then show ?case by (subst chunks.simps) auto
qed

lemma chunks_length: "0 < n \<Longrightarrow> c \<in> set (chunks n xs) \<Longrightarrow> c \<noteq> [] \<and> length c \<le> n"
proof (induction n xs rule: chunks.induct)
  case (1 n xs)
  show ?case
  proof (cases "xs = []")
    case True
    with 1 show ?thesis by (simp add: chunks.simps)
  next
    case False
    with 1 have "c = take n xs \<or> c \<in> set (chunks n (drop n xs))" by (subst (asm) (2) chunks.simps) simp
    with 1 False show ?thesis by auto
  qed
qed

lemma chunks_concat: "0 < n \<Longrightarrow> \<forall>p\<in>set ps. length p = n \<Longrightarrow> chunks n (concat ps) = ps"
proof (induction ps)
  case (Cons p ps)
  then have "p @ concat ps \<noteq> []" by auto
  with Cons show ?case by (simp add: chunks.simps [of n "p @ concat ps"])
qed (simp add: chunks.simps)

lemma gso_run_spec:
  assumes "0 < s" "length acc = s * k" "k \<le> m"
  shows "\<exists>run rest. gso_run s m acc ps = (acc @ concat run, rest) \<and> ps = run @ rest \<and>
    (\<forall>p\<in>set run. length p = s) \<and> k + length run \<le> m"
  using assms(2,3)
proof (induction ps arbitrary: acc k)
  case Nil
  then show ?case by (intro exI [of _ "[]"]) simp
next
  case (Cons p ps)
  show ?case
  proof (cases "length p = s \<and> k < m")
    case True
    then have "length (acc @ p) = s * Suc k" "Suc k \<le> m" using Cons.prems by simp_all
    from Cons.IH [OF this] obtain run rest where
      "gso_run s m (acc @ p) ps = ((acc @ p) @ concat run, rest)" "ps = run @ rest"
      "\<forall>p\<in>set run. length p = s" "Suc k + length run \<le> m" by blast
    with True Cons.prems assms(1) show ?thesis
      by (intro exI [of _ "p # run"] exI [of _ rest]) simp
  next
    case False
    then have "gso_run s m acc (p # ps) = (acc, p # ps)" using Cons.prems assms(1) by auto
    with Cons.prems show ?thesis by (intro exI [of _ "[]"] exI [of _ "p # ps"]) simp
  qed
qed

text \<open>The packets a transmit stands for, and what the limits of one send ask of it.\<close>

definition segments :: "transmit \<Rightarrow> packet list" where
  "segments t = chunks (tr_segment_size t) (tr_contents t)"

definition transmit_ok :: "udp_tx_env \<Rightarrow> nat \<Rightarrow> socket_addr \<Rightarrow> transmit \<Rightarrow> bool" where
  "transmit_ok E n dest t \<longleftrightarrow> tr_destination t = dest \<and> segments t \<noteq> [] \<and>
     (\<forall>p\<in>set (segments t). length p = tr_segment_size t) \<and>
     (length (segments t) = 1 \<or>
      ue_enable_offload E \<and> length (segments t) \<le> ue_max_gso_segments E n \<and>
      length (tr_contents t) \<le> (if is_ipv4 (fst dest) then 65507 else 65527))"

lemma segs_run_payload: "segs_run E n dest s = 1 \<or> s * segs_run E n dest s \<le> max_payload_to dest"
proof (cases "min (if ue_enable_offload E then ue_max_gso_segments E n else 1) (max_payload_to dest div s) \<le> 1")
  case False
  then have "segs_run E n dest s \<le> max_payload_to dest div s"
    by (simp add: segs_run_def Let_def max_def)
  then have "s * segs_run E n dest s \<le> s * (max_payload_to dest div s)" by (rule mult_le_mono2)
  also have "\<dots> \<le> max_payload_to dest" by simp
  finally show ?thesis ..
qed (auto simp: segs_run_def Let_def max_def)

lemma gso_run_transmit:
  assumes "0 < length p"
  obtains run rest where "gso_run (length p) (segs_run E n dest (length p)) [] (p # ps) = (concat run, rest)"
    "p # ps = run @ rest" "length rest \<le> length ps"
    "segments \<lparr>tr_destination = dest, tr_contents = concat run, tr_segment_size = length p\<rparr> = run"
    "transmit_ok E n dest \<lparr>tr_destination = dest, tr_contents = concat run, tr_segment_size = length p\<rparr>"
proof -
  let ?m = "segs_run E n dest (length p)"
  obtain run rest where g: "gso_run (length p) ?m [] (p # ps) = (concat run, rest)" "p # ps = run @ rest"
    "\<forall>q\<in>set run. length q = length p" "length run \<le> ?m"
    using gso_run_spec [OF assms, of "[]" 0 ?m "p # ps"] by (auto simp del: gso_run.simps)
  have rest: "length rest \<le> length ps"
    using gso_run_progress [OF segs_run_pos, of p E n dest "length p" ps] g(1) by simp
  let ?t = "\<lparr>tr_destination = dest, tr_contents = concat run, tr_segment_size = length p\<rparr>"
  have seg: "segments ?t = run" using chunks_concat [OF assms g(3)] by (simp add: segments_def)
  have "run \<noteq> []" using g(2) rest by (metis append_Nil impossible_Cons)
  have "length (concat run) = length run * length p"
    using g(3) by (induction run) auto
  then have "length (concat run) \<le> length p * ?m" using g(4) by (simp add: mult.commute)
  with segs_run_payload [of E n dest "length p"] g(4) \<open>run \<noteq> []\<close>
  have "length run = 1 \<or> length (concat run) \<le> max_payload_to dest"
    by (cases run) auto
  moreover have "length run = 1 \<or> ue_enable_offload E \<and> length run \<le> ue_max_gso_segments E n"
    using g(4) \<open>run \<noteq> []\<close> by (cases run) (auto simp: segs_run_def Let_def max_def min_def split: if_splits)
  ultimately have "transmit_ok E n dest ?t"
    using seg g(3,4) \<open>run \<noteq> []\<close> by (auto simp: transmit_ok_def max_payload_to_def split: if_splits)
  with g rest seg that show thesis by blast
qed

definition sends_succeed :: "udp_tx_env \<Rightarrow> bool" where
  "sends_succeed E \<longleftrightarrow> (\<forall>n. send_transmit (ue_attempts E n) = SendDone (Ok ()))"

lemma udp_tx_packets_spec:
  assumes "\<forall>p\<in>set pkts. p \<noteq> []"
  shows "\<exists>ts rest. us_wire (snd (udp_tx_packets E dest pkts st)) = us_wire st @ ts \<and>
    pkts = concat (map segments ts) @ rest \<and> (\<forall>i<length ts. transmit_ok E (us_sends st + i) dest (ts ! i)) \<and>
    (sends_succeed E \<longrightarrow> rest = [] \<and> fst (udp_tx_packets E dest pkts st) = TxNext)"
  using assms
proof (induction E dest pkts st rule: udp_tx_packets.induct)
  case (1 E dest st)
  then show ?case by (simp add: udp_tx_packets.simps)
next
  case (2 E dest p ps st)
  have "0 < length p" using "2.prems" by simp
  from gso_run_transmit [OF this, of E "us_sends st" dest ps] obtain run rest where
    g: "gso_run (length p) (segs_run E (us_sends st) dest (length p)) [] (p # ps) = (concat run, rest)"
    "p # ps = run @ rest" "length rest \<le> length ps"
    "segments \<lparr>tr_destination = dest, tr_contents = concat run, tr_segment_size = length p\<rparr> = run"
    "transmit_ok E (us_sends st) dest \<lparr>tr_destination = dest, tr_contents = concat run, tr_segment_size = length p\<rparr>" .
  let ?t = "\<lparr>tr_destination = dest, tr_contents = concat run, tr_segment_size = length p\<rparr>"
  let ?st = "st\<lparr>us_sends := Suc (us_sends st), us_wire := us_wire st @ [?t]\<rparr>"
  show ?case
  proof (cases "send_transmit (ue_attempts E (us_sends st)) = SendDone (Ok ())")
    case True
    have step: "udp_tx_packets E dest (p # ps) st = udp_tx_packets E dest rest ?st"
      using True \<open>0 < length p\<close> by (simp add: udp_tx_packets.simps g(1) Let_def del: gso_run.simps)
    have "\<forall>q\<in>set rest. q \<noteq> []" using "2.prems" unfolding g(2) by simp
    with "2.IH" True \<open>0 < length p\<close> g(1) obtain ts rest' where
      "us_wire (snd (udp_tx_packets E dest rest ?st)) = us_wire ?st @ ts" "rest = concat (map segments ts) @ rest'"
      "\<forall>i<length ts. transmit_ok E (us_sends ?st + i) dest (ts ! i)"
      "sends_succeed E \<longrightarrow> rest' = [] \<and> fst (udp_tx_packets E dest rest ?st) = TxNext"
      by fastforce
    with g show ?thesis unfolding step
      by (intro exI [of _ "?t # ts"] exI [of _ rest']) (auto simp: less_Suc_eq_0_disj)
  next
    case False
    then have "us_wire (snd (udp_tx_packets E dest (p # ps) st)) = us_wire st"
      using \<open>0 < length p\<close>
      by (auto simp: udp_tx_packets.simps g(1) Let_def simp del: gso_run.simps split: send_status.split sum.split)
    with False show ?thesis by (intro exI [of _ "[]"] exI [of _ "p # ps"]) (auto simp: sends_succeed_def)
  qed
qed

text \<open>A transmit that arrives as one coalesced read of the receiver.\<close>

definition gro_read :: "socket_addr \<Rightarrow> transmit \<Rightarrow> recv_outcome" where
  "gro_read src t =
     Received 1 \<lparr>rm_addr = src, rm_len = length (tr_contents t), rm_stride = tr_segment_size t\<rparr> (tr_contents t)"

definition output_open :: "(nat \<Rightarrow> send_env) \<Rightarrow> bool" where
  "output_open env \<longleftrightarrow> (\<forall>n. send_answer (env n) \<noteq> None)"

lemma awaited_send_open:
  "output_open env \<Longrightarrow> awaited_send env tx v out =
     (True, \<lparr>sends = Suc (sends out), delivered = delivered out @ [(tx, v)]\<rparr>)"
  by (auto simp: awaited_send_def output_open_def deliver_def Let_def split: option.split)

lemma transmit_ok_sizes:
  assumes "transmit_ok E n dest t"
  shows "0 < tr_segment_size t \<and> tr_segment_size t \<le> length (tr_contents t)"
proof -
  have "segments t \<noteq> []" using assms by (simp add: transmit_ok_def)
  then have pos: "0 < tr_segment_size t" unfolding segments_def by (subst (asm) chunks.simps) (auto split: if_splits)
  obtain q qs where q: "segments t = q # qs" using \<open>segments t \<noteq> []\<close> by (cases "segments t") auto
  then have "length q = tr_segment_size t" using assms by (simp add: transmit_ok_def)
  moreover have "tr_contents t = concat (segments t)" using concat_chunks [OF pos, of "tr_contents t"] by (simp add: segments_def)
  ultimately show ?thesis using pos q by simp
qed

lemma udp_rx_drain_reads:
  assumes "output_open env" "\<forall>t\<in>set ts. 0 < tr_segment_size t \<and> tr_segment_size t \<le> length (tr_contents t)"
  shows "udp_rx_drain B md env outp (map (gro_read src) ts) out =
    (None, \<lparr>sends = sends out + length ts,
       delivered = delivered out @ map (\<lambda>t. (outp, src, map (alloc_packet_buf B md) (segments t))) ts\<rparr>)"
  using assms(2)
proof (induction ts arbitrary: out)
  case (Cons t ts)
  then have "min (tr_segment_size t) (length (tr_contents t)) = tr_segment_size t" "tr_contents t \<noteq> []" by auto
  with Cons show ?case by (simp add: gro_read_def Let_def awaited_send_open [OF assms(1)] segments_def)
qed simp

definition failures_non_fatal :: "udp_tx_env \<Rightarrow> bool" where
  "failures_non_fatal E \<longleftrightarrow> (\<forall>n. send_transmit (ue_attempts E n) = SendDone (Ok ()) \<or>
     (\<exists>e. send_transmit (ue_attempts E n) = SendDone (Err e) \<and> is_non_fatal_send_error e False))"

lemma udp_tx_packets_survives:
  assumes "failures_non_fatal E" "\<forall>p\<in>set pkts. p \<noteq> []"
  shows "fst (udp_tx_packets E dest pkts st) = TxNext"
  using assms
proof (induction E dest pkts st rule: udp_tx_packets.induct)
  case (2 E dest p ps st)
  have non_fatal: "is_non_fatal_send_error e False \<Longrightarrow> is_non_fatal_send_error e b" for e b
    by (auto simp: is_non_fatal_send_error_def Let_def)
  have "0 < length p" using "2.prems" by simp
  from gso_run_transmit [OF this, of E "us_sends st" dest ps] obtain run rest where
    g: "gso_run (length p) (segs_run E (us_sends st) dest (length p)) [] (p # ps) = (concat run, rest)"
    "p # ps = run @ rest" .
  have ne: "\<forall>q\<in>set rest. q \<noteq> []" using "2.prems" unfolding g(2) by simp
  consider "send_transmit (ue_attempts E (us_sends st)) = SendDone (Ok ())"
    | e where "send_transmit (ue_attempts E (us_sends st)) = SendDone (Err e)" "is_non_fatal_send_error e False"
    using "2.prems"(1) by (auto simp: failures_non_fatal_def)
  then show ?case
  proof cases
    case 1
    with "2.IH" [OF refl _ g(1) [symmetric] refl refl refl] ne "2.prems"(1) \<open>0 < length p\<close> show ?thesis
      by (simp add: udp_tx_packets.simps g(1) Let_def del: gso_run.simps)
  next
    case 2
    with \<open>0 < length p\<close> show ?thesis
      by (simp add: udp_tx_packets.simps g(1) Let_def non_fatal del: gso_run.simps)
  qed
qed (simp add: udp_tx_packets.simps)

section \<open>Properties\<close>

text \<open>C31: Segmented sends carry exactly the packets of the batch, in order. Every send goes to the batch's destination
  and splits into packets of one size. It has at most the number of segments that the socket allows at that
  moment, and more than one packet only where they fit the largest UDP payload. When a send fails, what
  was sent is a prefix of the batch; when none fails, it is the whole batch.\<close>

theorem gso_sends_exactly:
  assumes "\<forall>p\<in>set pkts. p \<noteq> []"
  shows "\<exists>ts rest. us_wire (snd (udp_tx_packets E dest pkts st)) = us_wire st @ ts \<and>
    pkts = concat (map segments ts) @ rest \<and> (\<forall>i<length ts. transmit_ok E (us_sends st + i) dest (ts ! i)) \<and>
    (sends_succeed E \<longrightarrow> rest = [] \<and> fst (udp_tx_packets E dest pkts st) = TxNext)"
  using assms by (rule udp_tx_packets_spec)

text \<open>C32: A batch crosses the UDP link unchanged. When the segmented sends of a batch arrive as coalesced reads, the
  receiving actor hands on, tagged with the source address, the packets of the batch with the same bytes, the
  same boundaries and the same order.\<close>

theorem udp_link_roundtrip:
  assumes "buf_ok B" "HEADROOM \<le> md" "sends_succeed E" "output_open env"
    and "\<forall>p\<in>set pkts. p \<noteq> [] \<and> length p + HEADROOM \<le> MAX_PACKET_BUFFER_SIZE"
    and "us_wire st = []"
    and "udp_rx_drain B md env outp (map (gro_read src) (us_wire (snd (udp_tx_packets E dest pkts st)))) out = (r, out')"
  shows "r = None \<and> (\<exists>batches. delivered out' = delivered out @ map (\<lambda>b. (outp, src, b)) batches \<and>
    map (buf_bytes B) (concat batches) = pkts)"
proof -
  have "\<forall>p\<in>set pkts. p \<noteq> []" using assms(5) by blast
  from udp_tx_packets_spec [OF this, of E dest st] assms(3,6) obtain ts where
    ts: "us_wire (snd (udp_tx_packets E dest pkts st)) = ts" "pkts = concat (map segments ts)"
      "\<forall>i<length ts. transmit_ok E (us_sends st + i) dest (ts ! i)"
    by (elim exE conjE) simp
  have "\<forall>t\<in>set ts. 0 < tr_segment_size t \<and> tr_segment_size t \<le> length (tr_contents t)"
    using ts(3) transmit_ok_sizes by (metis in_set_conv_nth)
  note drain = udp_rx_drain_reads [OF assms(4) this, where B = B and md = md and outp = outp and src = src and out = out]
  have "map (buf_bytes B) (concat (map (\<lambda>t. map (alloc_packet_buf B md) (segments t)) ts)) =
      map (\<lambda>p. buf_bytes B (alloc_packet_buf B md p)) pkts"
    unfolding ts(2) by (simp add: map_concat comp_def)
  also have "\<dots> = pkts"
    using alloc_packet_buf_shape [OF assms(1) _ assms(2)] assms(5) by (intro map_idI) blast
  finally have "map (buf_bytes B) (concat (map (\<lambda>t. map (alloc_packet_buf B md) (segments t)) ts)) = pkts" .
  with assms(7) drain ts(1) show ?thesis
    by (intro conjI exI [of _ "map (\<lambda>t. map (alloc_packet_buf B md) (segments t)) ts"]) (auto simp: comp_def)
qed

text \<open>A destination that cannot be reached does not stop the shared send actor. While every failed send is of a
  non-fatal kind, the loop goes on over all its batches, those drained after a stop included, and ends without error.\<close>

theorem udp_tx_survives:
  assumes "failures_non_fatal E" "\<forall>dest pkts. TxBatch dest pkts \<in> set ins \<longrightarrow> (\<forall>p\<in>set pkts. p \<noteq> [])"
  shows "fst (udp_tx_loop E ins st) = TxExit ExitOk"
  using assms
proof (induction E ins st rule: udp_tx_loop.induct)
  case (3 E dest pkts ins st)
  obtain st' where "udp_tx_packets E dest pkts st = (TxNext, st')"
    using udp_tx_packets_survives [OF "3.prems"(1), of pkts dest st] "3.prems"(2)
    by (metis list.set_intros(1) prod.collapse)
  with 3 show ?case by auto
qed auto

definition sample_packets :: "packet list" where
  "sample_packets = [[1, 2], [3, 4], [5]]"

definition sample_tx_env :: udp_tx_env where
  "sample_tx_env = \<lparr>ue_enable_offload = True, ue_max_gso_segments = (\<lambda>_. 64), ue_attempts = (\<lambda>_. [Tried 0 (Ok ())])\<rparr>"

definition sample_dest :: socket_addr where "sample_dest = (V4 0x0a000002, 4433)"

lemma sample_sends_succeed: "sends_succeed sample_tx_env"
  by (simp add: sends_succeed_def sample_tx_env_def send_transmit_def)

lemma sample_wire:
  "us_wire (snd (udp_tx_packets sample_tx_env sample_dest sample_packets \<lparr>us_sends = 0, us_wire = []\<rparr>)) =
     [\<lparr>tr_destination = sample_dest, tr_contents = [1, 2, 3, 4], tr_segment_size = 2\<rparr>,
      \<lparr>tr_destination = sample_dest, tr_contents = [5], tr_segment_size = 1\<rparr>]"
  by (simp add: udp_tx_packets.simps sample_packets_def sample_tx_env_def segs_run_def max_payload_to_def
      sample_dest_def send_transmit_def Let_def numeral_2_eq_2 [symmetric])

theorem gso_sends_exactly_witness:
  "concat (map segments (us_wire (snd (udp_tx_packets sample_tx_env sample_dest sample_packets \<lparr>us_sends = 0, us_wire = []\<rparr>)))) = sample_packets \<and>
   length (us_wire (snd (udp_tx_packets sample_tx_env sample_dest sample_packets \<lparr>us_sends = 0, us_wire = []\<rparr>))) = 2"
proof -
  have "\<forall>p\<in>set sample_packets. p \<noteq> []" by (simp add: sample_packets_def)
  from gso_sends_exactly [OF this, of sample_tx_env sample_dest "\<lparr>us_sends = 0, us_wire = []\<rparr>"]
  show ?thesis using sample_sends_succeed sample_wire by auto
qed

theorem udp_link_roundtrip_witness:
  "\<exists>out' batches. udp_rx_drain buf_ref 1500 (\<lambda>_. \<lparr>try_answer = TrySent, send_answer = Some 0\<rparr>) 3
       (map (gro_read sample_dest) (us_wire (snd (udp_tx_packets sample_tx_env sample_dest sample_packets \<lparr>us_sends = 0, us_wire = []\<rparr>))))
       \<lparr>sends = 0, delivered = []\<rparr> = (None, out') \<and>
     map (buf_bytes buf_ref) (concat batches) = sample_packets \<and> delivered out' = map (\<lambda>b. (3, sample_dest, b)) batches"
proof -
  let ?env = "\<lambda>_ :: nat. \<lparr>try_answer = TrySent, send_answer = Some 0\<rparr>"
  let ?st = "\<lparr>us_sends = 0, us_wire = []\<rparr> :: udp_tx_state"
  have op: "output_open ?env" by (simp add: output_open_def)
  have small: "\<forall>p\<in>set sample_packets. p \<noteq> [] \<and> length p + HEADROOM \<le> MAX_PACKET_BUFFER_SIZE"
    by (simp add: sample_packets_def HEADROOM_def MAX_PACKET_BUFFER_SIZE_def)
  have hd: "HEADROOM \<le> 1500" "us_wire ?st = []" by (simp_all add: HEADROOM_def)
  obtain r out' where run: "udp_rx_drain buf_ref 1500 ?env 3 (map (gro_read sample_dest)
      (us_wire (snd (udp_tx_packets sample_tx_env sample_dest sample_packets ?st)))) \<lparr>sends = 0, delivered = []\<rparr> = (r, out')"
    by (meson surj_pair)
  from udp_link_roundtrip [OF buf_ref_ok hd(1) sample_sends_succeed op small hd(2) run] run show ?thesis by auto
qed

theorem udp_tx_survives_witness:
  "fst (udp_tx_loop (sample_tx_env\<lparr>ue_attempts := \<lambda>_. [Tried 0 (Err \<lparr>ie_kind = HostUnreachable, ie_raw = Some 113, ie_text = ''unreachable''\<rparr>)]\<rparr>)
     [TxBatch sample_dest sample_packets, TxStop, TxBatch sample_dest sample_packets] \<lparr>us_sends = 0, us_wire = []\<rparr>) = TxExit ExitOk"
  by (rule udp_tx_survives)
    (auto simp: failures_non_fatal_def send_transmit_def is_non_fatal_send_error_def sample_packets_def)

end
