(* ===== verification/Routing.thy ===== *)
theory Routing
  imports Config
begin

text \<open>
  The routing table of \<open>router.rs\<close> over the prefix trie of \<open>ipnet-trie\<close>: how \<open>make\<close> fills it from
  the peers and the local addresses, and what a lookup returns.
\<close>

section \<open>Routing table\<close>

definition LOCAL_PEER_ID :: string where "LOCAL_PEER_ID = ''__local__''"

record route_entry =
  re_peer_id :: string
  re_tx :: chan

record route_match =
  rm_prefix :: ipnet
  rm_peer_id :: string
  rm_tx :: chan

record 't routing_table =
  trie :: 't

datatype routing_error = ConflictingPrefix ipnet string string

type_synonym 't route_trie = "(route_entry, 't) trie_lib"

definition rt_new :: "'t route_trie \<Rightarrow> 't routing_table" where
  "rt_new T = \<lparr>trie = trie_new T\<rparr>"

definition rt_insert ::
  "'t route_trie \<Rightarrow> ipnet \<Rightarrow> route_entry \<Rightarrow> 't routing_table \<Rightarrow> (routing_error, 't routing_table) result" where
  "rt_insert T prefix entry table =
     (case exact_match T (trie table) prefix of
        Some existing \<Rightarrow>
          if re_peer_id existing = re_peer_id entry then Ok table
          else Err (ConflictingPrefix prefix (re_peer_id existing) (re_peer_id entry))
      | None \<Rightarrow> Ok (table\<lparr>trie := trie_insert T prefix entry (trie table)\<rparr>))"

definition rt_lookup :: "ipnet_lib \<Rightarrow> 't route_trie \<Rightarrow> 't routing_table \<Rightarrow> ip_addr \<Rightarrow> route_match option" where
  "rt_lookup L T table addr =
     (let net = from_addr L addr in
      map_option (\<lambda>(prefix, entry). \<lparr>rm_prefix = prefix, rm_peer_id = re_peer_id entry, rm_tx = re_tx entry\<rparr>)
        (longest_match T (trie table) net))"

definition rt_len :: "'t route_trie \<Rightarrow> 't routing_table \<Rightarrow> nat \<times> nat" where
  "rt_len T table = trie_len T (trie table)"

text \<open>The two loops of \<open>make\<close>: peers first, stopping at a conflict, then the local host routes.\<close>

fun insert_nets ::
  "'t route_trie \<Rightarrow> route_entry \<Rightarrow> ipnet list \<Rightarrow> 't routing_table \<Rightarrow> (routing_error, 't routing_table) result" where
  "insert_nets T entry [] table = Ok table"
| "insert_nets T entry (net # nets) table =
     (case rt_insert T net entry table of
        Err e \<Rightarrow> Err e
      | Ok table' \<Rightarrow> insert_nets T entry nets table')"

fun insert_peers ::
  "'t route_trie \<Rightarrow> (string \<rightharpoonup> chan) \<Rightarrow> peer list \<Rightarrow> 't routing_table \<Rightarrow>
     (routing_error, 't routing_table) result" where
  "insert_peers T peer_txs [] table = Ok table"
| "insert_peers T peer_txs (p # ps) table =
     (case peer_txs (peer_id p) of
        None \<Rightarrow> insert_peers T peer_txs ps table
      | Some tx \<Rightarrow>
          (case insert_nets T \<lparr>re_peer_id = peer_id p, re_tx = tx\<rparr> (allowed_ips (peer_tun p)) table of
             Err e \<Rightarrow> Err e
           | Ok table' \<Rightarrow> insert_peers T peer_txs ps table'))"

fun insert_locals ::
  "ipnet_lib \<Rightarrow> 't route_trie \<Rightarrow> chan \<Rightarrow> ipnet list \<Rightarrow> 't routing_table \<Rightarrow> 't routing_table" where
  "insert_locals L T input_tx [] table = table"
| "insert_locals L T input_tx (addr # addrs) table =
     (case rt_insert T (from_addr L (net_addr addr)) \<lparr>re_peer_id = LOCAL_PEER_ID, re_tx = input_tx\<rparr> table of
        Err e \<Rightarrow> insert_locals L T input_tx addrs table
      | Ok table' \<Rightarrow> insert_locals L T input_tx addrs table')"

definition rt_make ::
  "ipnet_lib \<Rightarrow> 't route_trie \<Rightarrow> peer list \<Rightarrow> (string \<rightharpoonup> chan) \<Rightarrow> local_tun \<Rightarrow> chan \<Rightarrow>
     (routing_error, 't routing_table) result" where
  "rt_make L T peers peer_txs local_tun input_tx =
     (case insert_peers T peer_txs peers (rt_new T) of
        Err e \<Rightarrow> Err e
      | Ok table \<Rightarrow> Ok (insert_locals L T input_tx (tun_addrs local_tun) table))"
section \<open>Building and searching the table\<close>

text \<open>The routes the peers ask for, in the order \<open>make\<close> inserts them, and their insertion.\<close>

definition routes_of_peer :: "(string \<rightharpoonup> chan) \<Rightarrow> peer \<Rightarrow> (ipnet \<times> route_entry) list" where
  "routes_of_peer peer_txs p =
     (case peer_txs (peer_id p) of
        None \<Rightarrow> []
      | Some tx \<Rightarrow> map (\<lambda>n. (n, \<lparr>re_peer_id = peer_id p, re_tx = tx\<rparr>)) (allowed_ips (peer_tun p)))"

definition peer_routes :: "(string \<rightharpoonup> chan) \<Rightarrow> peer list \<Rightarrow> (ipnet \<times> route_entry) list" where
  "peer_routes peer_txs peers = concat (map (routes_of_peer peer_txs) peers)"

fun insert_all ::
  "'t route_trie \<Rightarrow> (ipnet \<times> route_entry) list \<Rightarrow> 't routing_table \<Rightarrow> (routing_error, 't routing_table) result" where
  "insert_all T [] table = Ok table"
| "insert_all T ((n, e) # rs) table =
     (case rt_insert T n e table of Err err \<Rightarrow> Err err | Ok table' \<Rightarrow> insert_all T rs table')"

definition local_entry :: "chan \<Rightarrow> route_entry" where
  "local_entry input_tx = \<lparr>re_peer_id = LOCAL_PEER_ID, re_tx = input_tx\<rparr>"

text \<open>The specification of the finished table: peers first, then the local host routes.\<close>

definition table_spec ::
  "(string \<rightharpoonup> chan) \<Rightarrow> peer list \<Rightarrow> ipnet list \<Rightarrow> chan \<Rightarrow> ipnet \<Rightarrow> route_entry option" where
  "table_spec peer_txs peers addrs input_tx n =
     (case map_of (peer_routes peer_txs peers) n of
        Some e \<Rightarrow> Some e
      | None \<Rightarrow> if n \<in> set (map (host_net \<circ> net_addr) addrs) then Some (local_entry input_tx) else None)"

definition canonical_peers :: "peer list \<Rightarrow> bool" where
  "canonical_peers peers = (\<forall>p\<in>set peers. \<forall>n\<in>set (allowed_ips (peer_tun p)). canonical n)"

lemma insert_all_append:
  "insert_all T (rs @ qs) table =
     (case insert_all T rs table of Err e \<Rightarrow> Err e | Ok table' \<Rightarrow> insert_all T qs table')"
  by (induction T rs table rule: insert_all.induct) (auto split: sum.split)

lemma insert_nets_all: "insert_nets T e nets table = insert_all T (map (\<lambda>n. (n, e)) nets) table"
  by (induction T e nets table rule: insert_nets.induct) (auto split: sum.split)

lemma insert_peers_all: "insert_peers T txs peers table = insert_all T (peer_routes txs peers) table"
  by (induction T txs peers table rule: insert_peers.induct)
    (auto simp: peer_routes_def routes_of_peer_def insert_all_append insert_nets_all split: option.split sum.split)

lemma rt_insert_exact:
  assumes "trie_ok T" "canonical n" "canonical m" "rt_insert T n e table = Ok table'"
  shows "exact_match T (trie table') m =
    (if m = n \<and> exact_match T (trie table) n = None then Some e else exact_match T (trie table) m)"
  using assms(4) trie_ok_insert [OF assms(1-3)]
  by (auto simp: rt_insert_def split: option.splits if_splits)

text \<open>
  Inserting a list of canonical routes succeeds exactly when each of them belongs to the peer that
  first claimed its prefix, and then the table holds the first claim of every prefix.
\<close>

lemma insert_all_spec:
  fixes table :: "'t routing_table"
  assumes "trie_ok T" "\<forall>(n, e)\<in>set rs. canonical n"
  defines "M \<equiv> \<lambda>n. case exact_match T (trie table) n of Some e \<Rightarrow> Some e | None \<Rightarrow> map_of rs n"
  shows "(is_ok (insert_all T rs table) \<longleftrightarrow> (\<forall>(n, e)\<in>set rs. re_peer_id (the (M n)) = re_peer_id e))
    \<and> (\<forall>table' m. insert_all T rs table = Ok table' \<longrightarrow> canonical m \<longrightarrow> exact_match T (trie table') m = M m)"
  using assms(2) unfolding M_def
proof (induction rs arbitrary: table)
  case (Cons r rs)
  obtain n e where r: "r = (n, e)" by (cases r)
  with Cons.prems have can: "canonical n" "\<forall>(n, e)\<in>set rs. canonical n" by auto
  show ?case
  proof (cases "rt_insert T n e table")
    case (Inl err)
    then obtain e' where "exact_match T (trie table) n = Some e'" "re_peer_id e' \<noteq> re_peer_id e"
      by (auto simp: rt_insert_def split: option.splits if_splits)
    with Inl r show ?thesis by (auto simp: is_ok_def)
  next
    case (Inr table1)
    have ex: "exact_match T (trie table1) m =
        (if m = n \<and> exact_match T (trie table) n = None then Some e else exact_match T (trie table) m)"
      if "canonical m" for m
      using rt_insert_exact [OF assms(1) can(1) that Inr] .
    have M: "(case exact_match T (trie table1) m of Some e \<Rightarrow> Some e | None \<Rightarrow> map_of rs m) =
        (case exact_match T (trie table) m of Some e \<Rightarrow> Some e | None \<Rightarrow> map_of (r # rs) m)"
      if "canonical m" for m
      using ex [OF that] by (auto simp: r split: option.split)
    have own: "re_peer_id (the (case exact_match T (trie table) n of Some e \<Rightarrow> Some e | None \<Rightarrow> map_of (r # rs) n)) = re_peer_id e"
      using Inr by (auto simp: r rt_insert_def split: option.splits if_splits)
    show ?thesis
      using Cons.IH [OF can(2), of table1] M can own Inr by (fastforce simp: r)
  qed
qed (auto simp: is_ok_def split: option.split)

lemma insert_locals_spec:
  assumes "ipnet_ok L" "trie_ok T" "canonical m"
  shows "exact_match T (trie (insert_locals L T input_tx addrs table)) m =
    (case exact_match T (trie table) m of Some e \<Rightarrow> Some e
     | None \<Rightarrow> if m \<in> set (map (host_net \<circ> net_addr) addrs) then Some (local_entry input_tx) else None)"
proof (induction addrs arbitrary: table)
  case (Cons a addrs)
  let ?h = "host_net (net_addr a)"
  show ?case
  proof (cases "rt_insert T ?h (local_entry input_tx) table")
    case (Inl err)
    then obtain e' where "exact_match T (trie table) ?h = Some e'"
      by (auto simp: rt_insert_def split: option.splits if_splits)
    with Inl Cons show ?thesis
      using ipnet_ok_from_addr [OF assms(1)] by (auto simp: local_entry_def split: option.split)
  next
    case (Inr table1)
    with rt_insert_exact [OF assms(2) canonical_host_net assms(3) Inr] Cons show ?thesis
      using ipnet_ok_from_addr [OF assms(1)] by (auto simp: local_entry_def split: option.split)
  qed
qed (simp split: option.split)

lemma canonical_routes:
  "canonical_peers peers \<Longrightarrow> \<forall>(n, e)\<in>set (peer_routes peer_txs peers). canonical n"
  by (auto simp: canonical_peers_def peer_routes_def routes_of_peer_def split: option.splits)

lemma rt_make_spec:
  assumes "ipnet_ok L" "trie_ok T" "canonical_peers peers"
    "rt_make L T peers peer_txs tun input_tx = Ok table" "canonical m"
  shows "exact_match T (trie table) m = table_spec peer_txs peers (tun_addrs tun) input_tx m"
proof -
  obtain t1 where t1: "insert_all T (peer_routes peer_txs peers) (rt_new T) = Ok t1"
    and table: "table = insert_locals L T input_tx (tun_addrs tun) t1"
    using assms(4) by (auto simp: rt_make_def insert_peers_all split: sum.splits)
  have "exact_match T (trie t1) m = map_of (peer_routes peer_txs peers) m"
    using insert_all_spec [OF assms(2) canonical_routes [OF assms(3)], of peer_txs "rt_new T"] t1 assms(2,5)
    by (simp add: rt_new_def trie_ok_new)
  then show ?thesis
    unfolding table table_spec_def insert_locals_spec [OF assms(1,2,5)] by simp
qed
definition sample_table :: "(ipnet \<times> route_entry) list routing_table" where
  "sample_table = \<lparr>trie = [(NetV4 0x0A000000 8, \<lparr>re_peer_id = ''a'', re_tx = 7\<rparr>),
     (NetV4 0x0A000001 32, \<lparr>re_peer_id = LOCAL_PEER_ID, re_tx = 1\<rparr>)]\<rparr>"

lemma sample_lookup:
  "rt_lookup ipnet_ref trie_ref sample_table (V4 0x0A000002) =
     Some \<lparr>rm_prefix = NetV4 0x0A000000 8, rm_peer_id = ''a'', rm_tx = 7\<rparr>"
  by (simp add: rt_lookup_def ipnet_ref_def trie_ref_def sample_table_def canonical_def net_wf_def
      covers_def host_bits_def)

lemma routes_of_peer_mem:
  "(n, e) \<in> set (routes_of_peer peer_txs p) \<longleftrightarrow> n \<in> set (allowed_ips (peer_tun p)) \<and>
     peer_txs (peer_id p) = Some (re_tx e) \<and> re_peer_id e = peer_id p"
  by (cases e; cases "peer_txs (peer_id p)") (auto simp: routes_of_peer_def)

lemma peer_routes_mem:
  "(n, e) \<in> set (peer_routes peer_txs peers) \<longleftrightarrow> (\<exists>p\<in>set peers. n \<in> set (allowed_ips (peer_tun p)) \<and>
     peer_txs (peer_id p) = Some (re_tx e) \<and> re_peer_id e = peer_id p)"
  by (auto simp: peer_routes_def routes_of_peer_mem)

text \<open>Agreement with the first entry of a key is agreement of all entries of the key.\<close>

lemma first_entry_agrees_iff:
  "(\<forall>(n, e)\<in>set rs. f (the (map_of rs n)) = f e) \<longleftrightarrow>
   (\<forall>n e e'. (n, e) \<in> set rs \<longrightarrow> (n, e') \<in> set rs \<longrightarrow> f e = f e')" (is "?l \<longleftrightarrow> ?r")
proof
  assume l: ?l
  show ?r
  proof (intro allI impI)
    fix n e e' assume "(n, e) \<in> set rs" "(n, e') \<in> set rs"
    with l have "f (the (map_of rs n)) = f e" "f (the (map_of rs n)) = f e'" by auto
    then show "f e = f e'" by simp
  qed
next
  assume r: ?r
  have "f (the (map_of rs n)) = f e" if ne: "(n, e) \<in> set rs" for n e
  proof -
    obtain e' where e': "map_of rs n = Some e'" using weak_map_of_SomeI [OF ne] by blast
    with r ne have "f e' = f e" by (blast dest: map_of_SomeD)
    with e' show ?thesis by simp
  qed
  then show ?l by auto
qed

lemma peer_routes_agree_iff:
  "(\<forall>n e e'. (n, e) \<in> set (peer_routes peer_txs peers) \<longrightarrow> (n, e') \<in> set (peer_routes peer_txs peers) \<longrightarrow>
      re_peer_id e = re_peer_id e') \<longleftrightarrow>
   (\<forall>p\<in>set peers. \<forall>q\<in>set peers. \<forall>n.
      n \<in> set (allowed_ips (peer_tun p)) \<longrightarrow> n \<in> set (allowed_ips (peer_tun q)) \<longrightarrow>
      peer_txs (peer_id p) \<noteq> None \<longrightarrow> peer_txs (peer_id q) \<noteq> None \<longrightarrow> peer_id p = peer_id q)" (is "?r \<longleftrightarrow> ?s")
proof
  assume r: ?r
  show ?s
  proof (intro ballI allI impI)
    fix p q n assume p: "p \<in> set peers" "n \<in> set (allowed_ips (peer_tun p))" "peer_txs (peer_id p) \<noteq> None"
      and q: "q \<in> set peers" "n \<in> set (allowed_ips (peer_tun q))" "peer_txs (peer_id q) \<noteq> None"
    let ?e = "\<lambda>p. \<lparr>re_peer_id = peer_id p, re_tx = the (peer_txs (peer_id p))\<rparr>"
    have "(n, ?e p) \<in> set (peer_routes peer_txs peers)"
      unfolding peer_routes_mem using p by (intro bexI [of _ p]) auto
    moreover have "(n, ?e q) \<in> set (peer_routes peer_txs peers)"
      unfolding peer_routes_mem using q by (intro bexI [of _ q]) auto
    ultimately have "re_peer_id (?e p) = re_peer_id (?e q)" using r by blast
    then show "peer_id p = peer_id q" by simp
  qed
next
  assume s: ?s
  show ?r
  proof (intro allI impI)
    fix n e e' assume "(n, e) \<in> set (peer_routes peer_txs peers)" "(n, e') \<in> set (peer_routes peer_txs peers)"
    then obtain p q where "p \<in> set peers" "n \<in> set (allowed_ips (peer_tun p))" "peer_txs (peer_id p) \<noteq> None"
      "q \<in> set peers" "n \<in> set (allowed_ips (peer_tun q))" "peer_txs (peer_id q) \<noteq> None"
      and ids: "re_peer_id e = peer_id p" "re_peer_id e' = peer_id q"
      unfolding peer_routes_mem by blast
    with s have "peer_id p = peer_id q" by blast
    with ids show "re_peer_id e = re_peer_id e'" by simp
  qed
qed

section \<open>Properties\<close>

text \<open>C20: For allowed prefixes without host bits, \<open>RoutingTable::make\<close> succeeds exactly when no prefix is
  claimed by two different peers that have a channel. The answer does not depend on the order of the peers, on peers without a channel,
  or on the local addresses.\<close>

theorem make_succeeds_iff_no_conflict:
  assumes "trie_ok T" "canonical_peers peers"
  shows "is_ok (rt_make L T peers peer_txs tun input_tx) \<longleftrightarrow>
    (\<forall>p\<in>set peers. \<forall>q\<in>set peers. \<forall>n.
       n \<in> set (allowed_ips (peer_tun p)) \<longrightarrow> n \<in> set (allowed_ips (peer_tun q)) \<longrightarrow>
       peer_txs (peer_id p) \<noteq> None \<longrightarrow> peer_txs (peer_id q) \<noteq> None \<longrightarrow> peer_id p = peer_id q)"
proof -
  let ?rs = "peer_routes peer_txs peers"
  have "is_ok (rt_make L T peers peer_txs tun input_tx) \<longleftrightarrow> is_ok (insert_all T ?rs (rt_new T))"
    by (simp add: rt_make_def insert_peers_all is_ok_def split: sum.split)
  also have "\<dots> \<longleftrightarrow> (\<forall>(n, e)\<in>set ?rs. re_peer_id (the (map_of ?rs n)) = re_peer_id e)"
    using insert_all_spec [OF assms(1) canonical_routes [OF assms(2)], of peer_txs "rt_new T"] assms(1)
    by (simp add: rt_new_def trie_ok_new)
  finally show ?thesis unfolding first_entry_agrees_iff peer_routes_agree_iff .
qed

definition sample_peer :: "string \<Rightarrow> ipnet list \<Rightarrow> peer" where
  "sample_peer i nets = \<lparr>peer_id = i, peer_transport = Bare \<lparr>pbare_endpoint = \<lparr>udp_host = ''h'', udp_port = 1\<rparr>,
     pbare_bindif = None\<rparr>, peer_tun = \<lparr>allowed_ips = nets\<rparr>\<rparr>"

definition sample_tun :: local_tun where
  "sample_tun = \<lparr>tun_ifname = ''h3llo0'', tun_addrs = [NetV4 0x0A000001 24], tun_mtu = 1291\<rparr>"

theorem make_succeeds_iff_no_conflict_witness:
  "\<not> is_ok (rt_make ipnet_ref trie_ref [sample_peer ''a'' [NetV4 0x0A000000 8], sample_peer ''b'' [NetV4 0x0A000000 8]]
     (\<lambda>i. Some 7) sample_tun 1)"
proof -
  have "canonical_peers [sample_peer ''a'' [NetV4 0x0A000000 8], sample_peer ''b'' [NetV4 0x0A000000 8]]"
    by (simp add: canonical_peers_def sample_peer_def canonical_def net_wf_def host_bits_def)
  from make_succeeds_iff_no_conflict [OF trie_ref_ok this, of ipnet_ref "\<lambda>i. Some 7" sample_tun 1]
  show ?thesis by (simp add: sample_peer_def)
qed

text \<open>C4: For allowed prefixes without host bits, a lookup in the table that \<open>make\<close> built returns a route exactly when that route is the longest
  prefix covering the address among the prefixes of the peers that have a channel and the host routes
  of the local TUN addresses, where a prefix claimed by a peer takes precedence over a local host
  route.\<close>

theorem lookup_is_longest_prefix_match:
  assumes "ipnet_ok L" "trie_ok T" "canonical_peers peers"
    "rt_make L T peers peer_txs tun input_tx = Ok table"
  defines "spec \<equiv> table_spec peer_txs peers (tun_addrs tun) input_tx"
  shows "rt_lookup L T table a = Some m \<longleftrightarrow>
    (\<exists>e. spec (rm_prefix m) = Some e \<and> rm_peer_id m = re_peer_id e \<and> rm_tx m = re_tx e \<and>
       canonical (rm_prefix m) \<and> covers (rm_prefix m) a \<and>
       (\<forall>q. canonical q \<longrightarrow> spec q \<noteq> None \<longrightarrow> covers q a \<longrightarrow>
          net_prefix_len q \<le> net_prefix_len (rm_prefix m)))"
proof -
  note spec = rt_make_spec [OF assms(1-4), folded spec_def]
  have "rt_lookup L T table a = Some m \<longleftrightarrow>
      (\<exists>e. longest_match T (trie table) (host_net a) = Some (rm_prefix m, e) \<and>
         rm_peer_id m = re_peer_id e \<and> rm_tx m = re_tx e)"
    by (cases m) (auto simp: rt_lookup_def ipnet_ok_from_addr [OF assms(1)])
  then show ?thesis
    unfolding trie_ok_longest [OF assms(2)] using spec by (auto 0 3)
qed

definition sample_made :: "(ipnet \<times> route_entry) list routing_table" where
  "sample_made = \<lparr>trie = [(NetV4 0x0A000001 32, local_entry 1), (NetV4 0x0A000000 8, \<lparr>re_peer_id = ''a'', re_tx = 7\<rparr>)]\<rparr>"

lemma sample_make:
  "rt_make ipnet_ref trie_ref [sample_peer ''a'' [NetV4 0x0A000000 8]] (\<lambda>i. Some 7) sample_tun 1 = Ok sample_made"
  by (simp add: rt_make_def rt_new_def rt_insert_def sample_peer_def sample_tun_def sample_made_def trie_ref_def
      ipnet_ref_def local_entry_def host_net_def)

lemma sample_canonical: "canonical_peers [sample_peer ''a'' [NetV4 0x0A000000 8]]"
  by (simp add: canonical_peers_def sample_peer_def canonical_def net_wf_def host_bits_def)

theorem lookup_is_longest_prefix_match_witness:
  "rt_lookup ipnet_ref trie_ref sample_made (V4 0x0A000002) =
     Some \<lparr>rm_prefix = NetV4 0x0A000000 8, rm_peer_id = ''a'', rm_tx = 7\<rparr> \<and>
   table_spec (\<lambda>i. Some 7) [sample_peer ''a'' [NetV4 0x0A000000 8]] [NetV4 0x0A000001 24] 1 (NetV4 0x0A000000 8) \<noteq> None"
proof -
  have "rt_lookup ipnet_ref trie_ref sample_made (V4 0x0A000002) =
      Some \<lparr>rm_prefix = NetV4 0x0A000000 8, rm_peer_id = ''a'', rm_tx = 7\<rparr>"
    by (simp add: rt_lookup_def ipnet_ref_def trie_ref_def sample_made_def canonical_def net_wf_def covers_def
        host_bits_def)
  with lookup_is_longest_prefix_match [OF ipnet_ref_ok trie_ref_ok sample_canonical sample_make,
      of "V4 0x0A000002" "\<lparr>rm_prefix = NetV4 0x0A000000 8, rm_peer_id = ''a'', rm_tx = 7\<rparr>"]
  show ?thesis by (auto simp: sample_tun_def)
qed

lemma covers_prefix_len: "canonical q \<Longrightarrow> covers q a \<Longrightarrow> net_prefix_len q \<le> ip_width a"
  by (metis canonical_def covers_def ip_width_cong net_wf_def)

lemma rt_lookup_host:
  assumes "ipnet_ok L" "trie_ok T" "exact_match T (trie table) (host_net a) = Some e"
  shows "rt_lookup L T table a = Some \<lparr>rm_prefix = host_net a, rm_peer_id = re_peer_id e, rm_tx = re_tx e\<rparr>"
proof -
  have "longest_match T (trie table) (host_net a) = Some (host_net a, e)"
    unfolding trie_ok_longest [OF assms(2)] using assms(3) covers_prefix_len by auto
  then show ?thesis by (simp add: rt_lookup_def ipnet_ok_from_addr [OF assms(1)])
qed

text \<open>Traffic to an address of this node's TUN interface is delivered locally: whatever prefixes the
  peers announce, unless a peer claims that very host prefix, the lookup of a local address returns the
  local route and the channel of the TUN side.\<close>

theorem local_address_routed_to_tun:
  assumes "ipnet_ok L" "trie_ok T" "canonical_peers peers"
    "rt_make L T peers peer_txs tun input_tx = Ok table"
    "addr \<in> set (tun_addrs tun)"
    "\<forall>p\<in>set peers. host_net (net_addr addr) \<notin> set (allowed_ips (peer_tun p))"
  shows "rt_lookup L T table (net_addr addr) =
    Some \<lparr>rm_prefix = host_net (net_addr addr), rm_peer_id = LOCAL_PEER_ID, rm_tx = input_tx\<rparr>"
proof -
  have "map_of (peer_routes peer_txs peers) (host_net (net_addr addr)) = None"
    using assms(6) by (auto simp: map_of_eq_None_iff peer_routes_mem)
  then have "exact_match T (trie table) (host_net (net_addr addr)) = Some (local_entry input_tx)"
    using assms(5) by (simp add: rt_make_spec [OF assms(1-4)] table_spec_def)
  from rt_lookup_host [OF assms(1,2) this] show ?thesis by (simp add: local_entry_def)
qed

theorem local_address_routed_to_tun_witness:
  "rt_lookup ipnet_ref trie_ref sample_made (V4 0x0A000001) =
     Some \<lparr>rm_prefix = NetV4 0x0A000001 32, rm_peer_id = LOCAL_PEER_ID, rm_tx = 1\<rparr>"
  using local_address_routed_to_tun [OF ipnet_ref_ok trie_ref_ok sample_canonical sample_make,
      of "NetV4 0x0A000001 24"]
  by (simp add: sample_tun_def sample_peer_def host_net_def)

end
