(* ===== verification/Metrics.thy ===== *)
theory Metrics
  imports Helpers Text
begin

text \<open>
  The metrics of \<open>metrics.rs\<close>: the counter structures with their saturating updates, the
  operations every packet path uses to account for its packets, and the OpenMetrics families a
  snapshot is encoded to. The encoder of \<open>prometheus_client\<close> and the QUIC registry of
  \<open>foundations\<close> are parameters.
\<close>

section \<open>Data model\<close>

datatype source = Tun | BareUdp | Http3 | Router

datatype direction = Rx | Tx

datatype drop_reason = Oversize | DisallowedSource | SendError | QuicError | ChannelClosed
  | InvalidIpVersion | InvalidFraming | NoRoute | NoPeerChannel | NoHeadroom | QueueFull | TtlExpired

text \<open>\<open>DropReason\<close> derives \<open>Enum\<close>: its values can be enumerated in the order of declaration.\<close>

instantiation drop_reason :: enum
begin

definition enum_drop_reason :: "drop_reason list" where
  "enum_drop_reason = [Oversize, DisallowedSource, SendError, QuicError, ChannelClosed,
     InvalidIpVersion, InvalidFraming, NoRoute, NoPeerChannel, NoHeadroom, QueueFull, TtlExpired]"

definition enum_all_drop_reason :: "(drop_reason \<Rightarrow> bool) \<Rightarrow> bool" where
  "enum_all_drop_reason P = list_all P enum_class.enum"

definition enum_ex_drop_reason :: "(drop_reason \<Rightarrow> bool) \<Rightarrow> bool" where
  "enum_ex_drop_reason P = list_ex P enum_class.enum"

instance
proof
  have mem: "r \<in> set (enum_class.enum :: drop_reason list)" for r
    by (cases r) (simp_all add: enum_drop_reason_def)
  then show "UNIV = set (enum_class.enum :: drop_reason list)" by auto
  show "distinct (enum_class.enum :: drop_reason list)" by (simp add: enum_drop_reason_def)
  show "enum_class.enum_all P \<longleftrightarrow> Ball UNIV P" for P :: "drop_reason \<Rightarrow> bool"
    using mem by (auto simp: enum_all_drop_reason_def list_all_iff)
  show "enum_class.enum_ex P \<longleftrightarrow> Bex UNIV P" for P :: "drop_reason \<Rightarrow> bool"
    using mem by (auto simp: enum_ex_drop_reason_def list_ex_iff)
qed

end

record congestion_stats =
  queue_full_count :: nat
  queue_full_duration :: duration
  would_block_count :: nat
  would_block_duration :: duration

record pkt_counters =
  batches :: nat
  packets :: nat
  bytes :: nat

record stats =
  succeeded :: pkt_counters
  dropped :: pkt_counters
  drop_reasons :: "drop_reason \<Rightarrow> pkt_counters"
  congestion :: congestion_stats

record labels =
  l_source :: source
  l_direction :: direction
  l_peer_id :: "string option"
  l_remote_addr :: "socket_addr option"

record metrics =
  m_labels :: labels
  m_stats :: stats

record counters =
  c_source :: source
  c_direction :: direction
  c_stats :: stats

section \<open>Counter updates\<close>

definition congestion_record_queue_full :: "duration \<Rightarrow> congestion_stats \<Rightarrow> congestion_stats" where
  "congestion_record_queue_full wait s =
     s\<lparr>queue_full_count := sat_add (queue_full_count s) 1,
       queue_full_duration := dur_sat_add (queue_full_duration s) wait\<rparr>"

definition congestion_record_would_block :: "duration \<Rightarrow> congestion_stats \<Rightarrow> congestion_stats" where
  "congestion_record_would_block wait s =
     s\<lparr>would_block_count := sat_add (would_block_count s) 1,
       would_block_duration := dur_sat_add (would_block_duration s) wait\<rparr>"

definition pkt_record :: "nat \<Rightarrow> nat \<Rightarrow> pkt_counters \<Rightarrow> pkt_counters" where
  "pkt_record count total_bytes c =
     c\<lparr>batches := sat_add (batches c) 1,
       packets := sat_add (packets c) count,
       bytes := sat_add (bytes c) total_bytes\<rparr>"

definition zero_pkt :: pkt_counters where
  "zero_pkt = \<lparr>batches = 0, packets = 0, bytes = 0\<rparr>"

definition stats_default :: stats where
  "stats_default = \<lparr>succeeded = zero_pkt, dropped = zero_pkt, drop_reasons = (\<lambda>_. zero_pkt),
     congestion = \<lparr>queue_full_count = 0, queue_full_duration = 0,
       would_block_count = 0, would_block_duration = 0\<rparr>\<rparr>"

definition counters_new :: "source \<Rightarrow> direction \<Rightarrow> counters" where
  "counters_new src dir = \<lparr>c_source = src, c_direction = dir, c_stats = stats_default\<rparr>"

definition record_success :: "nat \<Rightarrow> nat \<Rightarrow> counters \<Rightarrow> counters" where
  "record_success count total_bytes c =
     (let s = c_stats c in c\<lparr>c_stats := s\<lparr>succeeded := pkt_record count total_bytes (succeeded s)\<rparr>\<rparr>)"

definition record_drop :: "drop_reason \<Rightarrow> nat \<Rightarrow> nat \<Rightarrow> counters \<Rightarrow> counters" where
  "record_drop reason count total_bytes c =
     (let s = c_stats c in
      c\<lparr>c_stats := s\<lparr>dropped := pkt_record count total_bytes (dropped s),
        drop_reasons := (drop_reasons s)
          (reason := pkt_record count total_bytes (drop_reasons s reason))\<rparr>\<rparr>)"

definition record_queue_full :: "duration \<Rightarrow> counters \<Rightarrow> counters" where
  "record_queue_full dur c =
     (let s = c_stats c in c\<lparr>c_stats := s\<lparr>congestion := congestion_record_queue_full dur (congestion s)\<rparr>\<rparr>)"

definition record_would_block :: "duration \<Rightarrow> counters \<Rightarrow> counters" where
  "record_would_block dur c =
     (let s = c_stats c in c\<lparr>c_stats := s\<lparr>congestion := congestion_record_would_block dur (congestion s)\<rparr>\<rparr>)"

text \<open>The closure passed to \<open>send_with_backpressure\<close>: only \<open>Waited\<close> touches the counters.\<close>

fun on_send_event :: "send_event \<Rightarrow> counters \<Rightarrow> counters" where
  "on_send_event (Waited waited) c = record_queue_full waited c"
| "on_send_event Fast c = c"
| "on_send_event Full c = c"

definition send_and_record ::
  "(nat \<Rightarrow> send_env) \<Rightarrow> chan \<Rightarrow> 'v \<Rightarrow> nat \<Rightarrow> nat \<Rightarrow> counters \<times> 'v outbox \<Rightarrow> bool \<times> counters \<times> 'v outbox" where
  "send_and_record env tx value count nbytes st =
     (let (c, out) = st;
          (ok, evs, out') = send_with_backpressure env tx value out;
          c' = fold on_send_event evs c
      in if \<not> ok then (False, record_drop ChannelClosed count nbytes c', out')
         else (True, record_success count nbytes c', out'))"

definition snapshot :: "string option \<Rightarrow> socket_addr option \<Rightarrow> counters \<Rightarrow> metrics" where
  "snapshot peer remote c =
     \<lparr>m_labels = \<lparr>l_source = c_source c, l_direction = c_direction c,
        l_peer_id = peer, l_remote_addr = remote\<rparr>,
      m_stats = c_stats c\<rparr>"

section \<open>Snapshot encoding\<close>

text \<open>
  A family is its name, its help text and its samples. The extra label of a sample is the outcome,
  the reason or the event. A wait time is exported in milliseconds as a floating-point number; the
  sample keeps the duration that is converted.
\<close>

datatype sample_value = Count nat | Millis duration

datatype extra_label = Outcome string | Reason drop_reason | EventLabel string

record label_set =
  ls_source :: source
  ls_direction :: direction
  ls_peer_id :: string
  ls_remote_addr :: string
  ls_extra :: extra_label

definition unwrap_or_default :: "string option \<Rightarrow> string" where
  "unwrap_or_default s = (case s of None \<Rightarrow> [] | Some v \<Rightarrow> v)"

text \<open>\<open>show_addr\<close> is the \<open>Display\<close> implementation of \<open>SocketAddr\<close>.\<close>

definition from_metrics :: "(socket_addr \<Rightarrow> string) \<Rightarrow> metrics \<Rightarrow> extra_label \<Rightarrow> label_set" where
  "from_metrics show_addr m extra =
     \<lparr>ls_source = l_source (m_labels m), ls_direction = l_direction (m_labels m),
      ls_peer_id = unwrap_or_default (l_peer_id (m_labels m)),
      ls_remote_addr = unwrap_or_default (map_option show_addr (l_remote_addr (m_labels m))),
      ls_extra = extra\<rparr>"

fun source_label :: "source \<Rightarrow> string" where
  "source_label Tun = ''tun''"
| "source_label BareUdp = ''bare_udp''"
| "source_label Http3 = ''http3''"
| "source_label Router = ''router''"

fun direction_label :: "direction \<Rightarrow> string" where
  "direction_label Rx = ''rx''"
| "direction_label Tx = ''tx''"

fun drop_reason_label :: "drop_reason \<Rightarrow> string" where
  "drop_reason_label Oversize = ''oversize''"
| "drop_reason_label DisallowedSource = ''disallowed_source''"
| "drop_reason_label SendError = ''send_error''"
| "drop_reason_label QuicError = ''quic_error''"
| "drop_reason_label ChannelClosed = ''channel_closed''"
| "drop_reason_label InvalidIpVersion = ''invalid_ip_version''"
| "drop_reason_label InvalidFraming = ''invalid_framing''"
| "drop_reason_label NoRoute = ''no_route''"
| "drop_reason_label NoPeerChannel = ''no_peer_channel''"
| "drop_reason_label NoHeadroom = ''no_headroom''"
| "drop_reason_label QueueFull = ''queue_full''"
| "drop_reason_label TtlExpired = ''ttl_expired''"

type_synonym family = "string \<times> string \<times> (label_set \<times> sample_value) list"

definition encode_family ::
  "metrics list \<Rightarrow> string \<Rightarrow> string \<Rightarrow> (metrics \<Rightarrow> (label_set \<times> sample_value) list) \<Rightarrow> family" where
  "encode_family snap name help entry_fn = (name, help, concat (map entry_fn snap))"

definition outcome_entries ::
  "(socket_addr \<Rightarrow> string) \<Rightarrow> (stats \<Rightarrow> nat \<times> nat) \<Rightarrow> metrics \<Rightarrow> (label_set \<times> sample_value) list" where
  "outcome_entries show_addr extractor m =
     (let (ok, drp) = extractor (m_stats m) in
      [(from_metrics show_addr m (Outcome ''succeeded''), Count ok),
       (from_metrics show_addr m (Outcome ''dropped''), Count drp)])"

definition reason_entries ::
  "(socket_addr \<Rightarrow> string) \<Rightarrow> (pkt_counters \<Rightarrow> nat) \<Rightarrow> metrics \<Rightarrow> (label_set \<times> sample_value) list" where
  "reason_entries show_addr field m =
     List.map_filter (\<lambda>reason. let v = field (drop_reasons (m_stats m) reason) in
       if v > 0 then Some (from_metrics show_addr m (Reason reason), Count v) else None) enum_class.enum"

definition congestion_entries ::
  "(socket_addr \<Rightarrow> string) \<Rightarrow> (congestion_stats \<Rightarrow> sample_value \<times> sample_value) \<Rightarrow> metrics \<Rightarrow>
     (label_set \<times> sample_value) list" where
  "congestion_entries show_addr field m =
     (let (q, w) = field (congestion (m_stats m)) in
      [(from_metrics show_addr m (EventLabel ''queue_full''), q),
       (from_metrics show_addr m (EventLabel ''would_block''), w)])"

text \<open>\<open>snap\<close> lists the values of the snapshot in the iteration order of the map.\<close>

definition collect_families :: "(socket_addr \<Rightarrow> string) \<Rightarrow> metrics list \<Rightarrow> family list" where
  "collect_families show_addr snap =
     [encode_family snap ''h3llo_transport_packets'' ''Cumulative packet count.''
        (outcome_entries show_addr (\<lambda>s. (packets (succeeded s), packets (dropped s)))),
      encode_family snap ''h3llo_transport_bytes'' ''Cumulative byte count.''
        (outcome_entries show_addr (\<lambda>s. (bytes (succeeded s), bytes (dropped s)))),
      encode_family snap ''h3llo_transport_batches''
        ''Cumulative batch count (record() invocations for GSO/GRO tracking).''
        (outcome_entries show_addr (\<lambda>s. (batches (succeeded s), batches (dropped s)))),
      encode_family snap ''h3llo_transport_drops'' ''Cumulative drop count by reason.''
        (reason_entries show_addr packets),
      encode_family snap ''h3llo_transport_drop_bytes'' ''Cumulative drop bytes by reason.''
        (reason_entries show_addr bytes),
      encode_family snap ''h3llo_transport_congestion'' ''Cumulative congestion event count.''
        (congestion_entries show_addr (\<lambda>g. (Count (queue_full_count g), Count (would_block_count g)))),
      encode_family snap ''h3llo_transport_congestion_wait_milliseconds''
        ''Cumulative congestion wait time in milliseconds.''
        (congestion_entries show_addr
           (\<lambda>g. (Millis (queue_full_duration g), Millis (would_block_duration g))))]"

definition OPENMETRICS_EOF :: string where
  "OPENMETRICS_EOF = ''# EOF'' @ [CHR 0x0A]"

text \<open>
  \<open>text_encode\<close> is \<open>prometheus_client::encoding::text::encode\<close> on the registry that holds the
  collector; \<open>quic_text\<close> is what \<open>collect_quic_metrics\<close> returned, empty on a collection error.
\<close>

definition encode_metrics_snapshot ::
  "(family list \<Rightarrow> string) \<Rightarrow> (socket_addr \<Rightarrow> string) \<Rightarrow> string \<Rightarrow> metrics list \<Rightarrow> string" where
  "encode_metrics_snapshot text_encode show_addr quic_text snap =
     (let txt = text_encode (collect_families show_addr snap) in
      if quic_text \<noteq> [] then
        (let txt = (if ends_with txt OPENMETRICS_EOF
                    then take (length txt - length OPENMETRICS_EOF) txt else txt);
             quic = (case strip_suffix quic_text OPENMETRICS_EOF of Some q \<Rightarrow> q | None \<Rightarrow> quic_text)
         in txt @ quic @ OPENMETRICS_EOF)
      else txt)"

definition collect_quic_metrics :: "(string, string) result \<Rightarrow> string" where
  "collect_quic_metrics collected = (case collected of Ok txt \<Rightarrow> txt | Err e \<Rightarrow> [])"

section \<open>Tallies\<close>

text \<open>
  What a packet path does to its counters is a sequence of tallies. The interface below is what the
  packet paths rely on: each of the three fields of \<open>PktCounters\<close> is a saturating measure of the
  calls, so that the totals after any sequence of tallies are the saturated sums.
\<close>

datatype tally = Succeeded nat nat | Dropped drop_reason nat nat | QueueWait duration | BlockWait duration

fun apply_tally :: "tally \<Rightarrow> counters \<Rightarrow> counters" where
  "apply_tally (Succeeded n b) c = record_success n b c"
| "apply_tally (Dropped r n b) c = record_drop r n b c"
| "apply_tally (QueueWait d) c = record_queue_full d c"
| "apply_tally (BlockWait d) c = record_would_block d c"

fun success_amount :: "(nat \<Rightarrow> nat \<Rightarrow> nat) \<Rightarrow> tally \<Rightarrow> nat" where
  "success_amount amount (Succeeded n b) = amount n b"
| "success_amount amount _ = 0"

fun drop_amount :: "(nat \<Rightarrow> nat \<Rightarrow> nat) \<Rightarrow> (drop_reason \<Rightarrow> bool) \<Rightarrow> tally \<Rightarrow> nat" where
  "drop_amount amount P (Dropped r n b) = (if P r then amount n b else 0)"
| "drop_amount amount P _ = 0"

definition reason_total :: "(pkt_counters \<Rightarrow> nat) \<Rightarrow> stats \<Rightarrow> nat" where
  "reason_total field s = sum_list (map (\<lambda>r. field (drop_reasons s r)) enum_class.enum)"

lemmas counter_defs = record_success_def record_drop_def record_queue_full_def
  record_would_block_def Let_def

lemma reason_total_sum: "reason_total field s = (\<Sum>r\<in>UNIV. field (drop_reasons s r))"
  unfolding reason_total_def
  by (subst sum_list_distinct_conv_sum_set) (simp_all add: enum_distinct enum_UNIV)

locale tally_measure =
  fixes amount :: "nat \<Rightarrow> nat \<Rightarrow> nat" and field :: "pkt_counters \<Rightarrow> nat"
  assumes field_record: "field (pkt_record n b c) = sat_add (field c) (amount n b)"
    and field_zero: "field zero_pkt = 0"
begin

lemma succeeded_apply:
  "field (succeeded (c_stats (apply_tally t c))) =
     (case t of Succeeded n b \<Rightarrow> sat_add (field (succeeded (c_stats c))) (amount n b)
      | _ \<Rightarrow> field (succeeded (c_stats c)))"
  by (cases t) (simp_all add: counter_defs field_record)

lemma dropped_apply:
  "field (dropped (c_stats (apply_tally t c))) =
     (case t of Dropped r n b \<Rightarrow> sat_add (field (dropped (c_stats c))) (amount n b)
      | _ \<Rightarrow> field (dropped (c_stats c)))"
  by (cases t) (simp_all add: counter_defs field_record)

lemma reason_apply:
  "field (drop_reasons (c_stats (apply_tally t c)) q) =
     (case t of Dropped r n b \<Rightarrow>
        if r = q then sat_add (field (drop_reasons (c_stats c) q)) (amount n b)
        else field (drop_reasons (c_stats c) q)
      | _ \<Rightarrow> field (drop_reasons (c_stats c) q))"
  by (cases t) (simp_all add: counter_defs field_record)

lemma succeeded_fold:
  "field (succeeded (c_stats c)) + sum_list (map (success_amount amount) ts) \<le> u64_max \<Longrightarrow>
   field (succeeded (c_stats (fold apply_tally ts c))) =
     field (succeeded (c_stats c)) + sum_list (map (success_amount amount) ts)"
proof (induction ts arbitrary: c)
  case (Cons t ts)
  then show ?case by (cases t) (simp_all add: succeeded_apply sat_add_exact del: apply_tally.simps)
qed simp

lemma dropped_fold:
  "field (dropped (c_stats c)) + sum_list (map (drop_amount amount (\<lambda>_. True)) ts) \<le> u64_max \<Longrightarrow>
   field (dropped (c_stats (fold apply_tally ts c))) =
     field (dropped (c_stats c)) + sum_list (map (drop_amount amount (\<lambda>_. True)) ts)"
proof (induction ts arbitrary: c)
  case (Cons t ts)
  then show ?case by (cases t) (simp_all add: dropped_apply sat_add_exact del: apply_tally.simps)
qed simp

lemma reason_fold:
  "field (drop_reasons (c_stats c) q) + sum_list (map (drop_amount amount ((=) q)) ts) \<le> u64_max \<Longrightarrow>
   field (drop_reasons (c_stats (fold apply_tally ts c)) q) =
     field (drop_reasons (c_stats c) q) + sum_list (map (drop_amount amount ((=) q)) ts)"
proof (induction ts arbitrary: c)
  case (Cons t ts)
  then show ?case
    by (cases t) (auto simp: reason_apply sat_add_exact simp del: apply_tally.simps)
qed simp

lemma balanced_apply:
  assumes "field (dropped (c_stats c)) = min u64_max (reason_total field (c_stats c))"
  shows "field (dropped (c_stats (apply_tally t c))) =
    min u64_max (reason_total field (c_stats (apply_tally t c)))"
proof (cases t)
  case (Dropped r n b)
  let ?g = "\<lambda>r. field (drop_reasons (c_stats c) r)"
  have "(\<Sum>q\<in>UNIV. field (drop_reasons (c_stats (apply_tally t c)) q)) =
      sat_add (?g r) (amount n b) + sum ?g (UNIV - {r})"
    unfolding Dropped by (subst sum.remove [of UNIV r])
      (auto simp: reason_apply simp del: apply_tally.simps intro!: sum.cong)
  moreover have "sum ?g UNIV = ?g r + sum ?g (UNIV - {r})"
    by (simp add: sum.remove)
  ultimately show ?thesis
    using assms Dropped unfolding reason_total_sum
    by (auto simp: dropped_apply sat_add_def simp del: apply_tally.simps)
qed (use assms in \<open>simp_all add: counter_defs reason_total_def\<close>)

end

interpretation pkts: tally_measure "\<lambda>n b. n" packets
  by unfold_locales (simp_all add: pkt_record_def zero_pkt_def)

interpretation byts: tally_measure "\<lambda>n b. b" bytes
  by unfold_locales (simp_all add: pkt_record_def zero_pkt_def)

interpretation bats: tally_measure "\<lambda>n b. 1" batches
  by unfold_locales (simp_all add: pkt_record_def zero_pkt_def)

section \<open>Counters as a transition system\<close>

inductive counters_step :: "counters \<Rightarrow> counters \<Rightarrow> bool" where
  tally: "counters_step c (apply_tally t c)"

definition counters_init :: "counters \<Rightarrow> bool" where
  "counters_init c = (c = counters_new (c_source c) (c_direction c))"

definition drops_balanced :: "counters \<Rightarrow> bool" where
  "drops_balanced c = (\<forall>field\<in>{packets, bytes, batches}.
     field (dropped (c_stats c)) = min u64_max (reason_total field (c_stats c)))"

lemma counters_new_stats [simp]: "c_stats (counters_new src dir) = stats_default"
  by (simp add: counters_new_def)

lemma drops_balanced_new: "drops_balanced (counters_new src dir)"
  by (simp add: drops_balanced_def stats_default_def reason_total_def zero_pkt_def enum_drop_reason_def)

lemma drops_balanced_apply: "drops_balanced c \<Longrightarrow> drops_balanced (apply_tally t c)"
  unfolding drops_balanced_def
  using pkts.balanced_apply [of c t] byts.balanced_apply [of c t] bats.balanced_apply [of c t] by simp

interpretation counter_inv: inductive_invariant counters_init counters_step drops_balanced
proof
  show "counters_init s \<Longrightarrow> drops_balanced s" for s
    unfolding counters_init_def by (metis drops_balanced_new)
  show "drops_balanced s \<Longrightarrow> counters_step s t \<Longrightarrow> drops_balanced t" for s t
    by (auto elim!: counters_step.cases intro: drops_balanced_apply)
qed

section \<open>Sends as tallies\<close>

definition wait_tallies :: "send_env \<Rightarrow> tally list" where
  "wait_tallies e = (case (try_answer e, send_answer e) of
     (TryFull, Some d) \<Rightarrow> [QueueWait d] | _ \<Rightarrow> [])"

definition send_tallies :: "send_env \<Rightarrow> nat \<Rightarrow> nat \<Rightarrow> tally list" where
  "send_tallies e n b =
     wait_tallies e @ (if accepts e then [Succeeded n b] else [Dropped ChannelClosed n b])"

definition sent :: "(nat \<Rightarrow> send_env) \<Rightarrow> chan \<Rightarrow> 'v \<Rightarrow> 'v outbox \<Rightarrow> 'v outbox" where
  "sent env tx v out =
     \<lparr>sends = Suc (sends out),
      delivered = delivered out @ (if accepts (env (sends out)) then [(tx, v)] else [])\<rparr>"

lemma send_events_fold:
  "fold on_send_event (fst (snd (send_with_backpressure env tx v out))) c =
     fold apply_tally (wait_tallies (env (sends out))) c"
  by (simp add: send_with_backpressure_def wait_tallies_def Let_def
      split: try_send_result.split option.split)

lemma send_with_backpressure_eq:
  "send_with_backpressure env tx v out =
     (accepts (env (sends out)), fst (snd (send_with_backpressure env tx v out)), sent env tx v out)"
  by (simp add: prod_eq_iff send_ok send_outbox sent_def)

lemma send_and_record_eq:
  "send_and_record env tx v n b (c, out) =
     (accepts (env (sends out)), fold apply_tally (send_tallies (env (sends out)) n b) c, sent env tx v out)"
  by (subst send_and_record_def, subst send_with_backpressure_eq)
    (simp add: send_events_fold send_tallies_def)

lemma wait_tallies_amounts [simp]:
  "sum_list (map (success_amount amount) (wait_tallies e)) = 0"
  "sum_list (map (drop_amount amount P) (wait_tallies e)) = 0"
  by (auto simp: wait_tallies_def split: try_send_result.split option.split)

lemma send_tallies_amounts [simp]:
  "sum_list (map (success_amount amount) (send_tallies e n b)) = (if accepts e then amount n b else 0)"
  "sum_list (map (drop_amount amount P) (send_tallies e n b)) =
     (if \<not> accepts e \<and> P ChannelClosed then amount n b else 0)"
  by (simp_all add: send_tallies_def)

end
