(* ===== verification/Events.thy ===== *)
theory Events
  imports Routing Metrics
begin

text \<open>
  The control-plane messages of \<open>events.rs\<close> and the exit notification of \<open>actor.rs\<close> they carry.
  A reply channel is a handle; a hash set is a set, a hash map a map, and the token map the list of
  its pairs in iteration order, which is what the authentication check walks.
\<close>

section \<open>Supervision\<close>

datatype supervision_policy = Critical | Restartable | Detached

datatype actor_runtime = MainRuntime | TunRuntime | CryptoRuntime | UdpRuntime

text \<open>A task ends with the actor's own result or with the failure to join it.\<close>

type_synonym actor_exit_result = "(string, unit) result"

record actor_exit =
  x_name :: string
  x_policy :: supervision_policy
  x_result :: "(string, actor_exit_result) result"

section \<open>Messages\<close>

datatype endpoint = UdpEp udp_endpoint | H3Ep h3_endpoint

record connected_event =
  ce_peer_id :: string
  ce_remote_addr :: socket_addr
  ce_tx :: chan
  ce_endpoint :: "endpoint option"

record dial_failed_event =
  df_peer_id :: string
  df_ip :: ip_addr

type_synonym dns_state = "string \<rightharpoonup> ip_addr set"

record dial_context =
  dc_peer_id :: string
  dc_dial_ip :: ip_addr
  dc_tun_if :: string
  dc_tun_mtu :: u16
  dc_tuning :: tuning

datatype 't event =
    Stop
  | ActorExited actor_exit
  | MetricsEvent metrics
  | Connected connected_event
  | DialFailed dial_failed_event
  | DnsSnapshot dns_state
  | GetConfig chan
  | PostConfig "peer list" chan
  | DeleteConfig "string list" chan
  | GetMetricsSnapshot chan
  | UpdateRouting "'t routing_table"
  | UpdateAcceptedSources "ip_addr set"
  | UpdatePeerTokens "(string \<times> string) list"
  | SetHostnames "string set"
  | SyncRoutes "ipnet list" "ipnet list"

end
