(* ===== verification/Actor.thy ===== *)
theory Actor
  imports Events
begin

text \<open>
  The actor bus of \<open>actor.rs\<close>: addresses, inboxes, bidirectional links, registration and the monitor
  that follows each registered task. An actor is identified by its address. A state keeps, next to the
  queues of the code, everything an inbox has received and the pairs that were linked; the steps of the
  monitors interleave with sends, links and the ends of tasks. Tokio's runtimes only decide when a
  step happens.
\<close>

section \<open>State\<close>

record 't actor =
  ac_name :: string
  ac_policy :: supervision_policy
  ac_owner :: chan
  ac_inbox :: "'t event list"
  ac_received :: "'t event list"
  ac_result :: "(string, actor_exit_result) result option"
  ac_registered :: bool
  ac_links_open :: bool
  ac_links :: "chan list"
  ac_notified :: bool

record 't bus =
  b_actors :: "chan \<rightharpoonup> 't actor"
  b_next :: chan
  b_linked :: "(chan \<times> chan) list"
  b_exits :: "chan list"

definition bus_new :: "'t bus" where
  "bus_new = \<lparr>b_actors = Map.empty, b_next = 0, b_linked = [], b_exits = []\<rparr>"

definition upd_actor :: "chan \<Rightarrow> ('t actor \<Rightarrow> 't actor) \<Rightarrow> 't bus \<Rightarrow> 't bus" where
  "upd_actor r f b = b\<lparr>b_actors := (b_actors b)(r := map_option f (b_actors b r))\<rparr>"

section \<open>Operations\<close>

text \<open>A send fails when the receiving task, which owns the inbox, has ended.\<close>

definition deliver_event :: "'t event \<Rightarrow> 't actor \<Rightarrow> 't actor" where
  "deliver_event ev a =
     (if ac_result a = None then a\<lparr>ac_inbox := ac_inbox a @ [ev], ac_received := ac_received a @ [ev]\<rparr> else a)"

definition actor_send :: "chan \<Rightarrow> 't event \<Rightarrow> 't bus \<Rightarrow> 't bus \<times> bool" where
  "actor_send r ev b =
     (upd_actor r (deliver_event ev) b, case b_actors b r of Some a \<Rightarrow> ac_result a = None | None \<Rightarrow> False)"

definition actor_notify_owner :: "chan \<Rightarrow> 't event \<Rightarrow> 't bus \<Rightarrow> 't bus \<times> bool" where
  "actor_notify_owner r ev b =
     (case b_actors b r of Some a \<Rightarrow> actor_send (ac_owner a) ev b | None \<Rightarrow> (b, False))"

definition links_open :: "chan \<Rightarrow> 't bus \<Rightarrow> bool" where
  "links_open r b = (case b_actors b r of Some a \<Rightarrow> ac_links_open a | None \<Rightarrow> False)"

definition push_link :: "chan \<Rightarrow> chan \<Rightarrow> 't bus \<Rightarrow> 't bus" where
  "push_link r other b =
     (if links_open r b then upd_actor r (\<lambda>a. a\<lparr>ac_links := ac_links a @ [other]\<rparr>) b
      else fst (actor_send other Stop b))"

text \<open>The two sends of \<open>link\<close>, between which other actors may act; \<open>b_linked\<close> records each.\<close>

definition link_half :: "chan \<Rightarrow> chan \<Rightarrow> 't bus \<Rightarrow> 't bus" where
  "link_half r other b = (push_link r other b)\<lparr>b_linked := b_linked b @ [(r, other)]\<rparr>"

definition actor_link :: "chan \<Rightarrow> chan \<Rightarrow> 't bus \<Rightarrow> 't bus" where
  "actor_link r other b = link_half other r (link_half r other b)"

text \<open>
  \<open>mailbox\<close> makes the root actor: it owns itself, is not registered, and its link receiver is dropped
  at once. \<open>spawn\<close> makes an actor with the owner of the spawning context.
\<close>

definition bus_mailbox :: "string \<Rightarrow> 't bus \<Rightarrow> 't bus \<times> chan" where
  "bus_mailbox nm b =
     (b\<lparr>b_next := Suc (b_next b), b_actors := (b_actors b)(b_next b \<mapsto>
        \<lparr>ac_name = nm, ac_policy = Critical, ac_owner = b_next b, ac_inbox = [], ac_received = [],
         ac_result = None, ac_registered = False, ac_links_open = False, ac_links = [], ac_notified = False\<rparr>)\<rparr>,
      b_next b)"

definition actor_spawn :: "chan \<Rightarrow> string \<Rightarrow> supervision_policy \<Rightarrow> 't bus \<Rightarrow> 't bus \<times> chan" where
  "actor_spawn ctx nm policy b =
     (b\<lparr>b_next := Suc (b_next b), b_actors := (b_actors b)(b_next b \<mapsto>
        \<lparr>ac_name = nm, ac_policy = policy, ac_owner = (case b_actors b ctx of Some a \<Rightarrow> ac_owner a | None \<Rightarrow> ctx),
         ac_inbox = [], ac_received = [], ac_result = None, ac_registered = False,
         ac_links_open = True, ac_links = [], ac_notified = False\<rparr>)\<rparr>,
      b_next b)"

text \<open>\<open>wait_for_stop\<close> on the unread part of an inbox: what is left after the stop, or still waiting.\<close>

fun wait_for_stop :: "'t event list \<Rightarrow> 't event list option" where
  "wait_for_stop [] = None"
| "wait_for_stop (Stop # evs) = Some evs"
| "wait_for_stop (ev # evs) = wait_for_stop evs"

text \<open>The stop is polled first, so it wins when the operation is ready too.\<close>

definition run_until_stopped :: "'t event list \<Rightarrow> 'o option \<Rightarrow> 'o option option" where
  "run_until_stopped inbox output =
     (if wait_for_stop inbox \<noteq> None then Some None else map_option Some output)"

section \<open>Monitors\<close>

text \<open>
  One step of the monitor of an actor whose task has ended: close the links, then stop the linked actors
  one by one, then notify the owner.
\<close>

definition exit_of :: "'t actor \<Rightarrow> actor_exit" where
  "exit_of a = \<lparr>x_name = ac_name a, x_policy = ac_policy a, x_result = the (ac_result a)\<rparr>"

definition monitor_step :: "chan \<Rightarrow> 't bus \<Rightarrow> 't bus option" where
  "monitor_step r b =
     (case b_actors b r of
        None \<Rightarrow> None
      | Some a \<Rightarrow>
          if \<not> ac_registered a \<or> ac_result a = None \<or> ac_notified a then None
          else if ac_links_open a then Some (upd_actor r (\<lambda>a. a\<lparr>ac_links_open := False\<rparr>) b)
          else (case ac_links a of
                  l # ls \<Rightarrow> Some (fst (actor_send l Stop (upd_actor r (\<lambda>a. a\<lparr>ac_links := ls\<rparr>) b)))
                | [] \<Rightarrow>
                    let b' = upd_actor r (\<lambda>a. a\<lparr>ac_notified := True\<rparr>) b
                    in Some ((fst (actor_send (ac_owner a) (ActorExited (exit_of a)) b'))
                         \<lparr>b_exits := b_exits b @ [r]\<rparr>)))"

inductive bus_step :: "'t bus \<Rightarrow> 't bus \<Rightarrow> bool" where
  mailbox: "bus_step b (fst (bus_mailbox nm b))"
| spawn: "b_actors b ctx \<noteq> None \<Longrightarrow> bus_step b (fst (actor_spawn ctx nm policy b))"
| send: "bus_step b (fst (actor_send r ev b))"
| recv: "bus_step b (upd_actor r (\<lambda>a. a\<lparr>ac_inbox := drop 1 (ac_inbox a)\<rparr>) b)"
| link: "b_actors b r \<noteq> None \<Longrightarrow> b_actors b other \<noteq> None \<Longrightarrow> bus_step b (link_half r other b)"
| register: "b_actors b r = Some a \<Longrightarrow> ac_owner a \<noteq> r \<Longrightarrow>
    bus_step b (upd_actor r (\<lambda>a. a\<lparr>ac_registered := True\<rparr>) b)"
| task_end: "b_actors b r = Some a \<Longrightarrow> ac_result a = None \<Longrightarrow>
    bus_step b (upd_actor r (\<lambda>a. a\<lparr>ac_result := Some result\<rparr>) b)"
| monitor: "monitor_step r b = Some b' \<Longrightarrow> bus_step b b'"

inductive_cases bus_stepE: "bus_step b b'"

section \<open>What a step can change\<close>

lemma upd_actor_simps [simp]:
  "b_actors (upd_actor r f b) x = (if x = r then map_option f (b_actors b r) else b_actors b x)"
  "b_next (upd_actor r f b) = b_next b" "b_linked (upd_actor r f b) = b_linked b" "b_exits (upd_actor r f b) = b_exits b"
  by (simp_all add: upd_actor_def)

definition actor_grows :: "'t actor \<Rightarrow> 't actor \<Rightarrow> bool" where
  "actor_grows a a' \<longleftrightarrow>
     ac_name a' = ac_name a \<and> ac_policy a' = ac_policy a \<and> ac_owner a' = ac_owner a \<and>
     set (ac_received a) \<subseteq> set (ac_received a') \<and>
     (ac_result a \<noteq> None \<longrightarrow> ac_result a' = ac_result a)"

definition bus_grows :: "'t bus \<Rightarrow> 't bus \<Rightarrow> bool" where
  "bus_grows b b' \<longleftrightarrow> (\<forall>x a. b_actors b x = Some a \<longrightarrow> (\<exists>a'. b_actors b' x = Some a' \<and> actor_grows a a'))"

lemma actor_grows_refl [simp]: "actor_grows a a"
  by (simp add: actor_grows_def)

lemma bus_grows_refl [simp]: "bus_grows b b"
  by (auto simp: bus_grows_def)

lemma actor_grows_trans: "actor_grows a b \<Longrightarrow> actor_grows b c \<Longrightarrow> actor_grows a c"
  by (auto simp: actor_grows_def)

lemma bus_grows_trans: "bus_grows b c \<Longrightarrow> bus_grows c d \<Longrightarrow> bus_grows b d"
  unfolding bus_grows_def by (meson actor_grows_trans)

lemma upd_actor_grows: "(\<And>a. b_actors b r = Some a \<Longrightarrow> actor_grows a (f a)) \<Longrightarrow> bus_grows b (upd_actor r f b)"
  by (auto simp: bus_grows_def)

lemma deliver_event_grows [simp]: "actor_grows a (deliver_event ev a)"
  by (auto simp: actor_grows_def deliver_event_def)

lemma actor_send_grows: "bus_grows b (fst (actor_send r ev b))"
  by (simp add: actor_send_def upd_actor_grows)

lemma push_link_grows: "bus_grows b (push_link r other b)"
  by (auto simp: push_link_def actor_send_grows intro!: upd_actor_grows) (simp add: actor_grows_def)

lemma bus_grows_actors: "b_actors c = b_actors b' \<Longrightarrow> bus_grows b b' \<Longrightarrow> bus_grows b c"
  by (simp add: bus_grows_def)

lemma link_half_grows: "bus_grows b (link_half r other b)"
  unfolding link_half_def by (rule bus_grows_actors [OF _ push_link_grows]) simp

lemma actor_link_grows: "bus_grows b (actor_link r other b)"
  unfolding actor_link_def by (rule bus_grows_trans [OF link_half_grows link_half_grows])

lemma monitor_step_grows:
  assumes "monitor_step r b = Some b'"
  shows "bus_grows b b'"
proof -
  have upd: "bus_grows b (upd_actor r f b)" if "\<And>a. actor_grows a (f a)" for f
    by (rule upd_actor_grows) (rule that)
  have fields: "actor_grows a (a\<lparr>ac_links_open := False\<rparr>)" "actor_grows a (a\<lparr>ac_links := ls\<rparr>)"
    "actor_grows a (a\<lparr>ac_notified := True\<rparr>)" for a :: "'a actor" and ls
    by (simp_all add: actor_grows_def)
  have send: "bus_grows b (fst (actor_send l ev (upd_actor r f b)))" if "\<And>a. actor_grows a (f a)" for l ev f
    using upd [OF that] actor_send_grows by (rule bus_grows_trans)
  from assms show ?thesis
    by (auto simp: monitor_step_def Let_def fields upd send split: option.splits if_splits list.splits
        intro: bus_grows_actors [OF _ send])
qed

definition fresh_inv :: "'t bus \<Rightarrow> bool" where
  "fresh_inv b = (\<forall>x a. b_actors b x = Some a \<longrightarrow> x < b_next b)"

lemma bus_step_grows:
  assumes "bus_step b b'" "fresh_inv b"
  shows "bus_grows b b'"
  using assms(1)
proof cases
  case (mailbox nm)
  with assms(2) show ?thesis by (auto simp: bus_grows_def bus_mailbox_def fresh_inv_def)
next
  case (spawn ctx nm policy)
  with assms(2) show ?thesis by (auto simp: bus_grows_def actor_spawn_def fresh_inv_def)
next
  case (monitor r)
  then show ?thesis by (rule monitor_step_grows)
next
  case (task_end r a result)
  then show ?thesis by (auto simp: bus_grows_def actor_grows_def)
qed (simp_all add: actor_send_grows link_half_grows upd_actor_grows actor_grows_def)

lemma b_next_simps [simp]:
  "b_next (fst (actor_send r ev b)) = b_next b" "b_next (push_link r x b) = b_next b"
  "b_linked (fst (actor_send r ev b)) = b_linked b" "b_linked (push_link r x b) = b_linked b"
  "b_exits (fst (actor_send r ev b)) = b_exits b" "b_exits (push_link r x b) = b_exits b"
  by (simp_all add: actor_send_def push_link_def)

lemma actor_send_actors [simp]:
  "b_actors (fst (actor_send r ev b)) x =
     (if x = r then map_option (deliver_event ev) (b_actors b r) else b_actors b x)"
  by (simp add: actor_send_def)

lemma push_link_actors:
  "b_actors (push_link r other b) x =
     (if links_open r b then if x = r then map_option (\<lambda>a. a\<lparr>ac_links := ac_links a @ [other]\<rparr>) (b_actors b r) else b_actors b x
      else if x = other then map_option (deliver_event Stop) (b_actors b other) else b_actors b x)"
  by (simp add: push_link_def)

section \<open>Invariant\<close>

definition told :: "'t bus \<Rightarrow> chan \<Rightarrow> 't event \<Rightarrow> bool" where
  "told b r ev = (\<exists>a. b_actors b r = Some a \<and> (ev \<in> set (ac_received a) \<or> ac_result a \<noteq> None))"

abbreviation stopped :: "'t bus \<Rightarrow> chan \<Rightarrow> bool" where
  "stopped b r \<equiv> told b r Stop"

definition link_pending :: "'t bus \<Rightarrow> chan \<Rightarrow> chan \<Rightarrow> bool" where
  "link_pending b r other = (\<exists>a. b_actors b r = Some a \<and> other \<in> set (ac_links a))"

definition bus_inv :: "'t bus \<Rightarrow> bool" where
  "bus_inv b \<longleftrightarrow>
     fresh_inv b \<and>
     (\<forall>x a. b_actors b x = Some a \<longrightarrow> ac_owner a \<in> dom (b_actors b)) \<and>
     (\<forall>(x, y)\<in>set (b_linked b). y \<in> dom (b_actors b) \<and> (link_pending b x y \<or> stopped b y)) \<and>
     (\<forall>x a. b_actors b x = Some a \<longrightarrow> ac_notified a \<longrightarrow> ac_links a = [] \<and> \<not> ac_links_open a \<and> ac_result a \<noteq> None) \<and>
     distinct (b_exits b) \<and>
     (\<forall>x. x \<in> set (b_exits b) \<longleftrightarrow> (\<exists>a. b_actors b x = Some a \<and> ac_notified a)) \<and>
     (\<forall>x a. b_actors b x = Some a \<longrightarrow> ac_notified a \<longrightarrow> told b (ac_owner a) (ActorExited (exit_of a)))"

lemma bus_inv_new: "bus_inv bus_new"
  by (simp add: bus_inv_def bus_new_def fresh_inv_def)

lemma bus_growsD: "bus_grows b b' \<Longrightarrow> b_actors b x = Some a \<Longrightarrow> b_actors b' x = Some a' \<Longrightarrow> actor_grows a a'"
  by (fastforce simp: bus_grows_def)

lemma told_mono:
  assumes "bus_grows b b'" "told b r ev"
  shows "told b' r ev"
proof -
  obtain a where a: "b_actors b r = Some a" "ev \<in> set (ac_received a) \<or> ac_result a \<noteq> None"
    using assms(2) by (auto simp: told_def)
  moreover obtain a' where "b_actors b' r = Some a'" "actor_grows a a'"
    using assms(1) a(1) by (auto simp: bus_grows_def)
  ultimately show ?thesis by (auto simp: told_def actor_grows_def)
qed

lemma dom_mono: "bus_grows b b' \<Longrightarrow> r \<in> dom (b_actors b) \<Longrightarrow> r \<in> dom (b_actors b')"
  by (auto simp: bus_grows_def)

lemma told_send:
  assumes "r \<in> dom (b_actors b)"
  shows "told (fst (actor_send r ev b)) r ev"
proof -
  obtain a where "b_actors b r = Some a" using assms by blast
  then show ?thesis by (cases "ac_result a") (auto simp: told_def deliver_event_def)
qed

text \<open>
  The parts of the invariant that a step keeps because it only adds to the state: the links of the
  earlier state that are no longer pending have been acted on, and no notification is taken back.
\<close>

lemma bus_inv_grow:
  assumes inv: "bus_inv b" and grows: "bus_grows b b'" and "fresh_inv b'"
    and owners: "\<And>x a. b_actors b' x = Some a \<Longrightarrow> b_actors b x = None \<Longrightarrow> ac_owner a \<in> dom (b_actors b')"
    and links: "\<And>x y. link_pending b x y \<Longrightarrow> y \<in> dom (b_actors b) \<Longrightarrow> link_pending b' x y \<or> stopped b' y"
    and linked: "\<And>x y. (x, y) \<in> set (b_linked b') \<Longrightarrow> (x, y) \<notin> set (b_linked b) \<Longrightarrow>
      y \<in> dom (b_actors b') \<and> (link_pending b' x y \<or> stopped b' y)"
    and quiet: "\<And>x a. b_actors b' x = Some a \<Longrightarrow> ac_notified a \<Longrightarrow>
      ac_links a = [] \<and> \<not> ac_links_open a \<and> ac_result a \<noteq> None"
    and exits: "distinct (b_exits b')" "\<And>x. x \<in> set (b_exits b') \<longleftrightarrow> (\<exists>a. b_actors b' x = Some a \<and> ac_notified a)"
    and old: "\<And>x a'. b_actors b' x = Some a' \<Longrightarrow> ac_notified a' \<Longrightarrow>
      (\<exists>a. b_actors b x = Some a \<and> ac_notified a) \<or> told b' (ac_owner a') (ActorExited (exit_of a'))"
  shows "bus_inv b'"
proof -
  have keep: "y \<in> dom (b_actors b') \<and> (link_pending b' x y \<or> stopped b' y)" if "(x, y) \<in> set (b_linked b')" for x y
  proof (cases "(x, y) \<in> set (b_linked b)")
    case True
    then have "y \<in> dom (b_actors b)" "link_pending b x y \<or> stopped b y"
      using inv unfolding bus_inv_def by blast+
    then show ?thesis using links dom_mono [OF grows] told_mono [OF grows] by blast
  qed (use linked that in blast)
  have notice: "told b' (ac_owner a') (ActorExited (exit_of a'))"
    if a': "b_actors b' x = Some a'" "ac_notified a'" for x a'
    using old [OF a']
  proof
    assume "\<exists>a. b_actors b x = Some a \<and> ac_notified a"
    then obtain a where a: "b_actors b x = Some a" "ac_notified a" by blast
    then have t: "told b (ac_owner a) (ActorExited (exit_of a))" "ac_result a \<noteq> None"
      using inv unfolding bus_inv_def by blast+
    have "actor_grows a a'" using bus_growsD [OF grows a(1) a'(1)] .
    with t(2) have "exit_of a' = exit_of a" "ac_owner a' = ac_owner a"
      by (simp_all add: exit_of_def actor_grows_def)
    with told_mono [OF grows t(1)] show ?thesis by simp
  qed
  have own: "ac_owner a' \<in> dom (b_actors b')" if "b_actors b' x = Some a'" for x a'
  proof (cases "b_actors b x")
    case (Some a)
    then have "ac_owner a \<in> dom (b_actors b)" using inv unfolding bus_inv_def by blast
    moreover have "ac_owner a' = ac_owner a" using bus_growsD [OF grows Some that] by (simp add: actor_grows_def)
    ultimately show ?thesis using dom_mono [OF grows] by simp
  qed (use owners that in blast)
  show ?thesis
    unfolding bus_inv_def using assms(3) own keep quiet exits notice by blast
qed

lemma bus_inv_cases:
  assumes "bus_inv b"
  shows "fresh_inv b" "\<And>x a. b_actors b x = Some a \<Longrightarrow> ac_owner a \<in> dom (b_actors b)"
    "\<And>x a. b_actors b x = Some a \<Longrightarrow> ac_notified a \<Longrightarrow> ac_links a = [] \<and> \<not> ac_links_open a \<and> ac_result a \<noteq> None"
    "distinct (b_exits b)" "\<And>x. x \<in> set (b_exits b) \<longleftrightarrow> (\<exists>a. b_actors b x = Some a \<and> ac_notified a)"
  using assms unfolding bus_inv_def by blast+

lemma fresh_grow: "fresh_inv b \<Longrightarrow> dom (b_actors b') \<subseteq> dom (b_actors b) \<Longrightarrow> b_next b' = b_next b \<Longrightarrow> fresh_inv b'"
  unfolding fresh_inv_def by (metis domD domI subsetD)

lemma bus_inv_upd:
  assumes inv: "bus_inv b"
    and f: "\<And>a. b_actors b r = Some a \<Longrightarrow> actor_grows a (f a) \<and> ac_links (f a) = ac_links a \<and>
      ac_notified (f a) = ac_notified a \<and> (ac_links_open (f a) \<longrightarrow> ac_links_open a)"
  shows "bus_inv (upd_actor r f b)"
proof (rule bus_inv_grow [OF inv])
  note I = bus_inv_cases [OF inv]
  show "bus_grows b (upd_actor r f b)" using f by (intro upd_actor_grows) blast
  have dom: "dom (b_actors (upd_actor r f b)) = dom (b_actors b)" by (auto split: if_splits)
  then show "fresh_inv (upd_actor r f b)" by (intro fresh_grow [OF I(1)]) simp_all
  show "ac_owner a \<in> dom (b_actors (upd_actor r f b))"
    if "b_actors (upd_actor r f b) x = Some a" "b_actors b x = None" for x a
    using that by (simp split: if_splits)
  show "link_pending (upd_actor r f b) x y \<or> stopped (upd_actor r f b) y" if "link_pending b x y" for x y
    using that f by (auto simp: link_pending_def)
  show "ac_links a = [] \<and> \<not> ac_links_open a \<and> ac_result a \<noteq> None"
    if h: "b_actors (upd_actor r f b) x = Some a" "ac_notified a" for x a
  proof -
    obtain a0 where "b_actors b x = Some a0" "ac_notified a0" "a = (if x = r then f a0 else a0)"
      using h f by (auto split: if_splits)
    then show ?thesis using I(3) f by (auto simp: actor_grows_def split: if_splits)
  qed
  show "x \<in> set (b_exits (upd_actor r f b)) \<longleftrightarrow> (\<exists>a. b_actors (upd_actor r f b) x = Some a \<and> ac_notified a)" for x
    using I(5) [of x] f by auto
  show "(\<exists>a. b_actors b x = Some a \<and> ac_notified a) \<or>
      told (upd_actor r f b) (ac_owner a') (ActorExited (exit_of a'))"
    if "b_actors (upd_actor r f b) x = Some a'" "ac_notified a'" for x a'
    using that f by (auto split: if_splits)
qed (use bus_inv_cases [OF inv] in simp_all)

lemma bus_inv_send: "bus_inv b \<Longrightarrow> bus_inv (fst (actor_send r ev b))"
  unfolding actor_send_def fst_conv by (rule bus_inv_upd) (auto simp: deliver_event_def actor_grows_def)

text \<open>Changing only the links of an actor that has not been notified about yet.\<close>

lemma bus_inv_links:
  assumes inv: "bus_inv b" and r: "b_actors b r = Some a" "\<not> ac_notified a"
    and links: "\<And>y. y \<in> set (ac_links a) \<Longrightarrow> y \<in> dom (b_actors b) \<Longrightarrow>
      y \<in> set ls \<or> stopped b y"
  shows "bus_inv (upd_actor r (\<lambda>a. a\<lparr>ac_links := ls\<rparr>) b)" (is "bus_inv ?b")
proof (rule bus_inv_grow [OF inv])
  note I = bus_inv_cases [OF inv]
  show grows: "bus_grows b ?b" by (intro upd_actor_grows) (simp add: actor_grows_def)
  have dom: "dom (b_actors ?b) = dom (b_actors b)" by (auto split: if_splits)
  then show "fresh_inv ?b" by (intro fresh_grow [OF I(1)]) simp_all
  show "ac_owner a \<in> dom (b_actors ?b)" if "b_actors ?b x = Some a" "b_actors b x = None" for x a
    using that by (simp split: if_splits)
  show "link_pending ?b x y \<or> stopped ?b y" if "link_pending b x y" "y \<in> dom (b_actors b)" for x y
    using that r links told_mono [OF grows] by (fastforce simp: link_pending_def)
  show "ac_links a = [] \<and> \<not> ac_links_open a \<and> ac_result a \<noteq> None" if "b_actors ?b x = Some a" "ac_notified a" for x a
    using that I(3) [of x] r by (auto split: if_splits)
  show "x \<in> set (b_exits ?b) \<longleftrightarrow> (\<exists>a. b_actors ?b x = Some a \<and> ac_notified a)" for x
    using I(5) [of x] by auto
  show "(\<exists>a. b_actors b x = Some a \<and> ac_notified a) \<or> told ?b (ac_owner a') (ActorExited (exit_of a'))"
    if "b_actors ?b x = Some a'" "ac_notified a'" for x a'
    using that by (auto split: if_splits)
qed (use bus_inv_cases [OF inv] in simp_all)

lemma push_link_inv:
  assumes inv: "bus_inv b" and "other \<in> dom (b_actors b)"
  shows "bus_inv (push_link r other b) \<and>
    (link_pending (push_link r other b) r other \<or> stopped (push_link r other b) other)"
proof (cases "links_open r b")
  case True
  then obtain a where a: "b_actors b r = Some a" "ac_links_open a"
    by (auto simp: links_open_def split: option.splits)
  then have "\<not> ac_notified a" using bus_inv_cases(3) [OF inv] by blast
  moreover have "push_link r other b = upd_actor r (\<lambda>x. x\<lparr>ac_links := ac_links a @ [other]\<rparr>) b"
    using True a by (auto simp: push_link_def upd_actor_def fun_eq_iff)
  ultimately show ?thesis
    using bus_inv_links [OF inv a(1)] a(1) by (auto simp: link_pending_def)
next
  case False
  then show ?thesis using bus_inv_send [OF inv] told_send [OF assms(2)] by (simp add: push_link_def)
qed

lemma deliver_event_links [simp]:
  "ac_links (deliver_event ev a) = ac_links a" "ac_notified (deliver_event ev a) = ac_notified a"
  "ac_owner (deliver_event ev a) = ac_owner a" "ac_registered (deliver_event ev a) = ac_registered a"
  "ac_links_open (deliver_event ev a) = ac_links_open a" "ac_result (deliver_event ev a) = ac_result a"
  by (simp_all add: deliver_event_def)

lemma push_link_pending: "link_pending b x y \<Longrightarrow> link_pending (push_link r other b) x y"
  by (auto simp: link_pending_def push_link_actors)

lemma link_half_inv:
  assumes inv: "bus_inv b" and r: "other \<in> dom (b_actors b)"
  shows "bus_inv (link_half r other b)"
proof -
  let ?b1 = "push_link r other b"
  have b1: "bus_inv ?b1" "link_pending ?b1 r other \<or> stopped ?b1 other"
    using push_link_inv [OF inv r] by blast+
  have dom: "other \<in> dom (b_actors ?b1)" using dom_mono [OF push_link_grows r] .
  have "told (?b1\<lparr>b_linked := l\<rparr>) = told ?b1" "link_pending (?b1\<lparr>b_linked := l\<rparr>) = link_pending ?b1"
    "fresh_inv (?b1\<lparr>b_linked := l\<rparr>) = fresh_inv ?b1" for l
    by (simp_all add: told_def link_pending_def fresh_inv_def fun_eq_iff)
  then show ?thesis using b1 dom unfolding link_half_def bus_inv_def by simp
qed

lemma bus_inv_drain:
  assumes inv: "bus_inv b" and r: "b_actors b r = Some a" "\<not> ac_notified a" "ac_links a = l # ls"
  shows "bus_inv (fst (actor_send l Stop (upd_actor r (\<lambda>a. a\<lparr>ac_links := ls\<rparr>) b)))"
proof -
  let ?b1 = "fst (actor_send l Stop b)"
  have eq: "fst (actor_send l Stop (upd_actor r (\<lambda>a. a\<lparr>ac_links := ls\<rparr>) b)) = upd_actor r (\<lambda>a. a\<lparr>ac_links := ls\<rparr>) ?b1"
    by (auto simp: actor_send_def upd_actor_def deliver_event_def fun_eq_iff map_option_case split: option.split)
  have b1: "bus_inv ?b1" by (rule bus_inv_send [OF inv])
  obtain a1 where a1: "b_actors ?b1 r = Some a1" "\<not> ac_notified a1" "ac_links a1 = l # ls"
    using r by (cases "r = l") auto
  have "y \<in> set ls \<or> stopped ?b1 y" if "y \<in> set (ac_links a1)" "y \<in> dom (b_actors ?b1)" for y
  proof (cases "y = l")
    case True
    then have "l \<in> dom (b_actors b)" using that(2) by auto
    with True show ?thesis using told_send by blast
  qed (use that(1) a1(3) in simp)
  from bus_inv_links [OF b1 a1(1,2) this] show ?thesis by (simp only: eq)
qed

lemma bus_inv_notify:
  assumes inv: "bus_inv b" and r: "b_actors b r = Some a" "\<not> ac_notified a" "ac_links a = []" "\<not> ac_links_open a"
    "ac_result a \<noteq> None"
  defines "b' \<equiv> (fst (actor_send (ac_owner a) (ActorExited (exit_of a)) (upd_actor r (\<lambda>a. a\<lparr>ac_notified := True\<rparr>) b)))
    \<lparr>b_exits := b_exits b @ [r]\<rparr>"
  shows "bus_inv b'"
proof (rule bus_inv_grow [OF inv])
  note I = bus_inv_cases [OF inv]
  let ?b1 = "upd_actor r (\<lambda>a. a\<lparr>ac_notified := True\<rparr>) b"
  have lookup: "b_actors b' x = (if x = ac_owner a then map_option (deliver_event (ActorExited (exit_of a))) (b_actors ?b1 x)
      else b_actors ?b1 x)" for x by (simp add: b'_def)
  have lookup': "\<exists>a0. b_actors b x = Some a0 \<and> ac_links a' = ac_links a0 \<and> ac_links_open a' = ac_links_open a0 \<and>
      ac_result a' = ac_result a0 \<and> (ac_notified a' \<longleftrightarrow> ac_notified a0 \<or> x = r)" if "b_actors b' x = Some a'" for x a'
    using that unfolding lookup by (auto split: if_splits)
  have onto: "\<exists>a'. b_actors b' x = Some a' \<and> ac_links a' = ac_links a0 \<and> (ac_notified a' \<longleftrightarrow> ac_notified a0 \<or> x = r)"
    if "b_actors b x = Some a0" for x a0
    using that unfolding lookup by auto
  have "bus_grows b ?b1" by (intro upd_actor_grows) (simp add: actor_grows_def)
  then show grows: "bus_grows b b'"
    unfolding b'_def by (rule bus_grows_actors [OF _ bus_grows_trans [OF _ actor_send_grows], rotated]) simp
  have dom: "dom (b_actors b') \<subseteq> dom (b_actors b)" using lookup' by blast
  then show "fresh_inv b'" by (intro fresh_grow [OF I(1)]) (simp_all add: b'_def)
  show "ac_owner a \<in> dom (b_actors b')" if "b_actors b' x = Some a" "b_actors b x = None" for x a
    using lookup' [OF that(1)] that(2) by simp
  show "link_pending b' x y \<or> stopped b' y" if "link_pending b x y" for x y
    using that onto unfolding link_pending_def by metis
  show "(x, y) \<in> set (b_linked b') \<Longrightarrow> (x, y) \<notin> set (b_linked b) \<Longrightarrow>
      y \<in> dom (b_actors b') \<and> (link_pending b' x y \<or> stopped b' y)" for x y
    by (simp add: b'_def)
  show "ac_links a' = [] \<and> \<not> ac_links_open a' \<and> ac_result a' \<noteq> None"
    if h: "b_actors b' x = Some a'" "ac_notified a'" for x a'
    using lookup' [OF h(1)] h(2) I(3) [of x] r by auto
  have "r \<notin> set (b_exits b)" using I(5) [of r] r by simp
  then show "distinct (b_exits b')" using I(4) by (simp add: b'_def)
  show "x \<in> set (b_exits b') \<longleftrightarrow> (\<exists>a. b_actors b' x = Some a \<and> ac_notified a)" for x
  proof -
    have "x \<in> set (b_exits b') \<longleftrightarrow> x = r \<or> (\<exists>a. b_actors b x = Some a \<and> ac_notified a)"
      using I(5) [of x] by (auto simp: b'_def)
    also have "\<dots> \<longleftrightarrow> (\<exists>a. b_actors b' x = Some a \<and> ac_notified a)"
      using lookup' [of x] onto [of x] r(1) by (metis option.distinct(1) option.exhaust)
    finally show ?thesis .
  qed
  show "(\<exists>a. b_actors b x = Some a \<and> ac_notified a) \<or> told b' (ac_owner a') (ActorExited (exit_of a'))"
    if h: "b_actors b' x = Some a'" "ac_notified a'" for x a'
  proof (cases "x = r")
    case True
    have "actor_grows a a'" using bus_growsD [OF grows r(1)] h(1) True by simp
    then have "exit_of a' = exit_of a" "ac_owner a' = ac_owner a" using r(5) by (simp_all add: exit_of_def actor_grows_def)
    moreover have "ac_owner a \<in> dom (b_actors ?b1)" using I(2) [OF r(1)] by auto
    then have "told b' (ac_owner a) (ActorExited (exit_of a))"
      using told_send [of "ac_owner a" ?b1 "ActorExited (exit_of a)"] by (simp add: told_def b'_def)
    ultimately show ?thesis by simp
  qed (use lookup' [OF h(1)] h(2) in auto)
qed

lemma monitor_step_inv:
  assumes inv: "bus_inv b" and step: "monitor_step r b = Some b'"
  shows "bus_inv b'"
proof -
  obtain a where a: "b_actors b r = Some a" "ac_registered a" "ac_result a \<noteq> None" "\<not> ac_notified a"
    using step by (auto simp: monitor_step_def split: option.splits if_splits)
  show ?thesis
  proof (cases "ac_links_open a")
    case True
    with step a have "b' = upd_actor r (\<lambda>a. a\<lparr>ac_links_open := False\<rparr>) b" by (simp add: monitor_step_def)
    then show ?thesis using bus_inv_upd [OF inv] by (simp add: actor_grows_def)
  next
    case False
    then show ?thesis
    proof (cases "ac_links a")
      case Nil
      with step a False show ?thesis
        using bus_inv_notify [OF inv a(1,4) Nil False a(3)] by (simp add: monitor_step_def Let_def)
    next
      case (Cons l ls)
      with step a False show ?thesis
        using bus_inv_drain [OF inv a(1,4) Cons] by (simp add: monitor_step_def)
    qed
  qed
qed

lemma bus_inv_insert:
  assumes inv: "bus_inv b" and "ac_owner a = b_next b \<or> ac_owner a \<in> dom (b_actors b)" "ac_notified a = False"
  shows "bus_inv (b\<lparr>b_next := Suc (b_next b), b_actors := (b_actors b)(b_next b \<mapsto> a)\<rparr>)" (is "bus_inv ?b")
proof (rule bus_inv_grow [OF inv])
  note I = bus_inv_cases [OF inv]
  have new: "b_actors b (b_next b) = None" using I(1) by (cases "b_actors b (b_next b)") (auto simp: fresh_inv_def)
  show "bus_grows b ?b" using new by (auto simp: bus_grows_def)
  show "fresh_inv ?b" using I(1) by (auto simp: fresh_inv_def intro: less_SucI)
  show "ac_owner a' \<in> dom (b_actors ?b)" if "b_actors ?b x = Some a'" "b_actors b x = None" for x a'
    using that assms(2) by (auto split: if_splits)
  show "link_pending ?b x y \<or> stopped ?b y" if "link_pending b x y" for x y
    using that new by (auto simp: link_pending_def)
  show "ac_links a' = [] \<and> \<not> ac_links_open a' \<and> ac_result a' \<noteq> None"
    if "b_actors ?b x = Some a'" "ac_notified a'" for x a'
    using that I(3) [of x a'] assms(3) by (auto split: if_splits)
  show "x \<in> set (b_exits ?b) \<longleftrightarrow> (\<exists>a. b_actors ?b x = Some a \<and> ac_notified a)" for x
    using I(5) [of x] assms(3) new by auto
  show "(\<exists>a. b_actors b x = Some a \<and> ac_notified a) \<or> told ?b (ac_owner a') (ActorExited (exit_of a'))"
    if "b_actors ?b x = Some a'" "ac_notified a'" for x a'
    using that assms(3) by (auto split: if_splits)
qed (use bus_inv_cases [OF inv] in simp_all)

lemma bus_step_inv:
  assumes inv: "bus_inv b" and step: "bus_step b b'"
  shows "bus_inv b'"
  using step
proof cases
  case (mailbox nm)
  then show ?thesis using bus_inv_insert [OF inv] by (simp add: bus_mailbox_def)
next
  case (spawn ctx nm policy)
  then obtain a where "b_actors b ctx = Some a" by blast
  with bus_inv_cases(2) [OF inv] spawn show ?thesis
    using bus_inv_insert [OF inv] by (simp add: actor_spawn_def)
next
  case (send r ev)
  then show ?thesis using bus_inv_send [OF inv] by simp
next
  case (recv r)
  then show ?thesis using bus_inv_upd [OF inv] by (simp add: actor_grows_def)
next
  case (link r other)
  then show ?thesis using link_half_inv [OF inv] by (simp add: domIff)
next
  case (register r a)
  then show ?thesis using bus_inv_upd [OF inv] by (simp add: actor_grows_def)
next
  case (task_end r a result)
  then show ?thesis using bus_inv_upd [OF inv, of r "\<lambda>a. a\<lparr>ac_result := Some result\<rparr>"] by (simp add: actor_grows_def)
next
  case (monitor r)
  then show ?thesis using monitor_step_inv [OF inv] by simp
qed

interpretation bus_loop: inductive_invariant "\<lambda>b. b = bus_new" bus_step bus_inv
  by unfold_locales (simp_all add: bus_inv_new bus_step_inv)

section \<open>Progress of a monitor\<close>

fun monitor_run :: "nat \<Rightarrow> chan \<Rightarrow> 't bus \<Rightarrow> 't bus" where
  "monitor_run 0 r b = b"
| "monitor_run (Suc n) r b = (case monitor_step r b of None \<Rightarrow> b | Some b' \<Rightarrow> monitor_run n r b')"

text \<open>
  What a monitor that has finished leaves behind: the links of its actor are closed and drained, and every actor
  that is running has received, after all it received before, one stop for each of its links with the actor
  and, if it is the owner, the exit.
\<close>

definition exit_handled :: "chan \<Rightarrow> 't actor \<Rightarrow> 't bus \<Rightarrow> 't bus \<Rightarrow> bool" where
  "exit_handled r a b b' \<longleftrightarrow>
     (\<exists>a'. b_actors b' r = Some a' \<and> ac_notified a' \<and> \<not> ac_links_open a' \<and> ac_links a' = []) \<and>
     (\<forall>x ax. b_actors b x = Some ax \<and> ac_result ax = None \<longrightarrow>
        (\<exists>ax'. b_actors b' x = Some ax' \<and> ac_result ax' = None \<and>
           ac_received ax' = ac_received ax @ replicate (count_list (ac_links a) x) Stop @
             (if x = ac_owner a then [ActorExited (exit_of a)] else [])))"

lemma monitor_drains:
  assumes "b_actors b r = Some a" "ac_registered a" "ac_result a \<noteq> None" "\<not> ac_notified a" "\<not> ac_links_open a"
  shows "exit_handled r a b (monitor_run (Suc (length (ac_links a))) r b)"
  using assms
proof (induction "ac_links a" arbitrary: a b)
  case Nil
  then show ?case
    by (auto simp: exit_handled_def monitor_step_def Let_def deliver_event_def actor_send_def upd_actor_def)
next
  case (Cons l ls)
  let ?b = "fst (actor_send l Stop (upd_actor r (\<lambda>a. a\<lparr>ac_links := ls\<rparr>) b))"
  let ?a = "a\<lparr>ac_links := ls\<rparr>"
  have step: "monitor_step r b = Some ?b"
    using Cons.prems by (simp add: monitor_step_def flip: Cons.hyps(2))
  have "b_actors ?b r = Some ?a"
    using Cons.prems by (auto simp: actor_send_def upd_actor_def deliver_event_def)
  then have IH: "exit_handled r ?a ?b (monitor_run (Suc (length ls)) r ?b)"
    using Cons.hyps(1) [of ?a ?b] Cons.prems by simp
  have sent: "\<exists>ax'. b_actors ?b x = Some ax' \<and> ac_result ax' = None \<and>
      ac_received ax' = ac_received ax @ (if x = l then [Stop] else [])" if "b_actors b x = Some ax" "ac_result ax = None" for x ax
  proof -
    have "x \<noteq> r" using that Cons.prems(1,3) by auto
    then have "b_actors ?b x = Some (if x = l then deliver_event Stop ax else ax)" using that by (auto simp: actor_send_def upd_actor_def)
    then show ?thesis using that(2) by (simp add: deliver_event_def)
  qed
  have links: "ac_links a = l # ls" using Cons.hyps(2) by simp
  have run: "monitor_run (Suc (length (ac_links a))) r b = monitor_run (Suc (length ls)) r ?b"
    unfolding links by (subst monitor_run.simps(2)) (simp only: step option.case list.size add_Suc_right add_0_right)
  have keep: "exit_of ?a = exit_of a" "ac_owner ?a = ac_owner a" "ac_links ?a = ls" by (simp_all add: exit_of_def)
  show ?case
    unfolding exit_handled_def run
  proof (intro conjI allI impI)
    show "\<exists>a'. b_actors (monitor_run (Suc (length ls)) r ?b) r = Some a' \<and> ac_notified a' \<and> \<not> ac_links_open a' \<and> ac_links a' = []"
      using IH unfolding exit_handled_def by blast
  next
    fix x ax
    assume "b_actors b x = Some ax \<and> ac_result ax = None"
    with sent obtain ax1 where 1: "b_actors ?b x = Some ax1" "ac_result ax1 = None"
      "ac_received ax1 = ac_received ax @ (if x = l then [Stop] else [])" by blast
    with IH obtain ax' where "b_actors (monitor_run (Suc (length ls)) r ?b) x = Some ax'" "ac_result ax' = None"
      "ac_received ax' = ac_received ax1 @ replicate (count_list ls x) Stop @ (if x = ac_owner a then [ActorExited (exit_of a)] else [])"
      unfolding exit_handled_def keep by blast
    with 1(3) show "\<exists>ax'. b_actors (monitor_run (Suc (length ls)) r ?b) x = Some ax' \<and> ac_result ax' = None \<and>
        ac_received ax' = ac_received ax @ replicate (count_list (ac_links a) x) Stop @
          (if x = ac_owner a then [ActorExited (exit_of a)] else [])"
      unfolding links by auto
  qed
qed

lemma monitor_run_done: "monitor_step r (monitor_run n r b) = None \<Longrightarrow> monitor_run (Suc n) r b = monitor_run n r b"
proof (induction n arbitrary: b)
  case (Suc n)
  then show ?case by (cases "monitor_step r b") auto
qed simp

lemma monitor_finishes:
  assumes "b_actors b r = Some a" "ac_registered a" "ac_result a \<noteq> None" "\<not> ac_notified a"
  shows "exit_handled r a b (monitor_run (length (ac_links a) + 2) r b)"
proof (cases "ac_links_open a")
  case True
  let ?b = "upd_actor r (\<lambda>a. a\<lparr>ac_links_open := False\<rparr>) b"
  let ?a = "a\<lparr>ac_links_open := False\<rparr>"
  have step: "monitor_step r b = Some ?b" using True assms by (simp add: monitor_step_def)
  have "b_actors ?b r = Some ?a" using assms(1) by simp
  from monitor_drains [OF this] assms
  have "exit_handled r ?a ?b (monitor_run (Suc (length (ac_links a))) r ?b)" by simp
  moreover have keep: "exit_of ?a = exit_of a" "ac_owner ?a = ac_owner a" "ac_links ?a = ac_links a" by (simp_all add: exit_of_def)
  moreover have "b_actors ?b x = Some ax" if "b_actors b x = Some ax" "ac_result ax = None" for x ax
    using that assms(1,3) by (auto simp: upd_actor_def)
  ultimately have "exit_handled r a b (monitor_run (Suc (length (ac_links a))) r ?b)"
    unfolding exit_handled_def keep by blast
  then show ?thesis by (simp add: step del: monitor_run.simps(2)) (simp add: step)
next
  case False
  note d = monitor_drains [OF assms False]
  then have "monitor_step r (monitor_run (Suc (length (ac_links a))) r b) = None"
    by (auto simp: exit_handled_def monitor_step_def simp del: monitor_run.simps)
  from monitor_run_done [OF this] d show ?thesis by simp
qed

section \<open>Properties\<close>

text \<open>C13: Linked actors share their fate. In every reachable state of the bus, whatever the order of spawns,
  links, sends and task ends: once the exit of an actor has been reported, every actor it was linked with,
  in either direction, has been sent a stop or has itself ended.\<close>

theorem linked_exit_propagates:
  assumes "reachable (\<lambda>b. b = bus_new) bus_step b" "(x, y) \<in> set (b_linked b)"
    "b_actors b x = Some a" "ac_notified a"
  shows "\<exists>a'. b_actors b y = Some a' \<and> (Stop \<in> set (ac_received a') \<or> ac_result a' \<noteq> None)"
proof -
  have inv: "bus_inv b" by (rule bus_loop.reachable_inv [OF assms(1)])
  then have "link_pending b x y \<or> stopped b y" using assms(2) unfolding bus_inv_def by blast
  moreover have "ac_links a = []" using bus_inv_cases(3) [OF inv assms(3,4)] by simp
  ultimately show ?thesis using assms(3) by (auto simp: link_pending_def told_def)
qed

text \<open>C23: Exits are reported exactly once. In every reachable state each actor occurs at most once among the
  reported exits, only after its task has ended, and its owner has received the notification with the
  actor's name, policy and result unless the owner itself has ended.\<close>

theorem exit_reported_once:
  assumes "reachable (\<lambda>b. b = bus_new) bus_step b"
  shows "distinct (b_exits b) \<and>
    (\<forall>x\<in>set (b_exits b). \<exists>a o'. b_actors b x = Some a \<and> ac_result a \<noteq> None \<and> b_actors b (ac_owner a) = Some o' \<and>
       (ActorExited \<lparr>x_name = ac_name a, x_policy = ac_policy a, x_result = the (ac_result a)\<rparr> \<in> set (ac_received o')
        \<or> ac_result o' \<noteq> None))"
proof -
  have inv: "bus_inv b" by (rule bus_loop.reachable_inv [OF assms])
  have "\<exists>a o'. b_actors b x = Some a \<and> ac_result a \<noteq> None \<and> b_actors b (ac_owner a) = Some o' \<and>
       (ActorExited (exit_of a) \<in> set (ac_received o') \<or> ac_result o' \<noteq> None)" if x: "x \<in> set (b_exits b)" for x
  proof -
    obtain a where a: "b_actors b x = Some a" "ac_notified a" using bus_inv_cases(5) [OF inv] x by blast
    then have "told b (ac_owner a) (ActorExited (exit_of a))" "ac_result a \<noteq> None"
      using inv unfolding bus_inv_def by blast+
    with a show ?thesis by (auto simp: told_def)
  qed
  then show ?thesis using bus_inv_cases(4) [OF inv] by (simp add: exit_of_def)
qed

text \<open>C24: A monitor always finishes and does its work. Run on an actor whose task has ended, it stops after at most
  two steps more than the actor has links. Then the links are closed and none is left, and every other running actor
  has received exactly this from it: one stop for each link, and the owner, last, the exit with its name, policy
  and result.\<close>

theorem monitor_reports:
  assumes "b_actors b r = Some a" "ac_registered a" "ac_result a \<noteq> None" "\<not> ac_notified a"
    and "b' = monitor_run (length (ac_links a) + 2) r b"
  shows "monitor_step r b' = None \<and>
    (\<exists>a'. b_actors b' r = Some a' \<and> \<not> ac_links_open a' \<and> ac_links a' = []) \<and>
    (\<forall>x ax. b_actors b x = Some ax \<and> ac_result ax = None \<longrightarrow>
       (\<exists>ax'. b_actors b' x = Some ax' \<and>
          ac_received ax' = ac_received ax @ replicate (count_list (ac_links a) x) Stop @
            (if x = ac_owner a then [ActorExited \<lparr>x_name = ac_name a, x_policy = ac_policy a, x_result = the (ac_result a)\<rparr>] else [])))"
proof -
  have "exit_handled r a b b'" using monitor_finishes [OF assms(1-4)] assms(5) by simp
  moreover from this have "monitor_step r b' = None" by (auto simp: exit_handled_def monitor_step_def)
  ultimately show ?thesis unfolding exit_handled_def exit_of_def by blast
qed

definition sample_bus :: "nat \<Rightarrow> unit bus" where
  "sample_bus n =
     (let b = fst (bus_mailbox ''root'' bus_new);
          b = fst (actor_spawn 0 ''engine'' Restartable b);
          b = fst (actor_spawn 0 ''udp-rx'' Restartable b);
          b = actor_link 1 2 b;
          b = upd_actor 1 (\<lambda>a. a\<lparr>ac_registered := True\<rparr>) b;
          b = upd_actor 1 (\<lambda>a. a\<lparr>ac_result := Some (Ok (Ok ()))\<rparr>) b
      in monitor_run n 1 b)"

lemma monitor_run_reachable:
  "reachable init bus_step b \<Longrightarrow> reachable init bus_step (monitor_run n r b)"
proof (induction n arbitrary: b)
  case (Suc n)
  show ?case
  proof (cases "monitor_step r b")
    case (Some b')
    have "reachable init bus_step b'" using Suc.prems bus_step.monitor [OF Some] by (rule reachable_step)
    with Some Suc.IH show ?thesis by simp
  qed (use Suc.prems in simp)
qed simp

lemma sample_bus_reachable: "reachable (\<lambda>b. b = bus_new) bus_step (sample_bus n)"
proof -
  note step = reachable_step [where step = bus_step and init = "\<lambda>b. b = bus_new"]
  let ?b1 = "fst (bus_mailbox ''root'' (bus_new :: unit bus))"
  let ?b2 = "fst (actor_spawn 0 ''engine'' Restartable ?b1)"
  let ?b3 = "fst (actor_spawn 0 ''udp-rx'' Restartable ?b2)"
  let ?b4 = "actor_link 1 2 ?b3"
  let ?b5 = "upd_actor 1 (\<lambda>a. a\<lparr>ac_registered := True\<rparr>) ?b4"
  note eval = bus_mailbox_def bus_new_def actor_spawn_def actor_link_def link_half_def push_link_def links_open_def Let_def
  have "reachable (\<lambda>b. b = bus_new) bus_step ?b1" by (blast intro: reachable_init step bus_step.mailbox)
  then have "reachable (\<lambda>b. b = bus_new) bus_step ?b2"
    by (rule step) (rule bus_step.spawn, simp add: eval)
  then have "reachable (\<lambda>b. b = bus_new) bus_step ?b3"
    by (rule step) (rule bus_step.spawn, simp add: eval)
  then have "reachable (\<lambda>b. b = bus_new) bus_step (link_half 1 2 ?b3)"
    by (rule step) (rule bus_step.link; simp add: eval)
  then have "reachable (\<lambda>b. b = bus_new) bus_step ?b4" unfolding actor_link_def
    by (rule step) (rule bus_step.link; simp add: eval)
  then have r4: "reachable (\<lambda>b. b = bus_new) bus_step ?b5"
    by (rule step) (rule bus_step.register, simp add: eval, simp)
  obtain a where "b_actors ?b5 1 = Some a" "ac_result a = None" by (simp add: eval)
  then have "reachable (\<lambda>b. b = bus_new) bus_step (upd_actor 1 (\<lambda>a. a\<lparr>ac_result := Some (Ok (Ok ()))\<rparr>) ?b5)"
    using step [OF r4] bus_step.task_end by blast
  then show ?thesis unfolding sample_bus_def Let_def by (rule monitor_run_reachable)
qed

lemma sample_bus_value:
  "b_linked (sample_bus 3) = [(1, 2), (2, 1)]" "b_exits (sample_bus 3) = [1]"
  "\<exists>a. b_actors (sample_bus 3) 1 = Some a \<and> ac_notified a"
  by (simp_all add: sample_bus_def bus_mailbox_def bus_new_def actor_spawn_def actor_link_def link_half_def push_link_def
      links_open_def Let_def monitor_step_def numeral_3_eq_3 deliver_event_def)

theorem linked_exit_propagates_witness:
  "\<exists>a. b_actors (sample_bus 3) 2 = Some a \<and> (Stop \<in> set (ac_received a) \<or> ac_result a \<noteq> None)"
proof -
  obtain a where "b_actors (sample_bus 3) 1 = Some a" "ac_notified a" using sample_bus_value(3) by blast
  then show ?thesis
    using linked_exit_propagates [OF sample_bus_reachable, of 1 2 3 a] sample_bus_value(1) by simp
qed

theorem exit_reported_once_witness:
  "b_exits (sample_bus 3) = [1] \<and> distinct (b_exits (sample_bus 3))"
  using exit_reported_once [OF sample_bus_reachable, of 3] sample_bus_value(2) by simp

theorem monitor_reports_witness:
  "\<exists>ax'. b_actors (monitor_run 3 1 (sample_bus 0)) 0 = Some ax' \<and>
     ac_received ax' = [ActorExited \<lparr>x_name = ''engine'', x_policy = Restartable, x_result = Ok (Ok ())\<rparr>]"
proof -
  have "\<exists>a o'. b_actors (sample_bus 0) 1 = Some a \<and> ac_registered a \<and> ac_result a = Some (Ok (Ok ())) \<and> \<not> ac_notified a \<and> ac_links a = [2] \<and>
      ac_owner a = 0 \<and> ac_name a = ''engine'' \<and> ac_policy a = Restartable \<and>
      b_actors (sample_bus 0) 0 = Some o' \<and> ac_result o' = None \<and> ac_received o' = []"
    by (simp add: sample_bus_def bus_mailbox_def bus_new_def actor_spawn_def actor_link_def link_half_def push_link_def
        links_open_def Let_def)
  then obtain a o' where a: "b_actors (sample_bus 0) 1 = Some a" "ac_registered a" "ac_result a = Some (Ok (Ok ()))"
    "\<not> ac_notified a" "ac_links a = [2]" "ac_owner a = 0" "ac_name a = ''engine''" "ac_policy a = Restartable"
    "b_actors (sample_bus 0) 0 = Some o'" "ac_result o' = None" "ac_received o' = []" by blast
  have "ac_result a \<noteq> None" using a(3) by simp
  from monitor_reports [OF a(1,2) this a(4) refl] a(9,10)
  have "\<exists>ax'. b_actors (monitor_run (length (ac_links a) + 2) 1 (sample_bus 0)) 0 = Some ax' \<and>
      ac_received ax' = ac_received o' @ replicate (count_list (ac_links a) 0) Stop @
        (if 0 = ac_owner a then [ActorExited \<lparr>x_name = ac_name a, x_policy = ac_policy a, x_result = the (ac_result a)\<rparr>] else [])" by blast
  then show ?thesis unfolding a(3,5,6,7,8,11) by (simp add: numeral_eq_Suc)
qed

end
