(* ===== verification/Bare.thy ===== *)
theory Bare
  imports Udp Actor "HOL-Library.Sublist"
begin

text \<open>
  The BareUDP transport of \<open>bare.rs\<close>: the filter that lets only batches of accepted source addresses
  reach the router, the adapter that stamps outgoing batches with the destination of the peer, and the
  construction of both pipelines. The sender of a channel is named by the actor that receives from it.
\<close>

section \<open>The receive pipeline\<close>

record bare_rx =
  br_accepted_sources :: "ip_addr set"
  br_ingress_tx :: chan
  br_metrics_interval :: duration

record bare_rx_group =
  bg_filter :: bare_rx
  bg_udp_rx :: udp_rx

text \<open>
  \<open>udp_init\<close> is the outcome of \<open>make_udp\<close> on the UDP runtime, or the failure of the task itself.
\<close>

definition on_udp_runtime :: "string option \<Rightarrow> (udp_error, 'a) result \<Rightarrow> (udp_error, 'a) result" where
  "on_udp_runtime join_failure r =
     (case join_failure of
        Some e \<Rightarrow> Err (UdpSocketError (''UDP runtime task failed: '' @ e))
      | None \<Rightarrow> r)"

definition make_bare_rx ::
  "sys_calls \<Rightarrow> (sock \<Rightarrow> nat \<Rightarrow> bool \<Rightarrow> (udp_error, udp_rx \<times> udp_tx) result) \<Rightarrow> string option \<Rightarrow> socket_addr \<Rightarrow> u16 \<Rightarrow>
     ip_addr set \<Rightarrow> chan \<Rightarrow> tuning \<Rightarrow> (udp_error, bare_rx_group) result" where
  "make_bare_rx sys udp_init join_failure listen_addr mtu accepted_sources ingress_tx tun =
     (case make_server_udp_socket sys listen_addr (socket_buffer_bytes (t_io tun)) of
        Err e \<Rightarrow> Err e
      | Ok socket \<Rightarrow>
          (case on_udp_runtime join_failure (udp_init socket (unat mtu) (udp_enable_offload (t_io tun))) of
             Err e \<Rightarrow> Err e
           | Ok (rx, _) \<Rightarrow>
               Ok \<lparr>bg_filter = \<lparr>br_accepted_sources = accepted_sources, br_ingress_tx = ingress_tx,
                       br_metrics_interval = metrics_push_interval (t_io tun)\<rparr>,
                   bg_udp_rx = rx\<rparr>))"

definition spawn_bare_rx :: "(sock \<Rightarrow> string) \<Rightarrow> chan \<Rightarrow> bare_rx_group \<Rightarrow> 't bus \<Rightarrow> 't bus \<times> chan" where
  "spawn_bare_rx local_addr ctx grp b =
     (let (b, filter_ref) = actor_spawn ctx ''bare-rx-filter'' Critical b;
          (b, udp_rx_ref) = actor_spawn ctx (''udp-rx['' @ local_addr (ur_socket (bg_udp_rx grp)) @ '']'') Critical b
      in (actor_link filter_ref udp_rx_ref b, filter_ref))"

section \<open>The source filter\<close>

datatype 't bare_rx_event =
    FilterBatch "(socket_addr \<times> packet list) option"
  | FilterInbox "'t event option"
  | FilterTick bool

record bare_filter_state =
  bf_accepted :: "ip_addr set"
  bf_counters :: counters
  bf_out :: "packet list outbox"
  bf_emitted :: "metrics list"
  bf_exited :: bool

definition bare_filter_init :: "bare_rx \<Rightarrow> bare_filter_state" where
  "bare_filter_init f =
     \<lparr>bf_accepted = br_accepted_sources f, bf_counters = counters_new BareUdp Rx,
      bf_out = \<lparr>sends = 0, delivered = []\<rparr>, bf_emitted = [], bf_exited = False\<rparr>"

definition bare_filter_step ::
  "(nat \<Rightarrow> send_env) \<Rightarrow> chan \<Rightarrow> 't bare_rx_event \<Rightarrow> bare_filter_state \<Rightarrow> bare_filter_state" where
  "bare_filter_step env ingress_tx ev s =
     (if bf_exited s then s else
      case ev of
        FilterBatch None \<Rightarrow> s\<lparr>bf_exited := True\<rparr>
      | FilterBatch (Some (remote, batch)) \<Rightarrow>
          (let (count, nbytes) = batch_stats batch in
           if fst remote \<notin> bf_accepted s
           then s\<lparr>bf_counters := record_drop DisallowedSource count nbytes (bf_counters s)\<rparr>
           else let (ok, c, out) = send_and_record env ingress_tx batch count nbytes (bf_counters s, bf_out s)
                in s\<lparr>bf_counters := c, bf_out := out, bf_exited := \<not> ok\<rparr>)
      | FilterInbox (Some (UpdateAcceptedSources sources)) \<Rightarrow> s\<lparr>bf_accepted := sources\<rparr>
      | FilterInbox (Some Stop) \<Rightarrow> s\<lparr>bf_exited := True\<rparr>
      | FilterInbox None \<Rightarrow> s\<lparr>bf_exited := True\<rparr>
      | FilterInbox (Some _) \<Rightarrow> s
      | FilterTick owner_alive \<Rightarrow>
          if owner_alive then s\<lparr>bf_emitted := bf_emitted s @ [snapshot None None (bf_counters s)]\<rparr>
          else s\<lparr>bf_exited := True\<rparr>)"

definition bare_filter_run ::
  "(nat \<Rightarrow> send_env) \<Rightarrow> chan \<Rightarrow> 't bare_rx_event list \<Rightarrow> bare_filter_state \<Rightarrow> bare_filter_state" where
  "bare_filter_run env ingress_tx evs s = fold (bare_filter_step env ingress_tx) evs s"

section \<open>The transmit adapter\<close>

datatype bare_tx_event = EgressBatch "packet list option" | BareTxStop | BareTxTick bool

record bare_tx_state =
  bt_counters :: counters
  bt_out :: "(socket_addr \<times> packet list) outbox"
  bt_emitted :: "metrics list"
  bt_exited :: bool

definition bare_tx_init :: bare_tx_state where
  "bare_tx_init = \<lparr>bt_counters = counters_new BareUdp Tx, bt_out = \<lparr>sends = 0, delivered = []\<rparr>, bt_emitted = [], bt_exited = False\<rparr>"

definition bare_tx_step ::
  "(nat \<Rightarrow> send_env) \<Rightarrow> chan \<Rightarrow> socket_addr \<Rightarrow> string \<Rightarrow> bare_tx_event \<Rightarrow> bare_tx_state \<Rightarrow> bare_tx_state" where
  "bare_tx_step env udp_tx destination peer ev s =
     (if bt_exited s then s else
      case ev of
        EgressBatch None \<Rightarrow> s\<lparr>bt_exited := True\<rparr>
      | EgressBatch (Some pkts) \<Rightarrow>
          if pkts = [] then s
          else (let (count, nbytes) = batch_stats pkts;
                    (ok, out) = awaited_send env udp_tx (destination, pkts) (bt_out s)
                in if ok then s\<lparr>bt_counters := record_success count nbytes (bt_counters s), bt_out := out\<rparr>
                   else s\<lparr>bt_out := out, bt_exited := True\<rparr>)
      | BareTxStop \<Rightarrow> s\<lparr>bt_exited := True\<rparr>
      | BareTxTick owner_alive \<Rightarrow>
          if owner_alive then s\<lparr>bt_emitted := bt_emitted s @ [snapshot (Some peer) (Some destination) (bt_counters s)]\<rparr>
          else s\<lparr>bt_exited := True\<rparr>)"

definition bare_tx_run ::
  "(nat \<Rightarrow> send_env) \<Rightarrow> chan \<Rightarrow> socket_addr \<Rightarrow> string \<Rightarrow> bare_tx_event list \<Rightarrow> bare_tx_state \<Rightarrow> bare_tx_state" where
  "bare_tx_run env udp_tx destination peer evs s = fold (bare_tx_step env udp_tx destination peer) evs s"

definition spawn_bare_tx :: "string \<Rightarrow> chan \<Rightarrow> 't bus \<Rightarrow> 't bus \<times> chan" where
  "spawn_bare_tx peer ctx b = actor_spawn ctx (''bare-tx['' @ peer @ '']'') Restartable b"

definition dial_bare_tx ::
  "sys_calls \<Rightarrow> (sock \<Rightarrow> nat \<Rightarrow> bool \<Rightarrow> (udp_error, udp_rx \<times> udp_tx) result) \<Rightarrow> string option \<Rightarrow> (sock \<Rightarrow> string) \<Rightarrow>
     (ip_addr \<Rightarrow> string option \<Rightarrow> (route_probe_error, string list) result) \<Rightarrow> peer_bare \<Rightarrow> dial_context \<Rightarrow> chan \<Rightarrow> 't bus \<Rightarrow>
     (udp_error, connected_event) result \<times> 't bus" where
  "dial_bare_tx sys udp_init join_failure local_addr probe bare dial ctx b =
     (let destination = (dc_dial_ip dial, udp_port (pbare_endpoint bare)); io = t_io (dc_tuning dial) in
      case make_unbound_udp_socket sys probe destination (Some (dc_tun_if dial)) (pbare_bindif bare) (socket_buffer_bytes io) of
        Err e \<Rightarrow> (Err e, b)
      | Ok socket \<Rightarrow>
          (case on_udp_runtime join_failure (udp_init socket (unat (dc_tun_mtu dial)) (udp_enable_offload io)) of
             Err e \<Rightarrow> (Err e, b)
           | Ok (_, tx) \<Rightarrow>
               (let (b, udp_tx_ref) = actor_spawn ctx (''udp-tx['' @ local_addr (ut_socket tx) @ '']'') Restartable b;
                    (b, bare_tx_ref) = spawn_bare_tx (dc_peer_id dial) ctx b;
                    b = actor_link udp_tx_ref bare_tx_ref b
                in (Ok \<lparr>ce_peer_id = dc_peer_id dial, ce_remote_addr = destination, ce_tx = bare_tx_ref,
                        ce_endpoint = Some (UdpEp (pbare_endpoint bare))\<rparr>, b))))"

section \<open>What the filter lets through\<close>

text \<open>The batches of a run of events whose source is accepted, or not, by the set in force when they arrive.\<close>

fun judged_batches :: "bool \<Rightarrow> ip_addr set \<Rightarrow> 't bare_rx_event list \<Rightarrow> packet list list" where
  "judged_batches verdict acc [] = []"
| "judged_batches verdict acc (FilterBatch (Some (remote, batch)) # evs) =
     (if (fst remote \<in> acc) = verdict then batch # judged_batches verdict acc evs else judged_batches verdict acc evs)"
| "judged_batches verdict acc (FilterInbox (Some (UpdateAcceptedSources sources)) # evs) = judged_batches verdict sources evs"
| "judged_batches verdict acc (ev # evs) = judged_batches verdict acc evs"

definition filter_ends :: "'t bare_rx_event \<Rightarrow> bool" where
  "filter_ends ev \<longleftrightarrow> ev = FilterBatch None \<or> ev = FilterInbox None \<or> ev = FilterInbox (Some Stop) \<or> ev = FilterTick False"

lemma bare_filter_exited: "bf_exited s \<Longrightarrow> bare_filter_run env tx evs s = s"
  by (induction evs arbitrary: s) (simp_all add: bare_filter_run_def bare_filter_step_def)

lemma bare_filter_run_simps [simp]:
  "bare_filter_run env tx [] s = s"
  "bare_filter_run env tx (ev # evs) s = bare_filter_run env tx evs (bare_filter_step env tx ev s)"
  by (simp_all add: bare_filter_run_def)

lemma bare_filter_step_batch:
  "\<not> bf_exited s \<Longrightarrow> bare_filter_step env tx (FilterBatch (Some (remote, batch))) s =
     (if fst remote \<in> bf_accepted s
      then s\<lparr>bf_counters := fold apply_tally (send_tallies (env (sends (bf_out s))) (length batch) (sum_list (map length batch))) (bf_counters s),
             bf_out := sent env tx batch (bf_out s), bf_exited := \<not> accepts (env (sends (bf_out s)))\<rparr>
      else s\<lparr>bf_counters := apply_tally (Dropped DisallowedSource (length batch) (sum_list (map length batch))) (bf_counters s)\<rparr>)"
  by (simp add: bare_filter_step_def batch_stats_def send_and_record_eq)

lemma bare_filter_event_cases:
  assumes "\<not> bf_exited s"
  obtains (batch) remote batch where "ev = FilterBatch (Some (remote, batch))"
  | (update) sources where "ev = FilterInbox (Some (UpdateAcceptedSources sources))"
      "bare_filter_step env tx ev s = s\<lparr>bf_accepted := sources\<rparr>"
  | (other) "\<forall>v acc evs. judged_batches v acc (ev # evs) = judged_batches v acc evs"
      "bf_out (bare_filter_step env tx ev s) = bf_out s" "bf_accepted (bare_filter_step env tx ev s) = bf_accepted s"
      "bf_counters (bare_filter_step env tx ev s) = bf_counters s"
      "bf_exited (bare_filter_step env tx ev s) \<longleftrightarrow> filter_ends ev"
proof (cases ev)
  case (FilterBatch x)
  with that assms show thesis by (cases x) (auto simp: bare_filter_step_def filter_ends_def)
next
  case (FilterInbox x)
  show thesis
  proof (cases x)
    case (Some m)
    with that assms FilterInbox show thesis by (cases m) (auto simp: bare_filter_step_def filter_ends_def)
  qed (use that assms FilterInbox in \<open>auto simp: bare_filter_step_def filter_ends_def\<close>)
next
  case (FilterTick x)
  with that assms show thesis by (cases x) (auto simp: bare_filter_step_def filter_ends_def)
qed

lemma bare_filter_delivers:
  "\<exists>ds. delivered (bf_out (bare_filter_run env tx evs s)) = delivered (bf_out s) @ map (Pair tx) ds \<and>
     prefix ds (judged_batches True (bf_accepted s) evs)"
proof (induction evs arbitrary: s)
  case (Cons ev evs)
  let ?s = "bare_filter_step env tx ev s"
  from Cons [of ?s] obtain ds where ds:
    "delivered (bf_out (bare_filter_run env tx evs ?s)) = delivered (bf_out ?s) @ map (Pair tx) ds"
    "prefix ds (judged_batches True (bf_accepted ?s) evs)" by blast
  show ?case
  proof (cases "bf_exited s")
    case True
    then show ?thesis by (intro exI [of _ "[]"]) (simp only: bare_filter_exited, simp)
  next
    case alive: False
    then show ?thesis
    proof (cases rule: bare_filter_event_cases [where s = s and ev = ev and env = env and tx = tx])
      case (batch remote batch)
      show ?thesis
      proof (cases "fst remote \<in> bf_accepted s \<and> \<not> accepts (env (sends (bf_out s)))")
        case True
        then have "bf_exited ?s" "bf_out ?s = sent env tx batch (bf_out s)"
          using alive batch by (simp_all add: bare_filter_step_batch)
        with True batch show ?thesis by (intro exI [of _ "[]"]) (simp add: bare_filter_exited sent_def)
      next
        case False
        with ds alive batch show ?thesis
          by (intro exI [of _ "if fst remote \<in> bf_accepted s then batch # ds else ds"])
            (cases "fst remote \<in> bf_accepted s"; simp add: bare_filter_step_batch sent_def)
      qed
    next
      case (update sources)
      with ds show ?thesis by (intro exI [of _ ds]) simp
    next
      case other
      with ds show ?thesis by (intro exI [of _ ds]) simp
    qed
  qed
qed simp

lemma bare_filter_complete:
  assumes "\<forall>n. accepts (env n)" "\<forall>ev\<in>set evs. \<not> filter_ends ev" "\<not> bf_exited s"
  shows "\<exists>ts. delivered (bf_out (bare_filter_run env tx evs s)) =
      delivered (bf_out s) @ map (Pair tx) (judged_batches True (bf_accepted s) evs) \<and>
    \<not> bf_exited (bare_filter_run env tx evs s) \<and> bf_counters (bare_filter_run env tx evs s) = fold apply_tally ts (bf_counters s) \<and>
    sum_list (map (success_amount (\<lambda>n b. n)) ts) = sum_list (map length (judged_batches True (bf_accepted s) evs)) \<and>
    sum_list (map (drop_amount (\<lambda>n b. n) ((=) DisallowedSource)) ts) = sum_list (map length (judged_batches False (bf_accepted s) evs))"
  using assms(2,3)
proof (induction evs arbitrary: s)
  case Nil
  then show ?case by (intro exI [of _ "[]"]) simp
next
  case (Cons ev evs)
  let ?s = "bare_filter_step env tx ev s"
  show ?case
    using \<open>\<not> bf_exited s\<close>
  proof (cases rule: bare_filter_event_cases [where s = s and ev = ev and env = env and tx = tx])
    case (batch remote batch)
    have "\<not> bf_exited ?s" using batch Cons.prems assms(1) by (simp add: bare_filter_step_batch)
    from Cons.IH [OF _ this] Cons.prems(1) obtain ts where ts:
      "delivered (bf_out (bare_filter_run env tx evs ?s)) = delivered (bf_out ?s) @ map (Pair tx) (judged_batches True (bf_accepted ?s) evs)"
      "\<not> bf_exited (bare_filter_run env tx evs ?s)" "bf_counters (bare_filter_run env tx evs ?s) = fold apply_tally ts (bf_counters ?s)"
      "sum_list (map (success_amount (\<lambda>n b. n)) ts) = sum_list (map length (judged_batches True (bf_accepted ?s) evs))"
      "sum_list (map (drop_amount (\<lambda>n b. n) ((=) DisallowedSource)) ts) = sum_list (map length (judged_batches False (bf_accepted ?s) evs))"
      by auto
    let ?here = "if fst remote \<in> bf_accepted s
      then send_tallies (env (sends (bf_out s))) (length batch) (sum_list (map length batch))
      else [Dropped DisallowedSource (length batch) (sum_list (map length batch))]"
    show ?thesis
      using ts batch Cons.prems assms(1)
      by (intro exI [of _ "?here @ ts"]) (auto simp: bare_filter_step_batch sent_def)
  next
    case (update sources)
    with Cons.IH [of ?s] Cons.prems show ?thesis by auto
  next
    case other
    with Cons.IH [of ?s] Cons.prems show ?thesis by auto
  qed
qed

section \<open>Properties\<close>

text \<open>C33: Only batches of accepted source addresses reach the router. What the filter hands on over any run of events is
  a prefix of the batches whose source was in the set in force when they arrived, in order and unchanged. While
  the router takes them and nothing ends the actor, it is all of them, and the counters of a new
  actor show every passed packet as a success and every other one as dropped for its source.\<close>

theorem bare_filter_exact:
  fixes filt :: bare_rx and evs :: "'t bare_rx_event list"
  shows "(\<exists>ds. delivered (bf_out (bare_filter_run env tx evs (bare_filter_init filt))) = map (Pair tx) ds \<and>
     prefix ds (judged_batches True (br_accepted_sources filt) evs)) \<and>
   ((\<forall>n. accepts (env n)) \<and> (\<forall>ev\<in>set evs. \<not> filter_ends ev) \<and>
    sum_list (map length (judged_batches True (br_accepted_sources filt) evs)) \<le> u64_max \<and>
    sum_list (map length (judged_batches False (br_accepted_sources filt) evs)) \<le> u64_max \<longrightarrow>
    delivered (bf_out (bare_filter_run env tx evs (bare_filter_init filt))) =
      map (Pair tx) (judged_batches True (br_accepted_sources filt) evs) \<and>
    packets (succeeded (c_stats (bf_counters (bare_filter_run env tx evs (bare_filter_init filt))))) =
      sum_list (map length (judged_batches True (br_accepted_sources filt) evs)) \<and>
    packets (drop_reasons (c_stats (bf_counters (bare_filter_run env tx evs (bare_filter_init filt)))) DisallowedSource) =
      sum_list (map length (judged_batches False (br_accepted_sources filt) evs)))"
proof (intro conjI impI)
  let ?s = "bare_filter_init filt"
  have init: "delivered (bf_out ?s) = []" "bf_accepted ?s = br_accepted_sources filt" "\<not> bf_exited ?s"
      "bf_counters ?s = counters_new BareUdp Rx"
    by (simp_all add: bare_filter_init_def)
  show "\<exists>ds. delivered (bf_out (bare_filter_run env tx evs ?s)) = map (Pair tx) ds \<and>
      prefix ds (judged_batches True (br_accepted_sources filt) evs)"
    using bare_filter_delivers [of env tx evs ?s] init by simp
  assume h: "(\<forall>n. accepts (env n)) \<and> (\<forall>ev\<in>set evs. \<not> filter_ends ev) \<and>
    sum_list (map length (judged_batches True (br_accepted_sources filt) evs)) \<le> u64_max \<and>
    sum_list (map length (judged_batches False (br_accepted_sources filt) evs)) \<le> u64_max"
  then obtain ts where ts: "delivered (bf_out (bare_filter_run env tx evs ?s)) = map (Pair tx) (judged_batches True (br_accepted_sources filt) evs)"
    "bf_counters (bare_filter_run env tx evs ?s) = fold apply_tally ts (counters_new BareUdp Rx)"
    "sum_list (map (success_amount (\<lambda>n b. n)) ts) = sum_list (map length (judged_batches True (br_accepted_sources filt) evs))"
    "sum_list (map (drop_amount (\<lambda>n b. n) ((=) DisallowedSource)) ts) = sum_list (map length (judged_batches False (br_accepted_sources filt) evs))"
    using bare_filter_complete [of env evs ?s tx] init by auto
  have zero: "packets (succeeded stats_default) = 0" "packets (drop_reasons stats_default DisallowedSource) = 0"
    by (simp_all add: stats_default_def zero_pkt_def)
  show "delivered (bf_out (bare_filter_run env tx evs ?s)) = map (Pair tx) (judged_batches True (br_accepted_sources filt) evs)"
    by (rule ts(1))
  show "packets (succeeded (c_stats (bf_counters (bare_filter_run env tx evs ?s)))) =
      sum_list (map length (judged_batches True (br_accepted_sources filt) evs))"
    using pkts.succeeded_fold [of "counters_new BareUdp Rx" ts] h ts(2,3) zero by simp
  show "packets (drop_reasons (c_stats (bf_counters (bare_filter_run env tx evs ?s))) DisallowedSource) =
      sum_list (map length (judged_batches False (br_accepted_sources filt) evs))"
    using pkts.reason_fold [of "counters_new BareUdp Rx" DisallowedSource ts] h ts(2,4) zero by simp
qed

theorem bare_filter_exact_witness:
  "delivered (bf_out (bare_filter_run (\<lambda>_. \<lparr>try_answer = TrySent, send_answer = Some 0\<rparr>) 3
     [FilterBatch (Some ((V4 1, 9), [[1]])), FilterInbox (Some (UpdateAcceptedSources {V4 2}) :: unit event option),
      FilterBatch (Some ((V4 1, 9), [[2]])), FilterBatch (Some ((V4 2, 9), [[3]]))]
     (bare_filter_init \<lparr>br_accepted_sources = {V4 1}, br_ingress_tx = 3, br_metrics_interval = 1\<rparr>))) = [(3, [[1]]), (3, [[3]])]"
  using bare_filter_exact [of "\<lambda>_. \<lparr>try_answer = TrySent, send_answer = Some 0\<rparr>" 3
      "[FilterBatch (Some ((V4 1, 9), [[1]])), FilterInbox (Some (UpdateAcceptedSources {V4 2}) :: unit event option),
        FilterBatch (Some ((V4 1, 9), [[2]])), FilterBatch (Some ((V4 2, 9), [[3]]))]"
      "\<lparr>br_accepted_sources = {V4 1}, br_ingress_tx = 3, br_metrics_interval = 1\<rparr>"]
  by (simp add: accepts_def filter_ends_def u64_max_def)

end
