(* ===== verification/Auth.thy ===== *)
theory Auth
  imports Config
begin

text \<open>
  Bearer authentication of CONNECT-IP requests: \<open>auth.rs\<close>, the request the dialer sends and the two
  header checks of the listener. The MAC is the parameter \<open>hmac_lib\<close>; that distinct tokens have
  distinct digests under the key of the call is the hypothesis \<open>collision_free\<close>.
\<close>

section \<open>Tokens\<close>

datatype auth_error = MissingHeader | NotBearer | EmptyToken | InvalidToken

fun show_auth_error :: "auth_error \<Rightarrow> string" where
  "show_auth_error MissingHeader = ''missing Authorization header''"
| "show_auth_error NotBearer = ''not Bearer auth''"
| "show_auth_error EmptyToken = ''empty token''"
| "show_auth_error InvalidToken = ''unknown peer or invalid token''"

definition bearer_auth_header :: "string \<Rightarrow> string" where
  "bearer_auth_header token = ''Bearer '' @ token"

record ('k, 'd) hmac_lib =
  mac :: "string \<Rightarrow> 'k \<Rightarrow> 'd"
  verify_mac :: "string \<Rightarrow> 'k \<Rightarrow> 'd \<Rightarrow> bool"

definition hmac_ok :: "('k, 'd) hmac_lib \<Rightarrow> bool" where
  "hmac_ok H \<longleftrightarrow> (\<forall>m k d. verify_mac H m k d \<longleftrightarrow> mac H m k = d)"

definition collision_free :: "('k, 'd) hmac_lib \<Rightarrow> 'k \<Rightarrow> string set \<Rightarrow> bool" where
  "collision_free H key S = inj_on (\<lambda>t. mac H t key) S"

text \<open>\<open>tokens\<close> lists the pairs in the iteration order of the map; \<open>key\<close> is the random key.\<close>

fun find_token :: "('k, 'd) hmac_lib \<Rightarrow> 'k \<Rightarrow> 'd \<Rightarrow> (string \<times> string) list \<Rightarrow> string option" where
  "find_token H key presented [] = None"
| "find_token H key presented ((pid, ptok) # rest) =
     (if verify_mac H ptok key presented then Some pid else find_token H key presented rest)"

definition validate_connect_auth ::
  "('k, 'd) hmac_lib \<Rightarrow> 'k \<Rightarrow> string option \<Rightarrow> (string \<times> string) list \<Rightarrow> (auth_error, string) result" where
  "validate_connect_auth H key hdr tokens =
     (case hdr of
        None \<Rightarrow> Err MissingHeader
      | Some header \<Rightarrow>
          (case strip_prefix header ''Bearer '' of
             None \<Rightarrow> Err NotBearer
           | Some token \<Rightarrow>
               if token = [] then Err EmptyToken
               else let presented_mac = mac H token key in
                 case find_token H key presented_mac tokens of
                   Some pid \<Rightarrow> Ok pid
                 | None \<Rightarrow> Err InvalidToken))"

section \<open>Requests\<close>

type_synonym header = "string \<times> string"

definition header_value :: "(string \<Rightarrow> bool) \<Rightarrow> header list \<Rightarrow> string option" where
  "header_value P headers = map_option snd (find (\<lambda>h. P (fst h)) headers)"

definition eq_ignore_ascii_case :: "string \<Rightarrow> string \<Rightarrow> bool" where
  "eq_ignore_ascii_case a b = (to_ascii_lowercase a = to_ascii_lowercase b)"

definition validate_server_connect_headers :: "header list \<Rightarrow> (string, unit) result" where
  "validate_server_connect_headers headers =
     (if header_value (\<lambda>n. n = '':method'') headers \<noteq> Some ''CONNECT''
      then Err ''invalid :method, expected CONNECT''
      else if header_value (\<lambda>n. n = '':protocol'') headers \<noteq> Some ''connect-ip''
      then Err ''invalid :protocol, expected connect-ip''
      else if header_value (\<lambda>n. eq_ignore_ascii_case n ''capsule-protocol'') headers \<noteq> Some ''?1''
      then Err ''invalid capsule-protocol, expected ?1''
      else Ok ())"

definition validate_server_auth ::
  "('k, 'd) hmac_lib \<Rightarrow> 'k \<Rightarrow> header list \<Rightarrow> (string \<times> string) list \<Rightarrow> (string, string) result" where
  "validate_server_auth H key headers tokens =
     (let auth_value = map_option from_utf8_lossy
            (header_value (\<lambda>n. eq_ignore_ascii_case n ''authorization'') headers)
      in case validate_connect_auth H key auth_value tokens of
           Ok pid \<Rightarrow> Ok pid
         | Err reason \<Rightarrow> Err (show_auth_error reason))"

text \<open>The headers of \<open>send_connect_request\<close>, and the authority \<open>dial_h3_client\<close> passes to it.\<close>

definition connect_headers :: "string \<Rightarrow> string \<Rightarrow> string \<Rightarrow> header list" where
  "connect_headers authority connect_path auth_header =
     [('':method'', ''CONNECT''), ('':protocol'', ''connect-ip''), ('':scheme'', ''https''),
      ('':authority'', authority), ('':path'', connect_path), (''capsule-protocol'', ''?1''),
      (''authorization'', auth_header)]"

definition dial_authority :: "h3_endpoint \<Rightarrow> string" where
  "dial_authority ep =
     (if h3e_port ep = 443 then h3e_host ep
      else h3e_host ep @ '':'' @ decimal (unat (h3e_port ep)))"

definition client_request :: "h3_endpoint \<Rightarrow> string \<Rightarrow> header list" where
  "client_request ep token = connect_headers (dial_authority ep) (h3e_path ep) (bearer_auth_header token)"

section \<open>Lemmas\<close>

lemma strip_bearer [simp]: "strip_prefix (bearer_auth_header t) ''Bearer '' = Some t"
  unfolding bearer_auth_header_def by (rule strip_prefix_append)

lemma bearer_inj [simp]: "bearer_auth_header t = bearer_auth_header u \<longleftrightarrow> t = u"
  by (simp add: bearer_auth_header_def)

lemma strip_bearer_Some: "strip_prefix h ''Bearer '' = Some t \<longleftrightarrow> h = bearer_auth_header t"
  unfolding bearer_auth_header_def by (rule strip_prefix_Some)

lemma find_token_eq:
  assumes "hmac_ok H" "collision_free H key (insert t (snd ` set tokens))"
  shows "find_token H key (mac H t key) tokens = map_option fst (find (\<lambda>(p, u). u = t) tokens)"
  using assms(2)
proof (induction tokens)
  case (Cons pu tokens)
  obtain p u where pu: "pu = (p, u)" by (cases pu)
  have "verify_mac H u key (mac H t key) \<longleftrightarrow> u = t"
    using assms(1) Cons.prems by (auto simp: hmac_ok_def collision_free_def pu inj_on_def)
  moreover have "collision_free H key (insert t (snd ` set tokens))"
    using Cons.prems by (auto simp: collision_free_def intro: inj_on_subset)
  ultimately show ?case using Cons.IH by (simp add: pu)
qed simp

lemma find_distinct_snd:
  "distinct (map snd xs) \<Longrightarrow> find (\<lambda>(p, u). u = t) xs = Some y \<longleftrightarrow> y \<in> set xs \<and> snd y = t"
  by (induction xs) (auto split: if_splits prod.splits)

lemma validate_connect_auth_iff:
  assumes "hmac_ok H" "distinct (map snd tokens)"
    "\<And>t. hdr = Some (bearer_auth_header t) \<Longrightarrow> collision_free H key (insert t (snd ` set tokens))"
  shows "validate_connect_auth H key hdr tokens = Ok pid \<longleftrightarrow>
    (\<exists>t. hdr = Some (bearer_auth_header t) \<and> t \<noteq> [] \<and> (pid, t) \<in> set tokens)"
proof (cases "\<exists>t. hdr = Some (bearer_auth_header t) \<and> t \<noteq> []")
  case True
  then obtain t where t: "hdr = Some (bearer_auth_header t)" "t \<noteq> []" by blast
  have "validate_connect_auth H key hdr tokens = Ok pid \<longleftrightarrow> (\<exists>u. find (\<lambda>(p, u). u = t) tokens = Some (pid, u))"
    using t find_token_eq [OF assms(1) assms(3) [OF t(1)]]
    by (auto simp: validate_connect_auth_def Let_def split: option.split)
  also have "\<dots> \<longleftrightarrow> (pid, t) \<in> set tokens"
    using find_distinct_snd [OF assms(2)] by auto
  finally show ?thesis using t by auto
next
  case False
  then show ?thesis
    by (auto simp: validate_connect_auth_def Let_def strip_bearer_Some split: option.splits if_splits)
qed

text \<open>The token map the listener builds from the peers, in any iteration order.\<close>

definition token_pairs :: "peer list \<Rightarrow> (string \<times> string) list" where
  "token_pairs ps = List.map_filter (\<lambda>p. map_option (\<lambda>t. (peer_id p, t)) (peer_token p)) ps"

lemma token_pairs_snd: "map snd (token_pairs ps) = peer_tokens ps"
  by (induction ps) (auto simp: token_pairs_def peer_tokens_def List.map_filter_simps split: option.split)

lemma token_pairs_mem: "(i, t) \<in> set (token_pairs ps) \<longleftrightarrow> (\<exists>p\<in>set ps. peer_id p = i \<and> peer_token p = Some t)"
  by (induction ps) (auto simp: token_pairs_def List.map_filter_simps split: option.split)

lemma client_request_headers:
  "validate_server_connect_headers (client_request ep t) = Ok ()"
  "header_value (\<lambda>n. eq_ignore_ascii_case n ''authorization'') (client_request ep t) = Some (bearer_auth_header t)"
  by (simp_all add: validate_server_connect_headers_def client_request_def connect_headers_def header_value_def
      eq_ignore_ascii_case_def to_ascii_lowercase_def byte_of_def)

section \<open>Properties\<close>

text \<open>C12: Bearer authentication is sound and complete. With pairwise distinct configured tokens, and a
  MAC without collisions among the presented and the configured tokens, a request is attributed to a
  peer exactly when its \<open>Authorization\<close> header is \<open>Bearer\<close> followed by the non-empty token of that
  peer, whatever the iteration order of the token map.\<close>

theorem connect_auth_sound_complete:
  assumes "hmac_ok H" "distinct (map snd tokens)"
    "\<forall>t. hdr = Some (bearer_auth_header t) \<longrightarrow> collision_free H key (insert t (snd ` set tokens))"
  shows "validate_connect_auth H key hdr tokens = Ok pid \<longleftrightarrow>
    (\<exists>t. hdr = Some (bearer_auth_header t) \<and> t \<noteq> [] \<and> (pid, t) \<in> set tokens)"
  using assms by (intro validate_connect_auth_iff) blast+

definition hmac_ref :: "(unit, string) hmac_lib" where
  "hmac_ref = \<lparr>mac = (\<lambda>m k. m), verify_mac = (\<lambda>m k d. m = d)\<rparr>"

lemma hmac_ref_ok: "hmac_ok hmac_ref"
  by (simp add: hmac_ok_def hmac_ref_def)

lemma hmac_ref_collision_free: "collision_free hmac_ref k S"
  by (simp add: collision_free_def hmac_ref_def inj_on_def)

theorem connect_auth_sound_complete_witness:
  "validate_connect_auth hmac_ref () (Some ''Bearer tokenB'') [(''a'', ''tokenA''), (''b'', ''tokenB'')] = Ok ''b''"
  using connect_auth_sound_complete [OF hmac_ref_ok, of "[(''a'', ''tokenA''), (''b'', ''tokenB'')]"
      "Some ''Bearer tokenB''" "()" "''b''"]
  by (simp add: hmac_ref_collision_free bearer_auth_header_def)

text \<open>C25: The two ends of the CONNECT-IP handshake agree. For every validated peer list, the request
  that the dialer builds from a peer's token passes the listener's header check and is authenticated
  as that peer, for any endpoint and any iteration order of the listener's token map, when the token is
  ASCII.\<close>

theorem connect_request_authenticated:
  assumes "hmac_ok H" "peers_valid peers" "p \<in> set peers" "peer_token p = Some t"
    "\<forall>c\<in>set t. byte_of c < 128"
    "set tokens = set (token_pairs peers)" "distinct (map snd tokens)"
    "collision_free H key (set (peer_tokens peers))"
  shows "validate_server_connect_headers (client_request ep t) = Ok () \<and>
    validate_server_auth H key (client_request ep t) tokens = Ok (peer_id p)"
proof -
  have "12 \<le> length t"
    using assms(2-4) by (auto simp: peers_valid_def peer_fields_ok_def peer_h3_fields_ok_def peer_token_def
        split: peer_transport.splits)
  then have "t \<noteq> []" by auto
  have pt: "(peer_id p, t) \<in> set tokens"
    using assms(3,4,6) by (auto simp: token_pairs_mem)
  have "snd ` set tokens = set (peer_tokens peers)"
    using assms(6) token_pairs_snd [of peers] by (metis set_map)
  then have "collision_free H key (insert t (snd ` set tokens))"
    using assms(8) pt by (metis imageI insert_absorb snd_conv)
  then have "validate_connect_auth H key (Some (bearer_auth_header t)) tokens = Ok (peer_id p)"
    using validate_connect_auth_iff [OF assms(1,7), of "Some (bearer_auth_header t)" key "peer_id p"] pt \<open>t \<noteq> []\<close>
    by auto
  moreover have "from_utf8_lossy (bearer_auth_header t) = bearer_auth_header t"
    using assms(5) by (intro from_utf8_lossy_ascii) (auto simp: bearer_auth_header_def byte_of_def)
  ultimately show ?thesis
    by (simp add: client_request_headers validate_server_auth_def)
qed

definition sample_h3_peer :: peer where
  "sample_h3_peer = \<lparr>peer_id = ''a'', peer_transport = H3 \<lparr>ph3_endpoint = None, ph3_token = ''secret-token'',
     ph3_bindif = None, ph3_sni = None\<rparr>, peer_tun = \<lparr>allowed_ips = [NetV4 0x0A000000 8]\<rparr>\<rparr>"

theorem connect_request_authenticated_witness:
  "validate_server_auth hmac_ref () (client_request \<lparr>h3e_host = ''h'', h3e_port = 8443, h3e_path = ''/''\<rparr> ''secret-token'')
     [(''a'', ''secret-token'')] = Ok ''a''"
proof -
  have "peers_valid [sample_h3_peer]"
    unfolding validate_peers_iff [symmetric] by code_simp
  moreover have "peer_token sample_h3_peer = Some ''secret-token''" "peer_id sample_h3_peer = ''a''"
    by (simp_all add: sample_h3_peer_def peer_token_def)
  ultimately show ?thesis
    using connect_request_authenticated [OF hmac_ref_ok, of "[sample_h3_peer]" sample_h3_peer "''secret-token''"
        "[(''a'', ''secret-token'')]" "()" "\<lparr>h3e_host = ''h'', h3e_port = 8443, h3e_path = ''/''\<rparr>"]
    by (simp add: hmac_ref_collision_free token_pairs_def List.map_filter_simps byte_of_def)
qed

end
