(* ===== verification/Quic.thy ===== *)
theory Quic
  imports Auth Helpers
begin

text \<open>
  The interface to \<open>quiche\<close>. A QUIC connection with its HTTP/3 layer is a state of the parameter type
  \<open>'q\<close>; the operations the program calls are the fields of \<open>quic_lib\<close>, each with the connection it
  leaves behind. The predicates below say what the documentation promises of them where a theorem
  needs it. The crate \<open>octets\<close> is the parameter \<open>octets_lib\<close>, with the laws of the variable-length
  integers of RFC 9000 and a reference instance.
\<close>

section \<open>Connections\<close>

datatype h3_event =
    Headers "header list"
  | Finished
  | Reset nat
  | GoAway
  | PriorityUpdate
  | DataEvent

datatype h3_error = H3Done | H3Other string

datatype quic_error = QuicDone | QuicOther string

record recv_info =
  ri_from :: socket_addr
  ri_to :: socket_addr

record 'q quic_lib =
  q_recv :: "u8 list \<Rightarrow> recv_info \<Rightarrow> 'q \<Rightarrow> 'q \<times> (quic_error, nat) result"
  q_recv_queue_full :: "'q \<Rightarrow> bool"
  q_dgram_recv :: "nat \<Rightarrow> 'q \<Rightarrow> 'q \<times> (quic_error, u8 list) result"
  q_dgram_send :: "u8 list \<Rightarrow> 'q \<Rightarrow> 'q \<times> (quic_error, unit) result"
  q_send :: "nat \<Rightarrow> 'q \<Rightarrow> 'q \<times> (quic_error, u8 list \<times> socket_addr) result"
  q_timeout :: "'q \<Rightarrow> duration option"
  q_on_timeout :: "'q \<Rightarrow> 'q"
  q_ack_eliciting :: "'q \<Rightarrow> 'q"
  q_close :: "string \<Rightarrow> 'q \<Rightarrow> 'q"
  q_is_closed :: "'q \<Rightarrow> bool"
  q_is_established :: "'q \<Rightarrow> bool"
  q_stream_shutdown :: "u64 \<Rightarrow> 'q \<Rightarrow> 'q"
  q_dgram_enabled :: "'q \<Rightarrow> bool"
  h3_config_new :: "(string, unit) result"
  h3_with_transport :: "'q \<Rightarrow> 'q \<times> (string, unit) result"
  h3_poll :: "'q \<Rightarrow> 'q \<times> (h3_error, u64 \<times> h3_event) result"
  h3_send_response :: "u64 \<Rightarrow> header list \<Rightarrow> bool \<Rightarrow> 'q \<Rightarrow> 'q \<times> (string, unit) result"
  h3_send_request :: "header list \<Rightarrow> bool \<Rightarrow> 'q \<Rightarrow> 'q \<times> (string, u64) result"

section \<open>Variable-length integers\<close>

record octets_lib =
  varint_len :: "nat \<Rightarrow> nat"
  varint_parse_len :: "u8 \<Rightarrow> nat"
  put_varint :: "nat \<Rightarrow> u8 list \<Rightarrow> u8 list option"
  get_varint :: "u8 list \<Rightarrow> nat option"

text \<open>
  A value below \<open>2 ^ 62\<close> is written to the front of a buffer that is long enough, in 1, 2, 4 or 8
  bytes; the first byte gives the length; reading takes that many bytes, and the encoding of a given
  length is unique.
\<close>

definition octets_ok :: "octets_lib \<Rightarrow> bool" where
  "octets_ok V \<longleftrightarrow>
     (\<forall>v. v < 2 ^ 62 \<longrightarrow> 1 \<le> varint_len V v \<and> varint_len V v \<le> 8) \<and>
     (\<forall>v buf. v < 2 ^ 62 \<longrightarrow> varint_len V v \<le> length buf \<longrightarrow>
        (\<exists>enc. length enc = varint_len V v \<and> put_varint V v buf = Some (enc @ drop (length enc) buf) \<and>
           varint_parse_len V (hd enc) = length enc \<and> (\<forall>rest. get_varint V (enc @ rest) = Some v))) \<and>
     (\<forall>buf v. buf \<noteq> [] \<longrightarrow> varint_parse_len V (hd buf) \<le> length buf \<longrightarrow> get_varint V buf = Some v \<longrightarrow>
        v < 2 ^ 62 \<and>
        (varint_parse_len V (hd buf) = varint_len V v \<longrightarrow>
           put_varint V v (replicate 8 0) =
             Some (take (varint_len V v) buf @ replicate (8 - varint_len V v) 0)))"

definition vlen :: "nat \<Rightarrow> nat" where
  "vlen v = (if v < 2 ^ 6 then 1 else if v < 2 ^ 14 then 2 else if v < 2 ^ 30 then 4 else 8)"

definition vtag :: "nat \<Rightarrow> nat" where
  "vtag n = (if n = 1 then 0 else if n = 2 then 1 else if n = 4 then 2 else 3)"

definition vtag_len :: "nat \<Rightarrow> nat" where
  "vtag_len t = (if t = 0 then 1 else if t = 1 then 2 else if t = 2 then 4 else 8)"

definition venc :: "nat \<Rightarrow> u8 list" where
  "venc v = nat_be (vlen v) (vtag (vlen v) * 2 ^ (8 * vlen v - 2) + v)"

definition octets_ref :: octets_lib where
  "octets_ref = \<lparr>
     varint_len = vlen,
     varint_parse_len = (\<lambda>b. vtag_len (unat b div 64)),
     put_varint = (\<lambda>v buf. if v < 2 ^ 62 \<and> vlen v \<le> length buf then Some (venc v @ drop (vlen v) buf) else None),
     get_varint = (\<lambda>buf. case buf of [] \<Rightarrow> None | b # _ \<Rightarrow>
       (let n = vtag_len (unat b div 64) in
        if length buf < n then None else Some (be_nat (take n buf) mod 2 ^ (8 * n - 2))))\<rparr>"

lemma length_nat_be [simp]: "length (nat_be n v) = n"
  by (induction n arbitrary: v) simp_all

lemma be_nat_nat_be: "be_nat (nat_be n v) = v mod 256 ^ n"
proof (induction n arbitrary: v)
  case (Suc n)
  have "unat (word_of_nat (v mod 256) :: u8) = v mod 256"
    by (rule unat_of_nat_small) simp
  then have "be_nat (nat_be (Suc n) v) = (v div 256) mod 256 ^ n * 256 + v mod 256"
    by (simp add: Suc)
  also have "\<dots> = v mod (256 * 256 ^ n)"
    by (simp add: mod_mult2_eq mult.commute add.commute)
  finally show ?case by simp
qed simp

lemma be_nat_Cons: "be_nat (b # bs) = unat b * 256 ^ length bs + be_nat bs"
proof (induction bs rule: rev_induct)
  case Nil
  then show ?case by (simp add: be_nat_def)
next
  case (snoc c cs)
  have "be_nat (b # cs @ [c]) = be_nat (b # cs) * 256 + unat c"
    using be_nat_snoc [of "b # cs" c] by simp
  then show ?case using snoc by (simp add: algebra_simps)
qed

lemma be_nat_tag: "be_nat (b # bs) div 2 ^ (8 * Suc (length bs) - 2) = unat b div 64"
proof -
  have "(2 :: nat) ^ (8 * Suc (length bs) - 2) = 2 ^ (8 * length bs + 6)"
    by (simp add: numeral_eq_Suc)
  also have "\<dots> = 256 ^ length bs * 64"
    by (simp add: power_add power_mult)
  finally have "be_nat (b # bs) div 2 ^ (8 * Suc (length bs) - 2) = be_nat (b # bs) div 256 ^ length bs div 64"
    by (simp add: div_mult2_eq)
  also have "be_nat (b # bs) div 256 ^ length bs = unat b"
    using be_nat_less [of bs] by (simp add: be_nat_Cons)
  finally show ?thesis .
qed

lemma vlen_cases:
  assumes "v < 2 ^ 62"
  shows "vlen v \<in> {1, 2, 4, 8}" "v < 2 ^ (8 * vlen v - 2)" "vtag_len (vtag (vlen v)) = vlen v" "vtag (vlen v) < 4"
  using assms by (auto simp: vlen_def vtag_def vtag_len_def)

lemma venc_value:
  assumes "v < 2 ^ 62"
  shows "be_nat (venc v) = vtag (vlen v) * 2 ^ (8 * vlen v - 2) + v"
proof -
  note c = vlen_cases [OF assms]
  have "(256 :: nat) ^ vlen v = 4 * 2 ^ (8 * vlen v - 2)"
    using c(1) by auto
  moreover have "vtag (vlen v) * 2 ^ (8 * vlen v - 2) + v < 4 * 2 ^ (8 * vlen v - 2)"
  proof -
    have "vtag (vlen v) * 2 ^ (8 * vlen v - 2) + v < Suc (vtag (vlen v)) * 2 ^ (8 * vlen v - 2)"
      using c(2) by simp
    also have "\<dots> \<le> 4 * 2 ^ (8 * vlen v - 2)"
      using c(4) by (intro mult_right_mono) simp_all
    finally show ?thesis .
  qed
  ultimately show ?thesis by (simp add: venc_def be_nat_nat_be)
qed

lemma venc_hd:
  assumes "v < 2 ^ 62"
  shows "vtag_len (unat (hd (venc v)) div 64) = vlen v" "venc v \<noteq> []" "length (venc v) = vlen v"
proof -
  note c = vlen_cases [OF assms]
  show len: "length (venc v) = vlen v" by (simp add: venc_def)
  with c(1) show "venc v \<noteq> []" by auto
  then obtain b bs where bb: "venc v = b # bs" by (cases "venc v") auto
  with len have "Suc (length bs) = vlen v" by simp
  then have "unat b div 64 = vtag (vlen v)"
    using be_nat_tag [of b bs] venc_value [OF assms] c(2) unfolding bb by simp
  then show "vtag_len (unat (hd (venc v)) div 64) = vlen v"
    using c(3) by (simp add: bb)
qed

text \<open>A buffer whose tag announces the length of its value starts with the encoding of that value.\<close>

lemma venc_unique:
  assumes "take n buf = b # bs" "length (take n buf) = n" "n = vtag_len (unat b div 64)"
    "v = be_nat (take n buf) mod 2 ^ (8 * n - 2)" "n = vlen v"
  shows "take n buf = venc v"
proof -
  have n: "n = Suc (length bs)" using assms(1,2) by simp
  have "unat b div 64 < 4" using unat_u8_less [of b] by linarith
  then have tag: "unat b div 64 = vtag n"
    using assms(3) by (auto simp: vtag_len_def vtag_def split: if_splits)
  have "be_nat (take n buf) = be_nat (take n buf) div 2 ^ (8 * n - 2) * 2 ^ (8 * n - 2) + v"
    unfolding assms(4) by (rule div_mult_mod_eq [symmetric])
  also have "be_nat (take n buf) div 2 ^ (8 * n - 2) = vtag n"
    using be_nat_tag [of b bs] assms(1) n tag by simp
  finally have "nat_be (length (take n buf)) (be_nat (take n buf)) = venc v"
    using assms(2,5) by (simp add: venc_def)
  then show ?thesis by (simp only: nat_be_be_nat)
qed

lemma vtag_len_range: "vtag_len t \<in> {1, 2, 4, 8}"
  by (simp add: vtag_len_def)

lemma octets_ref_ok: "octets_ok octets_ref"
proof -
  have enc: "\<exists>enc. length enc = vlen v \<and> put_varint octets_ref v buf = Some (enc @ drop (length enc) buf) \<and>
      varint_parse_len octets_ref (hd enc) = length enc \<and> (\<forall>rest. get_varint octets_ref (enc @ rest) = Some v)"
    if v: "v < 2 ^ 62" and len: "vlen v \<le> length buf" for v buf
  proof (intro exI conjI allI)
    show "get_varint octets_ref (venc v @ rest) = Some v" for rest
      using venc_hd [OF v] venc_value [OF v] vlen_cases [OF v]
      by (auto simp: octets_ref_def Let_def neq_Nil_conv)
  qed (use v len venc_hd [OF v] in \<open>simp_all add: octets_ref_def\<close>)
  have dec: "v < 2 ^ 62 \<and> (varint_parse_len octets_ref (hd buf) = vlen v \<longrightarrow>
      put_varint octets_ref v (replicate 8 0) = Some (take (vlen v) buf @ replicate (8 - vlen v) 0))"
    if "buf \<noteq> []" "varint_parse_len octets_ref (hd buf) \<le> length buf" "get_varint octets_ref buf = Some v" for buf v
  proof -
    obtain b rest where buf: "buf = b # rest" using \<open>buf \<noteq> []\<close> by (cases buf) auto
    define n where "n = vtag_len (unat b div 64)"
    have n: "n \<in> {1, 2, 4, 8}" unfolding n_def by (rule vtag_len_range)
    have len: "n \<le> length buf" using that(2) by (simp add: octets_ref_def buf n_def)
    have v: "v = be_nat (take n buf) mod 2 ^ (8 * n - 2)"
      using that(3) len by (simp add: octets_ref_def buf n_def Let_def)
    have "(2 :: nat) ^ (8 * n - 2) \<le> 2 ^ 62" using n by auto
    moreover have "v < 2 ^ (8 * n - 2)" unfolding v by simp
    ultimately have small: "v < 2 ^ 62" by linarith
    moreover have "take n buf = venc v" if "n = vlen v"
    proof (rule venc_unique)
      show "take n buf = b # take (n - 1) rest" using n by (auto simp: buf numeral_eq_Suc)
    qed (use len v that in \<open>simp_all add: n_def\<close>)
    moreover have "varint_parse_len octets_ref (hd buf) = n" by (simp add: octets_ref_def buf n_def)
    moreover have "vlen v \<le> 8" using vlen_cases(1) [OF small] by auto
    ultimately show ?thesis by (auto simp: octets_ref_def)
  qed
  show ?thesis
    unfolding octets_ok_def using enc dec vlen_cases(1) by (fastforce simp: octets_ref_def)
qed

section \<open>A reference connection\<close>

text \<open>
  A connection without a network: what is received is queued as datagrams, what is sent goes out as
  it is, and the HTTP/3 events are given in advance. It is a concrete instance of the interface.
\<close>

record ref_conn =
  rc_in :: "u8 list list"
  rc_out :: "u8 list list"
  rc_peer :: socket_addr
  rc_events :: "(u64 \<times> h3_event) list"
  rc_responses :: "(u64 \<times> header list \<times> bool) list"
  rc_closed :: bool

definition ref_conn_new :: "socket_addr \<Rightarrow> (u64 \<times> h3_event) list \<Rightarrow> ref_conn" where
  "ref_conn_new peer evs =
     \<lparr>rc_in = [], rc_out = [], rc_peer = peer, rc_events = evs, rc_responses = [], rc_closed = False\<rparr>"

definition quic_ref :: "ref_conn quic_lib" where
  "quic_ref = \<lparr>
     q_recv = (\<lambda>d info q. (q\<lparr>rc_in := rc_in q @ [d]\<rparr>, Ok (length d))),
     q_recv_queue_full = (\<lambda>q. 1024 \<le> length (rc_in q)),
     q_dgram_recv = (\<lambda>cap q. case rc_in q of [] \<Rightarrow> (q, Err QuicDone)
       | d # ds \<Rightarrow> if length d \<le> cap then (q\<lparr>rc_in := ds\<rparr>, Ok d) else (q, Err (QuicOther ''BufferTooShort''))),
     q_dgram_send = (\<lambda>d q. if length (rc_out q) < 1024 then (q\<lparr>rc_out := rc_out q @ [d]\<rparr>, Ok ())
       else (q, Err QuicDone)),
     q_send = (\<lambda>cap q. case rc_out q of [] \<Rightarrow> (q, Err QuicDone)
       | d # ds \<Rightarrow> (q\<lparr>rc_out := ds\<rparr>, Ok (d, rc_peer q))),
     q_timeout = (\<lambda>q. None), q_on_timeout = (\<lambda>q. q), q_ack_eliciting = (\<lambda>q. q),
     q_close = (\<lambda>r q. q\<lparr>rc_closed := True\<rparr>), q_is_closed = rc_closed, q_is_established = (\<lambda>q. True),
     q_stream_shutdown = (\<lambda>sid q. q), q_dgram_enabled = (\<lambda>q. True),
     h3_config_new = Ok (), h3_with_transport = (\<lambda>q. (q, Ok ())),
     h3_poll = (\<lambda>q. case rc_events q of [] \<Rightarrow> (q, Err H3Done) | e # es \<Rightarrow> (q\<lparr>rc_events := es\<rparr>, Ok e)),
     h3_send_response = (\<lambda>sid hs fin q. (q\<lparr>rc_responses := rc_responses q @ [(sid, hs, fin)]\<rparr>, Ok ())),
     h3_send_request = (\<lambda>hs fin q. (q, Ok 0))\<rparr>"

end
