(* ===== verification/H3session.thy ===== *)
theory H3session
  imports Quic
begin

text \<open>
  The CONNECT-IP session of \<open>h3session.rs\<close>: the datagram codec that frames an IP packet with the
  quarter stream id and the context id, and the state machine that polls HTTP/3 events until the
  request is accepted. The polling loop runs on the connection parameter and need not end, so it is a
  partial function; the header callback is a function of the connection.
\<close>

section \<open>Datagram codec\<close>

definition CONTEXT_ID_IP :: u8 where "CONTEXT_ID_IP = 0"
definition CONNECT_IP_OVERHEAD :: nat where "CONNECT_IP_OVERHEAD = 59"
definition MAX_TIMEOUT :: duration where "MAX_TIMEOUT = secs 86400"

record datagram_codec =
  expected_qsi :: nat
  qsi_buf :: "u8 list"
  qsi_len :: nat

text \<open>\<open>None\<close> is the panic of \<open>expect\<close>.\<close>

definition encode_qsi :: "octets_lib \<Rightarrow> nat \<Rightarrow> (u8 list \<times> nat) option" where
  "encode_qsi V qsi =
     (let len = varint_len V qsi in
      case put_varint V qsi (replicate 8 0) of None \<Rightarrow> None | Some buf \<Rightarrow> Some (buf, len))"

definition decode_qsi :: "octets_lib \<Rightarrow> u8 list \<Rightarrow> (nat \<times> nat) option" where
  "decode_qsi V buf =
     (case buf of
        [] \<Rightarrow> None
      | first # _ \<Rightarrow>
          (let len = varint_parse_len V first in
           if length buf < len then None
           else case get_varint V buf of None \<Rightarrow> None | Some qsi \<Rightarrow> Some (qsi, len)))"

definition codec_new :: "octets_lib \<Rightarrow> u64 \<Rightarrow> datagram_codec option" where
  "codec_new V connect_stream_id =
     (let qsi = unat (connect_stream_id div 4) in
      case encode_qsi V qsi of
        None \<Rightarrow> None
      | Some (buf, len) \<Rightarrow> Some \<lparr>expected_qsi = qsi, qsi_buf = buf, qsi_len = len\<rparr>)"

definition qsi_bytes :: "datagram_codec \<Rightarrow> u8 list" where
  "qsi_bytes c = take (qsi_len c) (qsi_buf c)"

text \<open>The result of the codec and the buffer it leaves behind.\<close>

definition prepend :: "'b buf_lib \<Rightarrow> datagram_codec \<Rightarrow> 'b \<Rightarrow> bool \<times> 'b" where
  "prepend B c packet =
     (case buf_add_prefix B [CONTEXT_ID_IP] packet of
        None \<Rightarrow> (False, packet)
      | Some packet1 \<Rightarrow>
          (case buf_add_prefix B (qsi_bytes c) packet1 of
             None \<Rightarrow> (False, packet1)
           | Some packet2 \<Rightarrow> (True, packet2)))"

definition strip :: "octets_lib \<Rightarrow> 'b buf_lib \<Rightarrow> datagram_codec \<Rightarrow> 'b \<Rightarrow> bool \<times> 'b" where
  "strip V B c packet =
     (let bytes = buf_bytes B packet in
      case decode_qsi V bytes of
        None \<Rightarrow> (False, packet)
      | Some (qsi, len) \<Rightarrow>
          if qsi \<noteq> expected_qsi c \<or> len \<noteq> qsi_len c then (False, packet)
          else let prefix_len = len + 1 in
            if length bytes < prefix_len \<or> bytes ! len \<noteq> CONTEXT_ID_IP then (False, packet)
            else if length bytes = prefix_len then (False, packet)
            else (True, buf_pop_front B prefix_len packet))"

section \<open>Session\<close>

datatype header_action = Accept u64 "string option" | Ignore

datatype connect_progress = Pending | Ready

datatype connect_failure = Rejected string | Closed string | Poll string

fun into_actor_reason :: "connect_failure \<Rightarrow> string" where
  "into_actor_reason (Rejected status) = ''CONNECT-IP rejected after establish: '' @ status"
| "into_actor_reason (Closed reason) = reason"
| "into_actor_reason (Poll reason) = reason"

record h3_session =
  connect_stream_id :: "u64 option"
  datagram_codec :: datagram_codec
  connect_accepted :: bool
  accepted_peer_id :: "string option"

definition session_with_transport ::
  "octets_lib \<Rightarrow> 'q quic_lib \<Rightarrow> 'q \<Rightarrow> 'q \<times> (string, h3_session) result" where
  "session_with_transport V Q q =
     (case h3_config_new Q of
        Err e \<Rightarrow> (q, Err (''h3 config: '' @ e))
      | Ok _ \<Rightarrow>
          (let (q', r) = h3_with_transport Q q in
           (q', case r of
              Err e \<Rightarrow> Err (''h3 connection: '' @ e)
            | Ok _ \<Rightarrow> Ok \<lparr>connect_stream_id = None, datagram_codec = the (codec_new V 0),
                         connect_accepted = False, accepted_peer_id = None\<rparr>)))"

definition bind_connect_stream :: "octets_lib \<Rightarrow> u64 \<Rightarrow> h3_session \<Rightarrow> h3_session" where
  "bind_connect_stream V stream_id s =
     s\<lparr>connect_stream_id := Some stream_id, datagram_codec := the (codec_new V stream_id)\<rparr>"

definition connect_ready :: "'q quic_lib \<Rightarrow> h3_session \<Rightarrow> 'q \<Rightarrow> bool" where
  "connect_ready Q s q = (connect_accepted s \<and> q_dgram_enabled Q q)"

type_synonym 'q header_handler =
  "'q \<Rightarrow> u64 \<Rightarrow> header list \<Rightarrow> 'q \<times> (connect_failure, header_action) result"

partial_function (option) poll_h3_events ::
  "octets_lib \<Rightarrow> 'q quic_lib \<Rightarrow> 'q header_handler \<Rightarrow> h3_session \<Rightarrow> 'q \<Rightarrow>
     (h3_session \<times> 'q \<times> (connect_failure, connect_progress) result) option" where
  "poll_h3_events V Q on_headers s q =
     (case h3_poll Q q of (q1, r) \<Rightarrow>
        (case r of
           Inr (stream_id, ev) \<Rightarrow>
             (case ev of
                Headers headers \<Rightarrow>
                  if connect_accepted s
                  then poll_h3_events V Q on_headers s (q_stream_shutdown Q stream_id q1)
                  else (case on_headers q1 stream_id headers of (q2, action) \<Rightarrow>
                    (case action of
                       Inl e \<Rightarrow> Some (s, q2, Inl e)
                     | Inr act \<Rightarrow>
                         (case act of
                            Accept sid pid \<Rightarrow>
                              poll_h3_events V Q on_headers
                                ((bind_connect_stream V sid s)\<lparr>connect_accepted := True, accepted_peer_id := pid\<rparr>) q2
                          | Ignore \<Rightarrow> poll_h3_events V Q on_headers s q2)))
              | Finished \<Rightarrow>
                  if connect_stream_id s = Some stream_id
                  then Some (s, q1, Inl (Closed ''CONNECT-IP stream finished''))
                  else poll_h3_events V Q on_headers s q1
              | Reset code \<Rightarrow>
                  if connect_stream_id s = Some stream_id
                  then Some (s, q1, Inl (Closed (''CONNECT-IP stream reset: '' @ decimal code)))
                  else poll_h3_events V Q on_headers s q1
              | GoAway \<Rightarrow> Some (s, q1, Inl (Closed ''received GOAWAY''))
              | PriorityUpdate \<Rightarrow> poll_h3_events V Q on_headers s q1
              | DataEvent \<Rightarrow> poll_h3_events V Q on_headers s q1)
         | Inl err \<Rightarrow>
             (case err of
                H3Done \<Rightarrow> Some (s, q1, Inr (if connect_ready Q s q1 then Ready else Pending))
              | H3Other e \<Rightarrow> Some (s, q1, Inl (Poll (''H3 poll: '' @ e))))))"

section \<open>Framing\<close>

text \<open>What a codec knows of its prefix.\<close>

definition codec_ok :: "octets_lib \<Rightarrow> datagram_codec \<Rightarrow> bool" where
  "codec_ok V c \<longleftrightarrow>
     1 \<le> qsi_len c \<and> qsi_len c \<le> 8 \<and> length (qsi_bytes c) = qsi_len c \<and>
     (\<forall>rest. decode_qsi V (qsi_bytes c @ rest) = Some (expected_qsi c, qsi_len c)) \<and>
     (\<forall>bytes. decode_qsi V bytes = Some (expected_qsi c, qsi_len c) \<longrightarrow> take (qsi_len c) bytes = qsi_bytes c)"

lemma quarter_stream_id: "unat ((sid :: u64) div 4) < 2 ^ 62"
proof -
  have "unat (sid div 4) = unat sid div 4" by (simp add: unat_div)
  moreover have "unat sid < 2 ^ 64" using unsigned_less [of sid] by simp
  ultimately show ?thesis by simp
qed

lemma codec_new_ok:
  assumes "octets_ok V"
  shows "\<exists>c. codec_new V sid = Some c \<and> codec_ok V c \<and> expected_qsi c = unat (sid div 4)"
proof -
  let ?v = "unat (sid div 4)"
  have len: "1 \<le> varint_len V ?v" "varint_len V ?v \<le> 8"
    using assms quarter_stream_id [of sid] unfolding octets_ok_def by blast+
  then obtain enc where enc: "length enc = varint_len V ?v"
    "put_varint V ?v (replicate 8 0) = Some (enc @ drop (length enc) (replicate 8 0))"
    "varint_parse_len V (hd enc) = length enc" "\<And>rest. get_varint V (enc @ rest) = Some ?v"
    using assms quarter_stream_id [of sid] unfolding octets_ok_def by (metis length_replicate)
  let ?c = "\<lparr>expected_qsi = ?v, qsi_buf = enc @ drop (length enc) (replicate 8 0), qsi_len = varint_len V ?v\<rparr>"
  have new: "codec_new V sid = Some ?c" by (simp add: codec_new_def encode_qsi_def enc Let_def)
  have bytes: "qsi_bytes ?c = enc" by (simp add: qsi_bytes_def flip: enc(1))
  obtain b bs where e: "enc = b # bs" using enc(1) len(1) by (cases enc) auto
  have "decode_qsi V (enc @ rest) = Some (?v, varint_len V ?v)" for rest
    using enc by (simp add: decode_qsi_def e Let_def)
  moreover have "take (varint_len V ?v) bytes = enc" if d: "decode_qsi V bytes = Some (?v, varint_len V ?v)" for bytes
  proof -
    obtain f r where f: "bytes = f # r" using d by (cases bytes) (auto simp: decode_qsi_def)
    have d': "varint_parse_len V (hd bytes) = varint_len V ?v" "varint_len V ?v \<le> length bytes"
      "get_varint V bytes = Some ?v" "bytes \<noteq> []"
      using d by (auto simp: decode_qsi_def f Let_def split: if_splits option.splits)
    then have "put_varint V ?v (replicate 8 0) =
        Some (take (varint_len V ?v) bytes @ replicate (8 - varint_len V ?v) 0)"
      using assms unfolding octets_ok_def by metis
    then show ?thesis using enc(1,2) d'(2) by simp
  qed
  ultimately show ?thesis
    using len enc(1) bytes by (intro exI [of _ ?c]) (simp add: new codec_ok_def)
qed

lemma codec_newD: "octets_ok V \<Longrightarrow> codec_new V sid = Some c \<Longrightarrow> codec_ok V c \<and> expected_qsi c = unat (sid div 4)"
  using codec_new_ok [of V sid] by auto

lemma prepend_eq:
  assumes "buf_ok B" "codec_ok V c" "qsi_len c + 1 \<le> buf_headroom B b"
  shows "\<exists>b'. prepend B c b = (True, b') \<and> buf_bytes B b' = qsi_bytes c @ CONTEXT_ID_IP # buf_bytes B b"
proof -
  obtain b1 where b1: "buf_add_prefix B [CONTEXT_ID_IP] b = Some b1"
    using buf_ok_add_prefix [OF assms(1), of "[CONTEXT_ID_IP]" b] assms(3) by fastforce
  then have b1': "buf_bytes B b1 = CONTEXT_ID_IP # buf_bytes B b" "buf_headroom B b1 = buf_headroom B b - 1"
    using buf_ok_add_prefix [OF assms(1), of "[CONTEXT_ID_IP]" b] by auto
  then obtain b2 where "buf_add_prefix B (qsi_bytes c) b1 = Some b2"
    using buf_ok_add_prefix [OF assms(1), of "qsi_bytes c" b1] assms(2,3) by (fastforce simp: codec_ok_def)
  with b1 b1' buf_ok_add_prefix [OF assms(1), of "qsi_bytes c" b1] show ?thesis
    by (auto simp: prepend_def)
qed

lemma strip_iff:
  assumes "buf_ok B" "codec_ok V c"
  shows "strip V B c b =
    (if \<exists>payload. payload \<noteq> [] \<and> buf_bytes B b = qsi_bytes c @ CONTEXT_ID_IP # payload
     then (True, buf_pop_front B (qsi_len c + 1) b) else (False, b))"
proof (cases "decode_qsi V (buf_bytes B b) = Some (expected_qsi c, qsi_len c)")
  case True
  then have pre: "take (qsi_len c) (buf_bytes B b) = qsi_bytes c"
    using assms(2) by (auto simp: codec_ok_def)
  then obtain rest where rest: "buf_bytes B b = qsi_bytes c @ rest"
    by (metis append_take_drop_id)
  have len: "length (qsi_bytes c) = qsi_len c" using assms(2) by (simp add: codec_ok_def)
  show ?thesis
  proof (cases rest)
    case Nil
    then show ?thesis using True rest len by (simp add: strip_def)
  next
    case (Cons x xs)
    then show ?thesis
      using True rest len by (auto simp: strip_def Let_def nth_append)
  qed
next
  case False
  then have "\<nexists>payload. buf_bytes B b = qsi_bytes c @ CONTEXT_ID_IP # payload"
    using assms(2) by (auto simp: codec_ok_def)
  with False show ?thesis by (auto simp: strip_def Let_def split: option.split)
qed

section \<open>Polling\<close>

definition accept_session :: "octets_lib \<Rightarrow> u64 \<Rightarrow> string option \<Rightarrow> h3_session \<Rightarrow> h3_session" where
  "accept_session V sid pid s = (bind_connect_stream V sid s)\<lparr>connect_accepted := True, accepted_peer_id := pid\<rparr>"

text \<open>
  The only way a session changes is an \<open>Accept\<close> of the callback on a session that is not accepted yet.
\<close>

lemma poll_h3_events_inv:
  assumes "poll_h3_events V Q f s q = Some y" "P s"
    and "\<And>s q0 q q1 sid hs sid' pid. P s \<Longrightarrow> \<not> connect_accepted s \<Longrightarrow> h3_poll Q q0 = (q, Inr (sid, Headers hs)) \<Longrightarrow>
      f q sid hs = (q1, Inr (Accept sid' pid)) \<Longrightarrow> P (accept_session V sid' pid s)"
  shows "P (fst y) \<and> (snd (snd y) = Inr Ready \<longrightarrow> connect_accepted (fst y))"
  using assms
proof (induction V Q f s q y rule: poll_h3_events.raw_induct [rotated, consumes 1, case_names step])
  case (step poll V Q f s q y)
  note IH = step.IH and body = step.hyps and P = step.prems
  have acc: "P (accept_session V sid' pid s)"
    if "\<not> connect_accepted s" "h3_poll Q q = (q1, Inr (sid, Headers hs))" "f q1 sid hs = (q2, Inr (Accept sid' pid))"
    for q1 sid hs q2 sid' pid
    using P(2) [OF P(1)] that by blast
  have rec: "P (fst y) \<and> (snd (snd y) = Inr Ready \<longrightarrow> connect_accepted (fst y))"
    if "poll V Q f t q2 = Some y" "P t" for t q2
    using IH [OF that(1,2)] P(2) by blast
  obtain q1 r where poll: "h3_poll Q q = (q1, r)" by fastforce
  show ?case
  proof (cases r)
    case (Inl e)
    with body poll P(1) show ?thesis by (cases e) (auto simp: connect_ready_def split: if_splits)
  next
    case (Inr se)
    obtain sid ev where se: "se = (sid, ev)" by fastforce
    show ?thesis
    proof (cases ev)
      case (Headers hs)
      show ?thesis
      proof (cases "connect_accepted s")
        case True
        with body poll Inr se Headers rec [OF _ P(1)] show ?thesis by simp
      next
        case False
        obtain q2 a where f: "f q1 sid hs = (q2, a)" by fastforce
        with body poll Inr se Headers False rec [OF _ P(1)] P(1) acc [OF False, of q1 sid hs] rec
        show ?thesis
          by (auto simp: accept_session_def split: sum.splits header_action.splits)
      qed
    qed (use body poll Inr se rec [OF _ P(1)] P(1) in \<open>auto split: if_splits\<close>)
  qed
qed

text \<open>
  The polling loop ends when the connection holds finitely many events: \<open>pending\<close> bounds them, and
  neither shutting down a stream nor the callback adds one.
\<close>

definition poll_progress :: "'q quic_lib \<Rightarrow> 'q header_handler \<Rightarrow> ('q \<Rightarrow> nat) \<Rightarrow> bool" where
  "poll_progress Q f pending \<longleftrightarrow>
     (\<forall>q q' x. h3_poll Q q = (q', Inr x) \<longrightarrow> pending q' < pending q) \<and>
     (\<forall>q sid. pending (q_stream_shutdown Q sid q) \<le> pending q) \<and>
     (\<forall>q sid hs. pending (fst (f q sid hs)) \<le> pending q)"

lemma poll_h3_events_total:
  assumes "poll_progress Q f pending"
  shows "\<exists>y. poll_h3_events V Q f s q = Some y"
proof (induction "pending q" arbitrary: q s rule: less_induct)
  case less
  obtain q1 r where poll: "h3_poll Q q = (q1, r)" by fastforce
  show ?case
  proof (cases r)
    case (Inl e)
    with poll show ?thesis by (cases e) (simp_all add: poll_h3_events.simps)
  next
    case (Inr se)
    obtain sid ev where se: "se = (sid, ev)" by fastforce
    have lt: "pending q1 < pending q"
      using assms poll Inr by (auto simp: poll_progress_def)
    have rec: "\<exists>y. poll_h3_events V Q f t q2 = Some y" if "pending q2 \<le> pending q1" for t q2
      using less lt that by (meson le_less_trans)
    show ?thesis
    proof (cases ev)
      case (Headers hs)
      obtain q2 a where f: "f q1 sid hs = (q2, a)" by fastforce
      have "pending q2 \<le> pending q1" "pending (q_stream_shutdown Q sid q1) \<le> pending q1"
        using assms f unfolding poll_progress_def by (metis fst_conv)+
      with poll Inr se Headers f rec show ?thesis
        by (subst poll_h3_events.simps) (auto split: sum.split header_action.split)
    qed (use poll Inr se rec [OF order.refl] in \<open>subst poll_h3_events.simps; simp\<close>)+
  qed
qed

section \<open>Properties\<close>

text \<open>Building the codec of a CONNECT-IP stream never panics: the quarter of any 64-bit stream id fits
  the 62 bits of a QUIC varint, its encoding takes between one and eight bytes, and it decodes to that
  quarter whatever follows it.\<close>

theorem codec_new_never_panics:
  assumes "octets_ok V"
  shows "\<exists>c. codec_new V sid = Some c \<and> expected_qsi c = unat (sid div 4) \<and> qsi_len c \<in> {1..8} \<and>
    decode_qsi V (qsi_bytes c @ rest) = Some (unat (sid div 4), qsi_len c)"
  using codec_new_ok [OF assms, of sid] by (fastforce simp: codec_ok_def)

theorem codec_new_never_panics_witness:
  "\<exists>c. codec_new octets_ref (- 1) = Some c \<and> decode_qsi octets_ref (qsi_bytes c @ [1, 2]) = Some (2 ^ 62 - 1, qsi_len c)"
proof -
  have "unat ((- 1 :: u64) div 4) = 2 ^ 62 - 1"
    by (simp add: unat_div unsigned_minus_1_eq_mask mask_eq_exp_minus_1)
  with codec_new_never_panics [OF octets_ref_ok, of "- 1" "[1, 2]"] show ?thesis by auto
qed

text \<open>C14: Framing and unframing are inverse. A non-empty packet in a buffer with the headroom that every
  packet buffer is allocated with is framed successfully, and the codec of the same stream strips the
  frame back to exactly the packet.\<close>

theorem datagram_framing_roundtrip:
  assumes "octets_ok V" "buf_ok B" "codec_new V sid = Some c"
    "HEADROOM \<le> buf_headroom B b" "buf_bytes B b \<noteq> []"
  shows "fst (prepend B c b) \<and> fst (strip V B c (snd (prepend B c b))) \<and>
    buf_bytes B (snd (strip V B c (snd (prepend B c b)))) = buf_bytes B b"
proof -
  have ok: "codec_ok V c" using codec_newD [OF assms(1,3)] by simp
  then have len: "length (qsi_bytes c) = qsi_len c" "qsi_len c + 1 \<le> buf_headroom B b"
    using assms(4) by (auto simp: codec_ok_def HEADROOM_def)
  obtain b' where b': "prepend B c b = (True, b')" "buf_bytes B b' = qsi_bytes c @ CONTEXT_ID_IP # buf_bytes B b"
    using prepend_eq [OF assms(2) ok len(2)] by blast
  then have "strip V B c b' = (True, buf_pop_front B (qsi_len c + 1) b')"
    using assms(5) by (subst strip_iff [OF assms(2) ok]) auto
  with b' len(1) buf_ok_pop_front [OF assms(2), of "qsi_len c + 1" b'] show ?thesis by simp
qed

theorem datagram_framing_roundtrip_witness:
  "\<exists>c. codec_new octets_ref 4 = Some c \<and>
    buf_bytes buf_ref (snd (strip octets_ref buf_ref c (snd (prepend buf_ref c (10, [69, 0]))))) = [69, 0]"
proof -
  obtain c where "codec_new octets_ref 4 = Some c" using codec_new_ok [OF octets_ref_ok] by blast
  with datagram_framing_roundtrip [OF octets_ref_ok buf_ref_ok this, of "(10, [69, 0])"] show ?thesis
    by (auto simp: buf_ref_def HEADROOM_def)
qed

text \<open>A datagram is accepted for a stream exactly when it is that stream's prefix, the context id of
  IP payloads and a non-empty payload, and then exactly the payload is left. Everything else is refused
  and left as it was: a non-minimal encoding of the id, another context, an empty payload, and every
  datagram framed for a request stream with another quarter id.\<close>

theorem datagram_strip_exact:
  assumes "octets_ok V" "buf_ok B" "codec_new V sid = Some c"
  shows "(fst (strip V B c b) \<longleftrightarrow> (\<exists>payload. payload \<noteq> [] \<and> buf_bytes B b = qsi_bytes c @ CONTEXT_ID_IP # payload)) \<and>
    (fst (strip V B c b) \<longrightarrow> buf_bytes B b = qsi_bytes c @ CONTEXT_ID_IP # buf_bytes B (snd (strip V B c b))) \<and>
    (\<not> fst (strip V B c b) \<longrightarrow> snd (strip V B c b) = b) \<and>
    (\<forall>sid' c' payload. codec_new V sid' = Some c' \<longrightarrow> sid' div 4 \<noteq> sid div 4 \<longrightarrow>
       buf_bytes B b = qsi_bytes c' @ CONTEXT_ID_IP # payload \<longrightarrow> \<not> fst (strip V B c b))"
proof -
  have ok: "codec_ok V c" and q: "expected_qsi c = unat (sid div 4)"
    using codec_newD [OF assms(1,3)] by simp_all
  have len: "length (qsi_bytes c) = qsi_len c" using ok by (simp add: codec_ok_def)
  have "buf_bytes B (buf_pop_front B (qsi_len c + 1) b) = payload"
    if "buf_bytes B b = qsi_bytes c @ CONTEXT_ID_IP # payload" for payload
    using buf_ok_pop_front [OF assms(2), of "qsi_len c + 1" b] that len by simp
  moreover have iso: "qsi_bytes c' @ CONTEXT_ID_IP # payload' \<noteq> qsi_bytes c @ CONTEXT_ID_IP # payload"
    if "codec_new V sid' = Some c'" "sid' div 4 \<noteq> sid div 4" for sid' c' payload payload'
  proof
    assume "qsi_bytes c' @ CONTEXT_ID_IP # payload' = qsi_bytes c @ CONTEXT_ID_IP # payload"
    then have "Some (expected_qsi c, qsi_len c) = Some (expected_qsi c', qsi_len c')"
      using ok codec_newD [OF assms(1) that(1)] by (metis codec_ok_def)
    then show False
      using q codec_newD [OF assms(1) that(1)] that(2) by (simp add: word_unat_eq_iff)
  qed
  ultimately show ?thesis
    unfolding strip_iff [OF assms(2) ok] by (auto dest: iso [THEN notE])
qed

theorem datagram_strip_exact_witness:
  "\<exists>c. codec_new octets_ref 4 = Some c \<and> \<not> fst (strip octets_ref buf_ref c (0, []))"
proof -
  obtain c where c: "codec_new octets_ref 4 = Some c" using codec_new_ok [OF octets_ref_ok] by blast
  with datagram_strip_exact [OF octets_ref_ok buf_ref_ok c, of "(0, [])"] show ?thesis
    by (auto simp: buf_ref_def)
qed

end
