(* ===== verification/H3engine.thy ===== *)
theory H3engine
  imports H3session Metrics "HOL-Library.Sublist"
begin

text \<open>
  The engine of \<open>h3engine.rs\<close>: feeding received UDP packets to QUIC, decoding inbound and encoding
  outbound datagrams, and the established-phase loop with its two pending slots. The loops that drain
  the connection are partial functions of the connection parameter. The loop state records, next to
  the state of the code, the batches handed over and the batches collected, which is what the
  backpressure invariant compares.
\<close>

section \<open>Transport configuration\<close>

text \<open>The values handed to \<open>quiche::Config\<close>; \<open>set_protos\<close> and \<open>set_cc\<close> are its two fallible setters.\<close>

record transport_config =
  tc_max_recv_payload :: nat
  tc_max_send_payload :: nat
  tc_max_data :: nat
  tc_max_stream_data :: nat
  tc_max_streams :: nat
  tc_dgram_queues :: "nat \<times> nat"
  tc_idle_ms :: nat
  tc_cc :: string
  tc_pacing :: bool

definition apply_transport_config ::
  "(quic_error, unit) result \<Rightarrow> (string \<Rightarrow> (quic_error, unit) result) \<Rightarrow> h3_tuning \<Rightarrow> nat \<Rightarrow>
     (quic_error, transport_config) result" where
  "apply_transport_config set_protos set_cc t max_udp_payload =
     (case set_protos of
        Err e \<Rightarrow> Err e
      | Ok _ \<Rightarrow>
          (let idle_ms = min u64_max (h3_max_idle_timeout t div 1000000) in
           case set_cc (h3_cc_algorithm t) of
             Err e \<Rightarrow> Err e
           | Ok _ \<Rightarrow> Ok \<lparr>tc_max_recv_payload = max_udp_payload, tc_max_send_payload = max_udp_payload,
               tc_max_data = 10000000, tc_max_stream_data = 1000000, tc_max_streams = 100,
               tc_dgram_queues = (1024, 1024), tc_idle_ms = idle_ms, tc_cc = h3_cc_algorithm t,
               tc_pacing = h3_enable_pacing t\<rparr>))"

section \<open>Packet I/O\<close>

fun handle_udp_recv ::
  "'b buf_lib \<Rightarrow> 'q quic_lib \<Rightarrow> recv_info \<Rightarrow> 'b list \<Rightarrow> counters option \<times> 'q \<Rightarrow> counters option \<times> 'q" where
  "handle_udp_recv B Q info [] st = st"
| "handle_udp_recv B Q info (pkt # batch) st =
     (let (c, q) = st;
          c = (if q_recv_queue_full Q q then map_option (record_drop QueueFull 1 0) c else c);
          (q, r) = q_recv Q (buf_bytes B pkt) info q;
          c = (case r of
                 Ok _ \<Rightarrow> c
               | Err QuicDone \<Rightarrow> c
               | Err (QuicOther e) \<Rightarrow> map_option (record_drop QuicError 1 (length (buf_bytes B pkt))) c)
      in handle_udp_recv B Q info batch (c, q))"

text \<open>A buffer of the pool into which \<open>data\<close> were written, cut to their length.\<close>

definition received_buf :: "'b buf_lib \<Rightarrow> nat \<Rightarrow> nat \<Rightarrow> u8 list \<Rightarrow> 'b" where
  "received_buf B max_datagram len data =
     buf_copy B data (buf_truncate B (length data) (alloc_uninit_packet_buf B max_datagram len))"

partial_function (option) collect_ingress_loop ::
  "octets_lib \<Rightarrow> 'b buf_lib \<Rightarrow> 'q quic_lib \<Rightarrow> nat \<Rightarrow> nat \<Rightarrow> datagram_codec \<Rightarrow>
     'b list \<Rightarrow> nat \<Rightarrow> nat \<Rightarrow> counters \<Rightarrow> 'q \<Rightarrow> ('b list \<times> nat \<times> nat \<times> counters \<times> 'q) option" where
  "collect_ingress_loop V B Q md max_udp_payload codec batch ok_pkts ok_bytes c q =
     (case q_dgram_recv Q (length (buf_bytes B (alloc_uninit_packet_buf B md max_udp_payload))) q of
        (q', r) \<Rightarrow>
          (case r of
             Inr data \<Rightarrow>
               (case strip V B codec (received_buf B md max_udp_payload data) of
                  (ok, buf) \<Rightarrow>
                    if \<not> ok
                    then collect_ingress_loop V B Q md max_udp_payload codec batch ok_pkts ok_bytes
                           (record_drop InvalidFraming 1 (length data) c) q'
                    else collect_ingress_loop V B Q md max_udp_payload codec (batch @ [buf]) (ok_pkts + 1)
                           (ok_bytes + length (buf_bytes B buf)) c q')
           | Inl e \<Rightarrow> Some (batch, ok_pkts, ok_bytes, c, q')))"

definition collect_router_ingress ::
  "octets_lib \<Rightarrow> 'b buf_lib \<Rightarrow> 'q quic_lib \<Rightarrow> nat \<Rightarrow> nat \<Rightarrow> datagram_codec \<Rightarrow> counters \<Rightarrow> 'q \<Rightarrow>
     ('b list \<times> counters \<times> 'q) option" where
  "collect_router_ingress V B Q md max_udp_payload codec c q =
     map_option (\<lambda>(batch, ok_pkts, ok_bytes, c, q).
       (batch, if 0 < ok_pkts then record_success ok_pkts ok_bytes c else c, q))
       (collect_ingress_loop V B Q md max_udp_payload codec [] 0 0 c q)"

partial_function (option) collect_send_loop ::
  "'b buf_lib \<Rightarrow> 'q quic_lib \<Rightarrow> nat \<Rightarrow> nat \<Rightarrow> 'b list \<Rightarrow> socket_addr option \<Rightarrow> 'q \<Rightarrow>
     ((socket_addr \<times> 'b list) option \<times> 'q) option" where
  "collect_send_loop B Q md max_udp_payload batch dest q =
     (case q_send Q (length (buf_bytes B (alloc_uninit_packet_buf B md max_udp_payload))) q of
        (q', r) \<Rightarrow>
          (case r of
             Inr bd \<Rightarrow> collect_send_loop B Q md max_udp_payload
                         (batch @ [received_buf B md max_udp_payload (fst bd)]) (Some (snd bd)) q'
           | Inl e \<Rightarrow> Some (map_option (\<lambda>d. (d, batch)) dest, q')))"

definition collect_udp_send ::
  "'b buf_lib \<Rightarrow> 'q quic_lib \<Rightarrow> nat \<Rightarrow> nat \<Rightarrow> 'q \<Rightarrow> ((socket_addr \<times> 'b list) option \<times> 'q) option" where
  "collect_udp_send B Q md max_udp_payload q = collect_send_loop B Q md max_udp_payload [] None q"

fun egress_loop ::
  "'b buf_lib \<Rightarrow> 'q quic_lib \<Rightarrow> datagram_codec \<Rightarrow> 'b list \<Rightarrow> nat \<times> nat \<times> counters \<times> 'q \<Rightarrow>
     nat \<times> nat \<times> counters \<times> 'q" where
  "egress_loop B Q codec [] st = st"
| "egress_loop B Q codec (pkt # pkts) st =
     (let (ok_pkts, ok_bytes, c, q) = st;
          pkt_len = length (buf_bytes B pkt);
          (framed, pkt) = prepend B codec pkt
      in if \<not> framed then egress_loop B Q codec pkts (ok_pkts, ok_bytes, record_drop NoHeadroom 1 pkt_len c, q)
         else let (q, r) = q_dgram_send Q (buf_bytes B pkt) q in
           egress_loop B Q codec pkts
             (case r of
                Ok _ \<Rightarrow> (ok_pkts + 1, ok_bytes + pkt_len, c, q)
              | Err QuicDone \<Rightarrow> (ok_pkts, ok_bytes, record_drop QueueFull 1 pkt_len c, q)
              | Err (QuicOther e) \<Rightarrow> (ok_pkts, ok_bytes, record_drop QuicError 1 pkt_len c, q)))"

definition handle_router_egress ::
  "'b buf_lib \<Rightarrow> 'q quic_lib \<Rightarrow> datagram_codec \<Rightarrow> 'b list \<Rightarrow> counters \<times> 'q \<Rightarrow> counters \<times> 'q" where
  "handle_router_egress B Q codec pkts st =
     (let (c, q) = st;
          (ok_pkts, ok_bytes, c, q) = egress_loop B Q codec pkts (0, 0, c, q)
      in (if 0 < ok_pkts then record_success ok_pkts ok_bytes c else c, q))"

text \<open>The deadline of the QUIC timer relative to now.\<close>

definition timer_delay :: "'q quic_lib \<Rightarrow> 'q \<Rightarrow> duration" where
  "timer_delay Q q = (case q_timeout Q q of Some d \<Rightarrow> d | None \<Rightarrow> MAX_TIMEOUT)"

section \<open>The established loop\<close>

record engine_meta =
  em_local_addr :: socket_addr
  em_remote_addr :: socket_addr
  em_peer_id :: string
  em_max_udp_payload :: nat

definition meta_recv_info :: "engine_meta \<Rightarrow> socket_addr \<Rightarrow> recv_info" where
  "meta_recv_info m remote = \<lparr>ri_from = remote, ri_to = em_local_addr m\<rparr>"

text \<open>
  What does not change during the loop: the libraries, the datagram size, the answers of the
  successive \<open>try_send\<close> calls, and the metadata.
\<close>

record ('q, 'b) engine_params =
  ep_octets :: octets_lib
  ep_buf :: "'b buf_lib"
  ep_quic :: "'q quic_lib"
  ep_max_datagram :: nat
  ep_try :: "nat \<Rightarrow> try_send_result"
  ep_meta :: engine_meta

record ('q, 'b) engine_state =
  e_conn :: 'q
  e_session :: h3_session
  e_rx :: counters
  e_tx :: counters
  e_pending_ingress :: "'b list option"
  e_pending_send :: "(socket_addr \<times> 'b list) option"
  e_sends :: nat
  e_ingress :: "'b list list"
  e_udp :: "(socket_addr \<times> 'b list) list"
  e_collected :: "'b list list"
  e_produced :: "(socket_addr \<times> 'b list) list"
  e_emitted :: "metrics list"
  e_exit :: "(string, unit) result option"

definition engine_init :: "'q \<Rightarrow> h3_session \<Rightarrow> ('q, 'b) engine_state" where
  "engine_init q ses =
     \<lparr>e_conn = q, e_session = ses, e_rx = counters_new Http3 Rx, e_tx = counters_new Http3 Tx,
      e_pending_ingress = None, e_pending_send = None, e_sends = 0, e_ingress = [], e_udp = [],
      e_collected = [], e_produced = [], e_emitted = [], e_exit = None\<rparr>"

datatype 'b engine_event =
    UdpRecv "(socket_addr \<times> 'b list) option"
  | IngressPermit "duration option"
  | Egress "'b list option"
  | EngineStop
  | SendPermit "duration option"
  | QuicTimer
  | KeepaliveTick
  | MetricsTick

text \<open>The preconditions of the arms of the \<open>select!\<close>.\<close>

fun arm_enabled :: "'b engine_event \<Rightarrow> ('q, 'b) engine_state \<Rightarrow> bool" where
  "arm_enabled (UdpRecv _) s = (e_pending_ingress s = None)"
| "arm_enabled (IngressPermit _) s = (e_pending_ingress s \<noteq> None)"
| "arm_enabled (SendPermit _) s = (e_pending_send s \<noteq> None)"
| "arm_enabled _ s = True"

definition ignore_headers :: "'q header_handler" where
  "ignore_headers q sid hs = (q, Ok Ignore)"

definition offer_ingress :: "('q, 'b) engine_params \<Rightarrow> 'b list \<Rightarrow> ('q, 'b) engine_state \<Rightarrow> ('q, 'b) engine_state" where
  "offer_ingress P batch s =
     (if batch = [] then s
      else let s = s\<lparr>e_collected := e_collected s @ [batch], e_sends := Suc (e_sends s)\<rparr> in
        case ep_try P (e_sends s - 1) of
          TrySent \<Rightarrow> s\<lparr>e_pending_ingress := None, e_ingress := e_ingress s @ [batch]\<rparr>
        | TryFull \<Rightarrow> s\<lparr>e_pending_ingress := Some batch\<rparr>
        | TryClosed \<Rightarrow> s\<lparr>e_exit := Some (Ok ())\<rparr>)"

definition engine_udp_recv ::
  "('q, 'b) engine_params \<Rightarrow> socket_addr \<Rightarrow> 'b list \<Rightarrow> ('q, 'b) engine_state \<Rightarrow> ('q, 'b) engine_state option" where
  "engine_udp_recv P remote pkts s =
     (let (c, q) = handle_udp_recv (ep_buf P) (ep_quic P) (meta_recv_info (ep_meta P) remote) pkts
                     (Some (e_rx s), e_conn s)
      in case poll_h3_events (ep_octets P) (ep_quic P) ignore_headers (e_session s) q of
           None \<Rightarrow> None
         | Some (ses, q, r) \<Rightarrow>
             (let s = s\<lparr>e_conn := q, e_session := ses, e_rx := the c\<rparr> in
              case r of
                Err e \<Rightarrow> Some (s\<lparr>e_exit := Some (Err (into_actor_reason e))\<rparr>)
              | Ok _ \<Rightarrow>
                  map_option (\<lambda>(batch, c, q). offer_ingress P batch (s\<lparr>e_conn := q, e_rx := c\<rparr>))
                    (collect_router_ingress (ep_octets P) (ep_buf P) (ep_quic P) (ep_max_datagram P)
                       (em_max_udp_payload (ep_meta P)) (datagram_codec (e_session s)) (e_rx s) (e_conn s))))"

definition emit_metrics :: "engine_meta \<Rightarrow> ('q, 'b) engine_state \<Rightarrow> ('q, 'b) engine_state" where
  "emit_metrics m s =
     s\<lparr>e_emitted := e_emitted s @ [snapshot (Some (em_peer_id m)) (Some (em_remote_addr m)) (e_rx s),
        snapshot (Some (em_peer_id m)) (Some (em_remote_addr m)) (e_tx s)]\<rparr>"

fun engine_arm ::
  "('q, 'b) engine_params \<Rightarrow> 'b engine_event \<Rightarrow> ('q, 'b) engine_state \<Rightarrow> ('q, 'b) engine_state option" where
  "engine_arm P (UdpRecv None) s = Some (s\<lparr>e_exit := Some (Ok ())\<rparr>)"
| "engine_arm P (UdpRecv (Some (remote, pkts))) s = engine_udp_recv P remote pkts s"
| "engine_arm P (IngressPermit None) s = Some (s\<lparr>e_exit := Some (Ok ())\<rparr>)"
| "engine_arm P (IngressPermit (Some waited)) s =
     Some (s\<lparr>e_pending_ingress := None, e_rx := record_queue_full waited (e_rx s),
             e_ingress := e_ingress s @ [the (e_pending_ingress s)]\<rparr>)"
| "engine_arm P (Egress None) s = Some (s\<lparr>e_exit := Some (Ok ())\<rparr>)"
| "engine_arm P (Egress (Some pkts)) s =
     (let (c, q) = handle_router_egress (ep_buf P) (ep_quic P) (datagram_codec (e_session s)) pkts
                     (e_tx s, e_conn s)
      in Some (s\<lparr>e_tx := c, e_conn := q\<rparr>))"
| "engine_arm P EngineStop s = Some (s\<lparr>e_exit := Some (Ok ())\<rparr>)"
| "engine_arm P (SendPermit None) s = Some (s\<lparr>e_exit := Some (Ok ())\<rparr>)"
| "engine_arm P (SendPermit (Some waited)) s =
     Some (s\<lparr>e_pending_send := None, e_tx := record_queue_full waited (e_tx s),
             e_udp := e_udp s @ [the (e_pending_send s)]\<rparr>)"
| "engine_arm P QuicTimer s = Some (s\<lparr>e_conn := q_on_timeout (ep_quic P) (e_conn s)\<rparr>)"
| "engine_arm P KeepaliveTick s = Some (s\<lparr>e_conn := q_ack_eliciting (ep_quic P) (e_conn s)\<rparr>)"
| "engine_arm P MetricsTick s = Some (emit_metrics (ep_meta P) s)"

text \<open>The part of the loop body after the \<open>select!\<close>: sending, and the check for a closed connection.\<close>

definition offer_send ::
  "('q, 'b) engine_params \<Rightarrow> (socket_addr \<times> 'b list) option \<Rightarrow> ('q, 'b) engine_state \<Rightarrow> ('q, 'b) engine_state" where
  "offer_send P out s =
     (case out of
        None \<Rightarrow> s
      | Some send \<Rightarrow>
          (let s = s\<lparr>e_produced := e_produced s @ [send], e_sends := Suc (e_sends s)\<rparr> in
           case ep_try P (e_sends s - 1) of
             TrySent \<Rightarrow> s\<lparr>e_udp := e_udp s @ [send]\<rparr>
           | TryFull \<Rightarrow> s\<lparr>e_pending_send := Some send\<rparr>
           | TryClosed \<Rightarrow> s\<lparr>e_exit := Some (Err ''UDP TX actor channel closed'')\<rparr>))"

definition engine_tail :: "('q, 'b) engine_params \<Rightarrow> ('q, 'b) engine_state \<Rightarrow> ('q, 'b) engine_state option" where
  "engine_tail P s =
     (let sent = (if e_pending_send s = None
                  then map_option (\<lambda>(out, q). offer_send P out (s\<lparr>e_conn := q\<rparr>))
                         (collect_udp_send (ep_buf P) (ep_quic P) (ep_max_datagram P)
                            (em_max_udp_payload (ep_meta P)) (e_conn s))
                  else Some s)
      in map_option (\<lambda>s. if e_exit s = None \<and> q_is_closed (ep_quic P) (e_conn s)
                         then s\<lparr>e_exit := Some (Err ''QUIC connection closed'')\<rparr> else s) sent)"

definition engine_step ::
  "('q, 'b) engine_params \<Rightarrow> 'b engine_event \<Rightarrow> ('q, 'b) engine_state \<Rightarrow> ('q, 'b) engine_state option" where
  "engine_step P ev s =
     (if e_exit s \<noteq> None \<or> \<not> arm_enabled ev s then None
      else case engine_arm P ev s of
        None \<Rightarrow> None
      | Some s' \<Rightarrow> if e_exit s' \<noteq> None then Some s' else engine_tail P s')"

text \<open>After the loop: close, collect what QUIC still wants to send, and add context to the exit.\<close>

definition engine_cleanup ::
  "('q, 'b) engine_params \<Rightarrow> ('q, 'b) engine_state \<Rightarrow>
     ((socket_addr \<times> 'b list) option \<times> (string, unit) result) option" where
  "engine_cleanup P s =
     map_option (\<lambda>(out, q). (out, case the (e_exit s) of
         Ok _ \<Rightarrow> Ok ()
       | Err e \<Rightarrow> Err (''run established HTTP/3 connection: '' @ e)))
       (collect_udp_send (ep_buf P) (ep_quic P) (ep_max_datagram P) (em_max_udp_payload (ep_meta P))
          (q_close (ep_quic P) [] (e_conn s)))"

section \<open>Draining datagrams\<close>

text \<open>
  The documented behaviour of the datagram queues of a connection: \<open>dgram_recv\<close> takes the oldest
  datagram if the buffer holds it and answers \<open>Done\<close> on an empty queue; \<open>dgram_send\<close> appends the
  datagram or leaves the queue alone.
\<close>

definition recv_queue_ok :: "'q quic_lib \<Rightarrow> ('q \<Rightarrow> u8 list list) \<Rightarrow> bool" where
  "recv_queue_ok Q inq \<longleftrightarrow>
     (\<forall>cap q. inq q = [] \<longrightarrow> (\<exists>q'. q_dgram_recv Q cap q = (q', Err QuicDone) \<and> inq q' = [])) \<and>
     (\<forall>cap q d ds. inq q = d # ds \<longrightarrow> length d \<le> cap \<longrightarrow> (\<exists>q'. q_dgram_recv Q cap q = (q', Ok d) \<and> inq q' = ds))"

definition send_queue_ok :: "'q quic_lib \<Rightarrow> ('q \<Rightarrow> u8 list list) \<Rightarrow> bool" where
  "send_queue_ok Q outq \<longleftrightarrow>
     (\<forall>d q. outq (fst (q_dgram_send Q d q)) = outq q @ (if is_ok (snd (q_dgram_send Q d q)) then [d] else []))"

definition recv_capacity :: "'b buf_lib \<Rightarrow> nat \<Rightarrow> nat \<Rightarrow> nat" where
  "recv_capacity B md max_udp_payload = length (buf_bytes B (alloc_uninit_packet_buf B md max_udp_payload))"

text \<open>What a stream's datagram carries: the payload behind its prefix and the context id.\<close>

definition payload_of :: "datagram_codec \<Rightarrow> u8 list \<Rightarrow> u8 list option" where
  "payload_of c d =
     (if take (qsi_len c) d = qsi_bytes c \<and> qsi_len c + 1 < length d \<and> d ! qsi_len c = CONTEXT_ID_IP
      then Some (drop (qsi_len c + 1) d) else None)"

definition frame :: "datagram_codec \<Rightarrow> u8 list \<Rightarrow> u8 list" where
  "frame c p = qsi_bytes c @ CONTEXT_ID_IP # p"

lemma payload_of_iff:
  assumes "length (qsi_bytes c) = qsi_len c"
  shows "payload_of c d = Some p \<longleftrightarrow> p \<noteq> [] \<and> d = frame c p"
proof
  assume "payload_of c d = Some p"
  then have h: "take (qsi_len c) d = qsi_bytes c" "qsi_len c + 1 < length d" "d ! qsi_len c = CONTEXT_ID_IP"
    "p = drop (qsi_len c + 1) d"
    by (auto simp: payload_of_def split: if_splits)
  have "d = take (qsi_len c) d @ d ! qsi_len c # drop (Suc (qsi_len c)) d"
    using h(2) by (intro id_take_nth_drop) simp
  with h show "p \<noteq> [] \<and> d = frame c p" by (simp add: frame_def)
qed (use assms in \<open>auto simp: payload_of_def frame_def nth_append\<close>)

lemma received_buf_bytes:
  assumes "buf_ok B" "length data \<le> recv_capacity B md len"
  shows "buf_bytes B (received_buf B md len data) = data"
  using assms by (simp add: received_buf_def recv_capacity_def buf_ok_def)

lemma strip_received:
  assumes "buf_ok B" "codec_ok V c" "length data \<le> recv_capacity B md len"
  shows "case payload_of c data of
      None \<Rightarrow> strip V B c (received_buf B md len data) = (False, received_buf B md len data)
    | Some p \<Rightarrow> (\<exists>b. strip V B c (received_buf B md len data) = (True, b) \<and> buf_bytes B b = p)"
proof -
  have len: "length (qsi_bytes c) = qsi_len c" using assms(2) by (simp add: codec_ok_def)
  note bytes = received_buf_bytes [OF assms(1,3)]
  have eq: "strip V B c (received_buf B md len data) =
      (if payload_of c data \<noteq> None then (True, buf_pop_front B (qsi_len c + 1) (received_buf B md len data))
       else (False, received_buf B md len data))"
    unfolding strip_iff [OF assms(1,2)] using payload_of_iff [OF len] by (auto simp: bytes frame_def)
  show ?thesis
  proof (cases "payload_of c data")
    case (Some p)
    then have "buf_bytes B (buf_pop_front B (qsi_len c + 1) (received_buf B md len data)) = p"
      using buf_ok_pop_front [OF assms(1), of "qsi_len c + 1" "received_buf B md len data"]
      by (auto simp: bytes payload_of_def split: if_splits)
    with Some show ?thesis by (simp add: eq)
  qed (simp add: eq)
qed

lemma collect_ingress_loop_exact:
  assumes "buf_ok B" "codec_ok V codec" "recv_queue_ok Q inq"
    "\<forall>d\<in>set (inq q). length d \<le> recv_capacity B md len"
  shows "\<exists>new q'. collect_ingress_loop V B Q md len codec batch n m c q =
      Some (batch @ new, n + length new, m + sum_list (map (length \<circ> buf_bytes B) new),
        fold apply_tally (map (\<lambda>d. Dropped InvalidFraming 1 (length d)) (filter (\<lambda>d. payload_of codec d = None) (inq q))) c,
        q') \<and> map (buf_bytes B) new = List.map_filter (payload_of codec) (inq q) \<and> inq q' = []"
  using assms(4)
proof (induction "inq q" arbitrary: q batch n m c)
  case Nil
  then obtain q' where "q_dgram_recv Q (recv_capacity B md len) q = (q', Err QuicDone)" "inq q' = []"
    using assms(3) unfolding recv_queue_ok_def by metis
  with Nil show ?case
    by (subst collect_ingress_loop.simps) (simp add: recv_capacity_def List.map_filter_def)
next
  case (Cons d ds)
  have len: "length d \<le> recv_capacity B md len" using Cons.hyps(2) Cons.prems by (metis list.set_intros(1))
  then obtain q1 where q1: "q_dgram_recv Q (recv_capacity B md len) q = (q1, Ok d)" "inq q1 = ds"
    using assms(3) Cons.hyps(2) unfolding recv_queue_ok_def by metis
  have small: "\<forall>d\<in>set (inq q1). length d \<le> recv_capacity B md len"
    using Cons.hyps(2) Cons.prems q1(2) by (metis list.set_intros(2))
  note IH = Cons.hyps(1) [OF q1(2) [symmetric] small]
  show ?case
  proof (cases "payload_of codec d")
    case None
    with strip_received [OF assms(1,2) len]
    have "strip V B codec (received_buf B md len d) = (False, received_buf B md len d)" by simp
    with q1 Cons.hyps(2) [symmetric] None
      IH [of batch n m "record_drop InvalidFraming 1 (length d) c"] show ?thesis
      by (subst collect_ingress_loop.simps) (simp add: recv_capacity_def List.map_filter_def)
  next
    case (Some p)
    with strip_received [OF assms(1,2) len] obtain b where b: "strip V B codec (received_buf B md len d) = (True, b)"
      "buf_bytes B b = p" by auto
    obtain new q' where "collect_ingress_loop V B Q md len codec (batch @ [b]) (n + 1) (m + length (buf_bytes B b)) c q1 =
      Some ((batch @ [b]) @ new, (n + 1) + length new, (m + length (buf_bytes B b)) + sum_list (map (length \<circ> buf_bytes B) new),
        fold apply_tally (map (\<lambda>d. Dropped InvalidFraming 1 (length d)) (filter (\<lambda>d. payload_of codec d = None) (inq q1))) c, q')"
      "map (buf_bytes B) new = List.map_filter (payload_of codec) (inq q1)" "inq q' = []"
      using IH by blast
    with q1 b Cons.hyps(2) [symmetric] Some show ?thesis
      by (intro exI [of _ "b # new"] exI [of _ q'], subst collect_ingress_loop.simps)
        (simp add: recv_capacity_def List.map_filter_def)
  qed
qed

definition ingress_tallies :: "datagram_codec \<Rightarrow> u8 list list \<Rightarrow> tally list" where
  "ingress_tallies codec ds =
     (let ps = List.map_filter (payload_of codec) ds in
      map (\<lambda>d. Dropped InvalidFraming 1 (length d)) (filter (\<lambda>d. payload_of codec d = None) ds) @
      (if ps = [] then [] else [Succeeded (length ps) (sum_list (map length ps))]))"

lemma collect_router_ingress_eq:
  assumes "buf_ok B" "codec_ok V codec" "recv_queue_ok Q inq"
    "\<forall>d\<in>set (inq q). length d \<le> recv_capacity B md len"
  shows "\<exists>batch q'. collect_router_ingress V B Q md len codec c q =
      Some (batch, fold apply_tally (ingress_tallies codec (inq q)) c, q') \<and>
    map (buf_bytes B) batch = List.map_filter (payload_of codec) (inq q) \<and> inq q' = []"
proof -
  obtain new q' where loop: "collect_ingress_loop V B Q md len codec [] 0 0 c q =
      Some (new, length new, sum_list (map (length \<circ> buf_bytes B) new),
        fold apply_tally (map (\<lambda>d. Dropped InvalidFraming 1 (length d)) (filter (\<lambda>d. payload_of codec d = None) (inq q))) c, q')"
    and new: "map (buf_bytes B) new = List.map_filter (payload_of codec) (inq q)" and q': "inq q' = []"
    using collect_ingress_loop_exact [OF assms, of "[]" 0 0 c] by auto
  have "length new = length (List.map_filter (payload_of codec) (inq q))"
    "map length (List.map_filter (payload_of codec) (inq q)) = map (length \<circ> buf_bytes B) new"
    by (simp_all flip: new)
  then show ?thesis
    using new q' by (intro exI [of _ new] exI [of _ q'])
      (simp add: collect_router_ingress_def loop ingress_tallies_def Let_def)
qed

section \<open>Sending datagrams\<close>

text \<open>
  Every packet is either queued, framed, or dropped with one tally; the packets queued keep their order.
\<close>

lemma prepend_cases:
  assumes "buf_ok B" "codec_ok V codec"
  shows "if HEADROOM \<le> buf_headroom B b
    then fst (prepend B codec b) \<and> buf_bytes B (snd (prepend B codec b)) = frame codec (buf_bytes B b) else True"
proof -
  have "qsi_len codec + 1 \<le> HEADROOM" using assms(2) by (simp add: codec_ok_def HEADROOM_def)
  with prepend_eq [OF assms, of b] show ?thesis by (auto simp: frame_def)
qed

lemma egress_loop_eq:
  assumes "buf_ok B" "codec_ok V codec" "send_queue_ok Q outq" "\<forall>b\<in>set pkts. HEADROOM \<le> buf_headroom B b"
  shows "\<exists>acc drops q'. egress_loop B Q codec pkts (n, m, c, q) =
      (n + length acc, m + sum_list (map length acc), fold apply_tally drops c, q') \<and>
    outq q' = outq q @ map (frame codec) acc \<and> subseq acc (map (buf_bytes B) pkts) \<and>
    length acc + length drops = length pkts \<and>
    (\<forall>t\<in>set drops. \<exists>b\<in>set pkts. t \<in> {Dropped QueueFull 1 (length (buf_bytes B b)), Dropped QuicError 1 (length (buf_bytes B b))})"
  using assms(4)
proof (induction pkts arbitrary: n m c q)
  case Nil
  then show ?case by (intro exI [of _ "[]"]) simp
next
  case (Cons p ps)
  let ?len = "length (buf_bytes B p)"
  obtain f p' where fp: "prepend B codec p = (f, p')" by fastforce
  with prepend_cases [OF assms(1,2), of p] Cons.prems
  have p': "prepend B codec p = (True, p')" "buf_bytes B p' = frame codec (buf_bytes B p)" by simp_all
  obtain q1 r where snd: "q_dgram_send Q (buf_bytes B p') q = (q1, r)" by fastforce
  have out: "outq q1 = outq q @ (if is_ok r then [frame codec (buf_bytes B p)] else [])"
    using assms(3) snd p'(2) unfolding send_queue_ok_def by (metis fst_conv snd_conv)
  have rest: "\<forall>b\<in>set ps. HEADROOM \<le> buf_headroom B b" using Cons.prems by simp
  show ?case
  proof (cases r)
    case (Inr u)
    obtain acc drops q' where "egress_loop B Q codec ps (n + 1, m + ?len, c, q1) =
        ((n + 1) + length acc, (m + ?len) + sum_list (map length acc), fold apply_tally drops c, q')"
      "outq q' = outq q1 @ map (frame codec) acc" "subseq acc (map (buf_bytes B) ps)"
      "length acc + length drops = length ps"
      "\<forall>t\<in>set drops. \<exists>b\<in>set ps. t \<in> {Dropped QueueFull 1 (length (buf_bytes B b)), Dropped QuicError 1 (length (buf_bytes B b))}"
      using Cons.IH [OF rest, of "n + 1" "m + ?len" c q1] by (elim exE conjE, intro that) assumption+
    with p' snd out Inr show ?thesis
      by (intro exI [of _ "buf_bytes B p # acc"] exI [of _ drops] exI [of _ q']) (auto simp: is_ok_def)
  next
    case (Inl e)
    define t where "t = (case e of QuicDone \<Rightarrow> Dropped QueueFull 1 ?len | QuicOther _ \<Rightarrow> Dropped QuicError 1 ?len)"
    obtain acc drops q' where "egress_loop B Q codec ps (n, m, apply_tally t c, q1) =
        (n + length acc, m + sum_list (map length acc), fold apply_tally drops (apply_tally t c), q')"
      "outq q' = outq q1 @ map (frame codec) acc" "subseq acc (map (buf_bytes B) ps)"
      "length acc + length drops = length ps"
      "\<forall>t\<in>set drops. \<exists>b\<in>set ps. t \<in> {Dropped QueueFull 1 (length (buf_bytes B b)), Dropped QuicError 1 (length (buf_bytes B b))}"
      using Cons.IH [OF rest, of n m "apply_tally t c" q1] by (elim exE conjE, intro that) assumption+
    with p' snd out Inl show ?thesis
      by (intro exI [of _ acc] exI [of _ "t # drops"] exI [of _ q'])
        (cases e; auto simp: is_ok_def t_def)
  qed
qed

lemma handle_router_egress_eq:
  assumes "buf_ok B" "codec_ok V codec" "send_queue_ok Q outq" "\<forall>b\<in>set pkts. HEADROOM \<le> buf_headroom B b"
  shows "\<exists>acc drops q'. handle_router_egress B Q codec pkts (c, q) =
      (fold apply_tally (drops @ (if acc = [] then [] else [Succeeded (length acc) (sum_list (map length acc))])) c, q') \<and>
    outq q' = outq q @ map (frame codec) acc \<and> subseq acc (map (buf_bytes B) pkts) \<and>
    length acc + length drops = length pkts \<and>
    (\<forall>t\<in>set drops. \<exists>b\<in>set pkts. t \<in> {Dropped QueueFull 1 (length (buf_bytes B b)), Dropped QuicError 1 (length (buf_bytes B b))})"
proof -
  obtain acc drops q' where "egress_loop B Q codec pkts (0, 0, c, q) =
      (length acc, sum_list (map length acc), fold apply_tally drops c, q')"
    "outq q' = outq q @ map (frame codec) acc" "subseq acc (map (buf_bytes B) pkts)"
    "length acc + length drops = length pkts"
    "\<forall>t\<in>set drops. \<exists>b\<in>set pkts. t \<in> {Dropped QueueFull 1 (length (buf_bytes B b)), Dropped QuicError 1 (length (buf_bytes B b))}"
    using egress_loop_eq [OF assms, of 0 0 c q] by auto
  then show ?thesis
    by (intro exI [of _ acc] exI [of _ drops] exI [of _ q']) (simp add: handle_router_egress_def)
qed

lemma egress_amounts:
  assumes "\<forall>t\<in>set drops. \<exists>b\<in>set pkts. t \<in> {Dropped QueueFull 1 (f b), Dropped QuicError 1 (f b)}"
  shows "sum_list (map (success_amount amount) drops) = 0"
    "sum_list (map (drop_amount (\<lambda>n b. n) (\<lambda>_. True)) drops) = length drops"
  using assms by (induction drops) auto

section \<open>The invariant of the loop\<close>

abbreviation slot :: "'a option \<Rightarrow> 'a list" where
  "slot x \<equiv> (case x of None \<Rightarrow> [] | Some a \<Rightarrow> [a])"

definition engine_inv :: "('q, 'b) engine_state \<Rightarrow> bool" where
  "engine_inv s \<longleftrightarrow>
     prefix (e_ingress s) (e_collected s) \<and> prefix (e_udp s) (e_produced s) \<and>
     (e_exit s = None \<longrightarrow>
        e_collected s = e_ingress s @ slot (e_pending_ingress s) \<and>
        e_produced s = e_udp s @ slot (e_pending_send s)) \<and>
     drops_balanced (e_rx s) \<and> drops_balanced (e_tx s) \<and> [] \<notin> set (e_collected s)"

definition engine_start :: "('q, 'b) engine_state \<Rightarrow> bool" where
  "engine_start s = (s = engine_init (e_conn s) (e_session s))"

definition engine_trans :: "('q, 'b) engine_params \<Rightarrow> ('q, 'b) engine_state \<Rightarrow> ('q, 'b) engine_state \<Rightarrow> bool" where
  "engine_trans P s t = (\<exists>ev. engine_step P ev s = Some t)"

lemma engine_start_inv: "engine_start s \<Longrightarrow> engine_inv s"
  unfolding engine_start_def by (erule ssubst) (simp add: engine_init_def engine_inv_def drops_balanced_new)

lemma drops_balanced_record [intro]:
  "drops_balanced c \<Longrightarrow> drops_balanced (record_drop r n b c)"
  "drops_balanced c \<Longrightarrow> drops_balanced (record_success n b c)"
  "drops_balanced c \<Longrightarrow> drops_balanced (record_queue_full d c)"
  using drops_balanced_apply [of c "Dropped r n b"] drops_balanced_apply [of c "Succeeded n b"]
    drops_balanced_apply [of c "QueueWait d"] by simp_all

lemma handle_udp_recv_balanced:
  "drops_balanced c \<Longrightarrow> \<exists>c' q'. handle_udp_recv B Q info pkts (Some c, q) = (Some c', q') \<and> drops_balanced c'"
proof (induction pkts arbitrary: c q)
  case (Cons p ps)
  define c1 where "c1 = (if q_recv_queue_full Q q then record_drop QueueFull 1 0 c else c)"
  have c1: "drops_balanced c1" using Cons.prems by (auto simp: c1_def)
  obtain q1 r where r: "q_recv Q (buf_bytes B p) info q = (q1, r)" by fastforce
  define c2 where "c2 = (case r of Ok _ \<Rightarrow> c1 | Err QuicDone \<Rightarrow> c1
    | Err (QuicOther _) \<Rightarrow> record_drop QuicError 1 (length (buf_bytes B p)) c1)"
  have c2: "drops_balanced c2" using c1 by (auto simp: c2_def split: sum.split quic_error.split)
  have "handle_udp_recv B Q info (p # ps) (Some c, q) = handle_udp_recv B Q info ps (Some c2, q1)"
    by (simp add: r c2_def c1_def Let_def split: sum.split quic_error.split)
  with Cons.IH [OF c2, of q1] show ?case by simp
qed simp

lemma collect_ingress_loop_balanced:
  assumes "collect_ingress_loop V B Q md len codec batch n m c q = Some y" "drops_balanced c"
  shows "drops_balanced (fst (snd (snd (snd y))))"
  using assms
proof (induction V B Q md len codec batch n m c q y
    rule: collect_ingress_loop.raw_induct [rotated, consumes 1, case_names step])
  case (step loop V B Q md len codec batch n m c q y)
  from step.hyps step.prems show ?case
    by (auto split: prod.splits sum.splits if_splits intro: step.IH)
qed

lemma collect_router_ingress_balanced:
  assumes "collect_router_ingress V B Q md len codec c q = Some (batch, c', q')" "drops_balanced c"
  shows "drops_balanced c'"
  using assms collect_ingress_loop_balanced [of V B Q md len codec "[]" 0 0 c q]
  by (fastforce simp: collect_router_ingress_def)

lemma egress_loop_balanced:
  "drops_balanced c \<Longrightarrow> \<exists>n' m' c' q'. egress_loop B Q codec pkts (n, m, c, q) = (n', m', c', q') \<and> drops_balanced c'"
proof (induction pkts arbitrary: n m c q)
  case (Cons p ps)
  let ?len = "length (buf_bytes B p)"
  obtain f p' where p': "prepend B codec p = (f, p')" by fastforce
  obtain q1 r where r: "q_dgram_send Q (buf_bytes B p') q = (q1, r)" by fastforce
  have drop: "drops_balanced (record_drop x 1 ?len c)" for x using Cons.prems by blast
  show ?case
  proof (cases "\<not> f")
    case True
    with Cons.IH [OF drop [of NoHeadroom], of n m q] p' show ?thesis by simp
  next
    case False
    show ?thesis
    proof (cases r)
      case (Inl e)
      then show ?thesis using False p' r Cons.IH [OF drop [of QueueFull], of n m q1]
          Cons.IH [OF drop [of QuicError], of n m q1] by (cases e) (simp_all add: Let_def)
    qed (use False p' r Cons.IH [OF Cons.prems, of "n + 1" "m + ?len" q1] in \<open>simp add: Let_def\<close>)
  qed
qed simp

lemma handle_router_egress_balanced:
  "drops_balanced c \<Longrightarrow> drops_balanced (fst (handle_router_egress B Q codec pkts (c, q)))"
  by (drule egress_loop_balanced [of c B Q codec pkts 0 0 q])
    (auto simp: handle_router_egress_def)

lemma offer_ingress_inv:
  assumes "engine_inv s" "e_exit s = None" "e_pending_ingress s = None"
  shows "engine_inv (offer_ingress P batch s)"
  using assms
  by (cases "ep_try P (e_sends s)") (simp_all add: offer_ingress_def engine_inv_def prefix_def, auto)

lemma offer_send_inv:
  assumes "engine_inv s" "e_exit s = None" "e_pending_send s = None"
  shows "engine_inv (offer_send P out s)"
  using assms
  by (cases out; cases "ep_try P (e_sends s)") (simp_all add: offer_send_def engine_inv_def prefix_def)

lemma engine_udp_recv_inv:
  assumes inv: "engine_inv s" and "e_exit s = None" "e_pending_ingress s = None"
    and step: "engine_udp_recv P remote pkts s = Some t"
  shows "engine_inv t"
proof -
  have "drops_balanced (e_rx s)" using inv by (simp add: engine_inv_def)
  from handle_udp_recv_balanced [OF this] obtain c q where
    c: "handle_udp_recv (ep_buf P) (ep_quic P) (meta_recv_info (ep_meta P) remote) pkts
      (Some (e_rx s), e_conn s) = (Some c, q)" "drops_balanced c" by metis
  have "poll_h3_events (ep_octets P) (ep_quic P) ignore_headers (e_session s) q \<noteq> None"
    using step c(1) by (intro notI) (simp add: engine_udp_recv_def)
  then obtain ses q1 r where poll: "poll_h3_events (ep_octets P) (ep_quic P) ignore_headers (e_session s) q = Some (ses, q1, r)"
    by (metis not_None_eq prod_cases3)
  let ?s = "s\<lparr>e_conn := q1, e_session := ses, e_rx := c\<rparr>"
  have s: "engine_inv ?s" using inv c(2) by (simp add: engine_inv_def)
  show ?thesis
  proof (cases r)
    case (Inl e)
    with step c poll have "t = ?s\<lparr>e_exit := Some (Err (into_actor_reason e))\<rparr>"
      by (simp add: engine_udp_recv_def Let_def)
    with s show ?thesis by (simp add: engine_inv_def)
  next
    case (Inr u)
    with step c poll obtain batch c2 q2 where
      col: "collect_router_ingress (ep_octets P) (ep_buf P) (ep_quic P) (ep_max_datagram P)
        (em_max_udp_payload (ep_meta P)) (datagram_codec ses) c q1 = Some (batch, c2, q2)"
      and t: "t = offer_ingress P batch (?s\<lparr>e_conn := q2, e_rx := c2\<rparr>)"
      by (auto simp: engine_udp_recv_def Let_def)
    have "engine_inv (?s\<lparr>e_conn := q2, e_rx := c2\<rparr>)"
      using s collect_router_ingress_balanced [OF col c(2)] by (simp add: engine_inv_def)
    with t assms(2,3) show ?thesis by (simp add: offer_ingress_inv)
  qed
qed

lemma engine_arm_inv:
  assumes "engine_inv s" "e_exit s = None" "arm_enabled ev s" "engine_arm P ev s = Some t"
  shows "engine_inv t"
proof (cases "(P, ev, s)" rule: engine_arm.cases)
  case (2 P' remote pkts s')
  with assms show ?thesis by (simp add: engine_udp_recv_inv)
next
  case (4 P' waited s')
  with assms have "t = s\<lparr>e_pending_ingress := None, e_rx := record_queue_full waited (e_rx s),
      e_ingress := e_ingress s @ [the (e_pending_ingress s)]\<rparr>" "e_pending_ingress s \<noteq> None" by simp_all
  with assms(1,2) show ?thesis by (auto simp: engine_inv_def)
next
  case (6 P' pkts s')
  with assms show ?thesis
    using handle_router_egress_balanced [of "e_tx s" "ep_buf P" "ep_quic P" "datagram_codec (e_session s)" pkts "e_conn s"]
    by (auto simp: engine_inv_def split: prod.splits)
next
  case (9 P' waited s')
  with assms have "t = s\<lparr>e_pending_send := None, e_tx := record_queue_full waited (e_tx s),
      e_udp := e_udp s @ [the (e_pending_send s)]\<rparr>" "e_pending_send s \<noteq> None" by simp_all
  with assms(1,2) show ?thesis by (auto simp: engine_inv_def)
qed (use assms in \<open>auto simp: engine_inv_def emit_metrics_def\<close>)

lemma engine_tail_inv:
  assumes "engine_inv s" "e_exit s = None" "engine_tail P s = Some t"
  shows "engine_inv t"
proof -
  have close: "engine_inv (if e_exit u = None \<and> q_is_closed (ep_quic P) (e_conn u)
      then u\<lparr>e_exit := Some (Err ''QUIC connection closed'')\<rparr> else u)" if "engine_inv u" for u :: "('a, 'b) engine_state"
    using that by (auto simp: engine_inv_def)
  have "engine_inv (offer_send P out (s\<lparr>e_conn := q\<rparr>))" if "e_pending_send s = None" for out q
    using assms that by (intro offer_send_inv) (auto simp: engine_inv_def)
  note offer = this
  show ?thesis
  proof (cases "e_pending_send s")
    case None
    then obtain out q where "t = (let u = offer_send P out (s\<lparr>e_conn := q\<rparr>) in
        if e_exit u = None \<and> q_is_closed (ep_quic P) (e_conn u)
        then u\<lparr>e_exit := Some (Err ''QUIC connection closed'')\<rparr> else u)"
      using assms(3) by (auto simp: engine_tail_def Let_def)
    with close [OF offer [OF None, of out q]] show ?thesis by (simp only: Let_def)
  next
    case (Some x)
    with assms(3) have "t = (if e_exit s = None \<and> q_is_closed (ep_quic P) (e_conn s)
        then s\<lparr>e_exit := Some (Err ''QUIC connection closed'')\<rparr> else s)"
      by (simp add: engine_tail_def)
    with close [OF assms(1)] show ?thesis by simp
  qed
qed

interpretation engine_loop: inductive_invariant engine_start "engine_trans P" engine_inv for P
proof
  show "engine_start s \<Longrightarrow> engine_inv s" for s :: "('a, 'b) engine_state" by (rule engine_start_inv)
  show "engine_inv s \<Longrightarrow> engine_trans P s t \<Longrightarrow> engine_inv t" for s t :: "('a, 'b) engine_state"
    by (auto simp: engine_trans_def engine_step_def split: if_splits option.splits
        intro: engine_arm_inv engine_tail_inv)
qed

section \<open>Every iteration ends\<close>

definition send_progress :: "'q quic_lib \<Rightarrow> ('q \<Rightarrow> nat) \<Rightarrow> bool" where
  "send_progress Q pending \<longleftrightarrow> (\<forall>cap q q' x. q_send Q cap q = (q', Ok x) \<longrightarrow> pending q' < pending q)"

definition dgram_progress :: "'q quic_lib \<Rightarrow> ('q \<Rightarrow> nat) \<Rightarrow> bool" where
  "dgram_progress Q pending \<longleftrightarrow> (\<forall>cap q q' x. q_dgram_recv Q cap q = (q', Ok x) \<longrightarrow> pending q' < pending q)"

lemma collect_send_loop_total:
  assumes "send_progress Q pending"
  shows "\<exists>y. collect_send_loop B Q md len batch dest q = Some y"
proof (induction "pending q" arbitrary: q batch dest rule: less_induct)
  case less
  obtain q1 r where r: "q_send Q (length (buf_bytes B (alloc_uninit_packet_buf B md len))) q = (q1, r)" by fastforce
  have rec: "\<exists>y. collect_send_loop B Q md len batch dest q1 = Some y" if "r = Inr x" for x batch dest
    using less [of q1 batch dest] r that assms unfolding send_progress_def by blast
  show ?case
  proof (cases r)
    case (Inr x)
    with rec [OF this] r show ?thesis by (subst collect_send_loop.simps) simp
  qed (use r in \<open>simp add: collect_send_loop.simps\<close>)
qed

lemma collect_ingress_loop_total:
  assumes "dgram_progress Q pending"
  shows "\<exists>y. collect_ingress_loop V B Q md len codec batch n m c q = Some y"
proof (induction "pending q" arbitrary: q batch n m c rule: less_induct)
  case less
  obtain q1 r where r: "q_dgram_recv Q (length (buf_bytes B (alloc_uninit_packet_buf B md len))) q = (q1, r)" by fastforce
  have rec: "\<exists>y. collect_ingress_loop V B Q md len codec batch n m c q1 = Some y" if "r = Inr x" for x batch n m c
    using less [of q1 batch n m c] r that assms unfolding dgram_progress_def by blast
  show ?case
  proof (cases r)
    case (Inr x)
    obtain ok buf where "strip V B codec (received_buf B md len x) = (ok, buf)" by fastforce
    with rec [OF Inr] r Inr show ?thesis by (subst collect_ingress_loop.simps) (cases ok; simp)
  qed (use r in \<open>simp add: collect_ingress_loop.simps\<close>)
qed

lemma engine_arm_total:
  assumes "poll_progress (ep_quic P) ignore_headers ev_pending" "dgram_progress (ep_quic P) dg_pending"
  shows "\<exists>t. engine_arm P ev s = Some t"
proof (cases "(P, ev, s)" rule: engine_arm.cases)
  case (2 P' remote pkts s')
  obtain c q where c: "handle_udp_recv (ep_buf P) (ep_quic P) (meta_recv_info (ep_meta P) remote) pkts
      (Some (e_rx s), e_conn s) = (c, q)" by fastforce
  obtain ses q1 r where poll: "poll_h3_events (ep_octets P) (ep_quic P) ignore_headers (e_session s) q = Some (ses, q1, r)"
    using poll_h3_events_total [OF assms(1)] by (metis prod_cases3)
  have "\<exists>y. collect_router_ingress (ep_octets P) (ep_buf P) (ep_quic P) (ep_max_datagram P)
      (em_max_udp_payload (ep_meta P)) (datagram_codec ses) (the c) q1 = Some y"
    using collect_ingress_loop_total [OF assms(2)] by (fastforce simp: collect_router_ingress_def)
  with 2 c poll show ?thesis by (auto simp: engine_udp_recv_def Let_def split: sum.split)
qed (auto split: prod.split)

lemma engine_step_total:
  assumes "poll_progress (ep_quic P) ignore_headers ev_pending" "dgram_progress (ep_quic P) dg_pending"
    "send_progress (ep_quic P) tx_pending" "e_exit s = None" "arm_enabled ev s"
  shows "\<exists>t. engine_step P ev s = Some t"
proof -
  obtain t where t: "engine_arm P ev s = Some t" using engine_arm_total [OF assms(1,2)] by blast
  have "\<exists>y. collect_udp_send (ep_buf P) (ep_quic P) (ep_max_datagram P) (em_max_udp_payload (ep_meta P)) (e_conn t) = Some y"
    using collect_send_loop_total [OF assms(3)] by (simp add: collect_udp_send_def)
  with t assms(4,5) show ?thesis by (auto simp: engine_step_def engine_tail_def Let_def)
qed

section \<open>The reference connection\<close>

lemma quic_ref_queues:
  "recv_queue_ok quic_ref rc_in" "send_queue_ok quic_ref rc_out"
  by (auto simp: recv_queue_ok_def send_queue_ok_def quic_ref_def is_ok_def)

lemma quic_ref_progress:
  "dgram_progress quic_ref (length \<circ> rc_in)" "send_progress quic_ref (length \<circ> rc_out)"
  by (auto simp: dgram_progress_def send_progress_def quic_ref_def split: list.splits if_splits)

lemma quic_ref_poll_progress: "poll_progress quic_ref ignore_headers (length \<circ> rc_events)"
  by (auto simp: poll_progress_def quic_ref_def ignore_headers_def split: list.splits)

section \<open>Properties\<close>

definition sample_addr :: socket_addr where
  "sample_addr = (V4 167772161, 443)"

definition sample_engine :: "(ref_conn, nat \<times> u8 list) engine_params" where
  "sample_engine = \<lparr>ep_octets = octets_ref, ep_buf = buf_ref, ep_quic = quic_ref, ep_max_datagram = 1500,
     ep_try = (\<lambda>n. TryFull),
     ep_meta = \<lparr>em_local_addr = sample_addr, em_remote_addr = sample_addr, em_peer_id = ''a'', em_max_udp_payload = 1200\<rparr>\<rparr>"

text \<open>A packet of two bytes in a buffer with the usual headroom, on stream 0.\<close>

definition sample_session :: h3_session where
  "sample_session = \<lparr>connect_stream_id = Some 0,
     datagram_codec = \<lparr>expected_qsi = 0, qsi_buf = 0 # replicate 7 0, qsi_len = 1\<rparr>,
     connect_accepted = True, accepted_peer_id = None\<rparr>"

definition sample_start :: "(ref_conn, nat \<times> u8 list) engine_state" where
  "sample_start = engine_init (ref_conn_new sample_addr []) sample_session"

definition sample_egress :: "(ref_conn, nat \<times> u8 list) engine_state option" where
  "sample_egress = engine_step sample_engine (Egress (Some [(10, [69, 0])])) sample_start"

lemma sample_codec: "codec_new octets_ref 0 = Some (datagram_codec sample_session)"
  by (simp add: codec_new_def encode_qsi_def octets_ref_def vlen_def venc_def vtag_def sample_session_def)

lemma received_buf_ref [simp]: "received_buf buf_ref md len data = (HEADROOM, data)"
  by (simp add: received_buf_def alloc_uninit_packet_buf_def buf_ref_def Let_def)

lemma collect_send_loop_ref:
  "collect_send_loop B quic_ref md len batch dest q =
     Some (map_option (\<lambda>d. (d, batch @ map (received_buf B md len) (rc_out q)))
             (if rc_out q = [] then dest else Some (rc_peer q)), q\<lparr>rc_out := []\<rparr>)"
proof (induction "rc_out q" arbitrary: q batch dest)
  case Nil
  then show ?case by (subst collect_send_loop.simps) (simp add: quic_ref_def)
next
  case (Cons d ds)
  then have "q_send quic_ref cap q = (q\<lparr>rc_out := ds\<rparr>, Ok (d, rc_peer q))" for cap
    by (simp add: quic_ref_def flip: Cons.hyps(2))
  with Cons.hyps(1) [of "q\<lparr>rc_out := ds\<rparr>"] Cons.hyps(2) [symmetric] show ?case
    by (subst collect_send_loop.simps) (cases "rc_peer q"; simp)
qed

lemma sample_egress_value:
  "\<exists>t. sample_egress = Some t \<and> e_exit t = None \<and> e_udp t = [] \<and>
     e_pending_send t = Some (sample_addr, [(10, [0, 0, 69, 0])])"
proof -
  have "handle_router_egress buf_ref quic_ref (datagram_codec sample_session) [(10, [69, 0])] (c, ref_conn_new sample_addr []) =
      (record_success 1 2 c, (ref_conn_new sample_addr [])\<lparr>rc_out := [[0, 0, 69, 0]]\<rparr>)" for c
    by (simp add: handle_router_egress_def prepend_def sample_session_def qsi_bytes_def CONTEXT_ID_IP_def
        buf_ref_def quic_ref_def ref_conn_new_def numeral_2_eq_2)
  then have "engine_arm sample_engine (Egress (Some [(10, [69, 0])])) sample_start =
      Some (sample_start\<lparr>e_tx := record_success 1 2 (e_tx sample_start),
        e_conn := (ref_conn_new sample_addr [])\<lparr>rc_out := [[0, 0, 69, 0]]\<rparr>\<rparr>)"
    by (simp add: sample_engine_def sample_start_def engine_init_def)
  then show ?thesis
    by (simp add: sample_egress_def engine_step_def engine_tail_def collect_udp_send_def collect_send_loop_ref
        sample_engine_def sample_start_def engine_init_def offer_send_def ref_conn_new_def HEADROOM_def
        quic_ref_def collect_send_loop_ref [unfolded quic_ref_def])
qed

text \<open>C11: The established loop loses and reorders nothing between the connection and its two channels,
  whatever the arrival order of events and the fullness of the channels. While it runs, the batches decoded
  from QUIC are exactly those handed to the router followed by the one waiting, in order, and the same holds
  of the encrypted batches and the UDP actor; after it ends, what was handed over is still a prefix. No
  empty batch is ever handed over.\<close>

theorem engine_backpressure_no_loss:
  assumes "reachable engine_start (engine_trans P) s"
  shows "(e_exit s = None \<longrightarrow>
      e_collected s = e_ingress s @ slot (e_pending_ingress s) \<and>
      e_produced s = e_udp s @ slot (e_pending_send s)) \<and>
    prefix (e_ingress s) (e_collected s) \<and> prefix (e_udp s) (e_produced s) \<and>
    [] \<notin> set (e_ingress s)"
  using engine_loop.reachable_inv [OF assms] unfolding engine_inv_def
  by (auto dest: set_mono_prefix)

theorem engine_backpressure_no_loss_witness:
  "\<exists>s. reachable engine_start (engine_trans sample_engine) s \<and> e_exit s = None \<and>
     e_produced s = [(sample_addr, [(10, [0, 0, 69, 0])])] \<and> e_udp s = []"
proof -
  obtain t where t: "sample_egress = Some t" "e_exit t = None" "e_udp t = []"
    "e_pending_send t = Some (sample_addr, [(10, [0, 0, 69, 0])])"
    using sample_egress_value by blast
  have "reachable engine_start (engine_trans sample_engine) t"
  proof (rule reachable_step)
    show "reachable engine_start (engine_trans sample_engine) sample_start"
      by (rule reachable_init) (simp add: engine_start_def sample_start_def engine_init_def)
    show "engine_trans sample_engine sample_start t"
      using t(1) unfolding engine_trans_def sample_egress_def by blast
  qed
  with engine_backpressure_no_loss [OF this] t show ?thesis by auto
qed

text \<open>C22: Every iteration of the loop ends. As long as the loop has not exited and the arm of an event is
  enabled, handling the event and the flush after it return, provided each successful poll, datagram
  receive or send consumes something the connection holds.\<close>

theorem engine_step_returns:
  assumes "poll_progress (ep_quic P) ignore_headers ev_pending" "dgram_progress (ep_quic P) dg_pending"
    "send_progress (ep_quic P) tx_pending" "e_exit s = None" "arm_enabled ev s"
  shows "\<exists>t. engine_step P ev s = Some t"
  by (rule engine_step_total [OF assms])

theorem engine_step_returns_witness:
  "\<exists>t. engine_step sample_engine (UdpRecv (Some (sample_addr, [(10, [1])]))) sample_start = Some t"
  by (rule engine_step_returns [of _ "length \<circ> rc_events" "length \<circ> rc_in" "length \<circ> rc_out"])
    (simp_all add: sample_engine_def sample_start_def engine_init_def quic_ref_progress quic_ref_poll_progress)

text \<open>C21: Sending accounts for every packet. With packets that have the usual headroom, each is either
  queued as its framed datagram, in order, or counted as dropped for a full queue or a QUIC error: the
  packets queued and the increase of the dropped counter add up to the batch, and the success counter
  grows by exactly the packets queued.\<close>

theorem egress_accounting:
  assumes "buf_ok B" "octets_ok V" "codec_new V sid = Some codec" "send_queue_ok Q outq"
    and "\<forall>b\<in>set pkts. HEADROOM \<le> buf_headroom B b"
    and "handle_router_egress B Q codec pkts (c, q) = (c', q')"
    and "packets (succeeded (c_stats c)) + length pkts \<le> u64_max"
      "packets (dropped (c_stats c)) + length pkts \<le> u64_max"
  shows "\<exists>acc. subseq acc (map (buf_bytes B) pkts) \<and> outq q' = outq q @ map (frame codec) acc \<and>
    packets (succeeded (c_stats c')) = packets (succeeded (c_stats c)) + length acc \<and>
    packets (dropped (c_stats c')) + length acc = packets (dropped (c_stats c)) + length pkts"
proof -
  have ok: "codec_ok V codec" using codec_newD [OF assms(2,3)] by simp
  obtain acc drops where
    c': "c' = fold apply_tally (drops @ (if acc = [] then [] else [Succeeded (length acc) (sum_list (map length acc))])) c"
    and acc: "outq q' = outq q @ map (frame codec) acc" "subseq acc (map (buf_bytes B) pkts)"
      "length acc + length drops = length pkts"
    and drops: "\<forall>t\<in>set drops. \<exists>b\<in>set pkts. t \<in> {Dropped QueueFull 1 (length (buf_bytes B b)), Dropped QuicError 1 (length (buf_bytes B b))}"
    using handle_router_egress_eq [OF assms(1) ok assms(4,5), of c q] assms(6) by auto
  let ?ts = "drops @ (if acc = [] then [] else [Succeeded (length acc) (sum_list (map length acc))])"
  have "sum_list (map (success_amount (\<lambda>n b. n)) ?ts) = length acc"
    "sum_list (map (drop_amount (\<lambda>n b. n) (\<lambda>_. True)) ?ts) = length drops"
    using egress_amounts [OF drops] by simp_all
  then have "packets (succeeded (c_stats c')) = packets (succeeded (c_stats c)) + length acc"
    "packets (dropped (c_stats c')) = packets (dropped (c_stats c)) + length drops"
    using pkts.succeeded_fold [of c ?ts] pkts.dropped_fold [of c ?ts] assms(7,8) acc(3) unfolding c' by linarith+
  with acc show ?thesis by (intro exI [of _ acc]) simp
qed

theorem egress_accounting_witness:
  "\<exists>acc c' q'. handle_router_egress buf_ref quic_ref (datagram_codec sample_session) [(10, [69, 0])]
       (counters_new Http3 Tx, ref_conn_new sample_addr []) = (c', q') \<and>
     packets (dropped (c_stats c')) + length acc = 1 \<and>
     rc_out q' = map (frame (datagram_codec sample_session)) acc"
proof -
  obtain c' q' where h: "handle_router_egress buf_ref quic_ref (datagram_codec sample_session) [(10, [69, 0])]
       (counters_new Http3 Tx, ref_conn_new sample_addr []) = (c', q')" by fastforce
  have "\<exists>acc. subseq acc (map (buf_bytes buf_ref) [(10, [69, 0])]) \<and>
      rc_out q' = rc_out (ref_conn_new sample_addr []) @ map (frame (datagram_codec sample_session)) acc \<and>
      packets (succeeded (c_stats c')) = packets (succeeded (c_stats (counters_new Http3 Tx))) + length acc \<and>
      packets (dropped (c_stats c')) + length acc = packets (dropped (c_stats (counters_new Http3 Tx))) + length [(10 :: nat, [69 :: u8, 0])]"
    by (rule egress_accounting [OF buf_ref_ok octets_ref_ok sample_codec quic_ref_queues(2) _ h])
      (simp_all add: buf_ref_def HEADROOM_def stats_default_def zero_pkt_def u64_max_def)
  then show ?thesis using h by (fastforce simp: stats_default_def zero_pkt_def ref_conn_new_def)
qed

text \<open>C5: A tunnel in one direction. When the datagrams one engine has queued reach a peer engine whose
  codec is bound to the same stream, the peer decodes exactly the packets that were accepted for sending,
  in their order and with their bytes, and drops none of them for its framing.\<close>

theorem tunnel_roundtrip:
  assumes "buf_ok B" "octets_ok V" "codec_new V sid = Some codec" "send_queue_ok Q outq" "recv_queue_ok Q inq"
    and "\<forall>b\<in>set pkts. HEADROOM \<le> buf_headroom B b \<and> buf_bytes B b \<noteq> [] \<and>
      length (buf_bytes B b) + HEADROOM \<le> recv_capacity B md len"
    and "handle_router_egress B Q codec pkts (c, q) = (c', q')" "outq q = []" "inq r = outq q'"
  shows "\<exists>acc batch r'. subseq acc (map (buf_bytes B) pkts) \<and> outq q' = map (frame codec) acc \<and>
    collect_router_ingress V B Q md len codec d r =
      Some (batch, if acc = [] then d else record_success (length acc) (sum_list (map length acc)) d, r') \<and>
    map (buf_bytes B) batch = acc \<and> inq r' = []"
proof -
  have ok: "codec_ok V codec" using codec_newD [OF assms(2,3)] by simp
  then have len: "length (qsi_bytes codec) = qsi_len codec" "qsi_len codec + 1 \<le> HEADROOM"
    by (simp_all add: codec_ok_def HEADROOM_def)
  have room: "\<forall>b\<in>set pkts. HEADROOM \<le> buf_headroom B b" using assms(6) by blast
  obtain acc where acc: "outq q' = map (frame codec) acc" "subseq acc (map (buf_bytes B) pkts)"
    using handle_router_egress_eq [OF assms(1) ok assms(4) room, of c q] assms(7,8) by auto
  have mem: "p \<noteq> [] \<and> length p + HEADROOM \<le> recv_capacity B md len" if "p \<in> set acc" for p
  proof -
    from list_emb_set [OF acc(2) that] obtain y where "y \<in> set (map (buf_bytes B) pkts)" "p = y" by blast
    with assms(6) show ?thesis by auto
  qed
  then have pay: "payload_of codec (frame codec p) = Some p" if "p \<in> set acc" for p
    using payload_of_iff [OF len(1)] that by blast
  have cap: "\<forall>x\<in>set (inq r). length x \<le> recv_capacity B md len"
  proof
    fix x assume "x \<in> set (inq r)"
    then obtain p where "p \<in> set acc" "x = frame codec p" using acc(1) assms(9) by auto
    with mem [of p] len show "length x \<le> recv_capacity B md len" by (simp add: frame_def)
  qed
  have dec: "List.map_filter (payload_of codec) (inq r) = acc" "filter (\<lambda>x. payload_of codec x = None) (inq r) = []"
    unfolding assms(9) acc(1) using pay by (induction acc) (simp_all add: List.map_filter_def)
  then have "fold apply_tally (ingress_tallies codec (inq r)) d =
      (if acc = [] then d else record_success (length acc) (sum_list (map length acc)) d)"
    by (simp add: ingress_tallies_def)
  with collect_router_ingress_eq [OF assms(1) ok assms(5) cap, of d] acc dec(1) show ?thesis
    by (intro exI [of _ acc]) simp
qed

theorem tunnel_roundtrip_witness:
  "\<exists>q' acc batch r' e. handle_router_egress buf_ref quic_ref (datagram_codec sample_session) [(10, [69, 0])]
       (counters_new Http3 Tx, ref_conn_new sample_addr []) = q' \<and>
     rc_out (snd q') = map (frame (datagram_codec sample_session)) acc \<and>
     collect_router_ingress octets_ref buf_ref quic_ref 1500 1200 (datagram_codec sample_session)
       (counters_new Http3 Rx) ((ref_conn_new sample_addr [])\<lparr>rc_in := rc_out (snd q')\<rparr>) = Some (batch, e, r') \<and>
     map snd batch = acc"
proof -
  obtain c' q' where h: "handle_router_egress buf_ref quic_ref (datagram_codec sample_session) [(10, [69, 0])]
       (counters_new Http3 Tx, ref_conn_new sample_addr []) = (c', q')" by fastforce
  have cap: "recv_capacity buf_ref 1500 1200 = 1490"
    by (simp add: recv_capacity_def alloc_uninit_packet_buf_def buf_ref_def HEADROOM_def)
  have "\<exists>acc batch r'. subseq acc (map (buf_bytes buf_ref) [(10, [69, 0])]) \<and>
      rc_out q' = map (frame (datagram_codec sample_session)) acc \<and>
      collect_router_ingress octets_ref buf_ref quic_ref 1500 1200 (datagram_codec sample_session)
        (counters_new Http3 Rx) ((ref_conn_new sample_addr [])\<lparr>rc_in := rc_out q'\<rparr>) =
        Some (batch, if acc = [] then counters_new Http3 Rx
          else record_success (length acc) (sum_list (map length acc)) (counters_new Http3 Rx), r') \<and>
      map (buf_bytes buf_ref) batch = acc \<and> rc_in r' = []"
    by (rule tunnel_roundtrip [OF buf_ref_ok octets_ref_ok sample_codec quic_ref_queues(2,1) _ h])
      (simp_all add: cap HEADROOM_def ref_conn_new_def, simp_all add: buf_ref_def)
  moreover have "buf_bytes buf_ref = snd" by (simp add: buf_ref_def)
  ultimately show ?thesis using h by (auto simp del: subseq_Cons2_iff)
qed

end
