(* ===== verification/Handshake.thy ===== *)
theory Handshake
  imports H3engine Actor
begin

text \<open>
  Startup of a tunnel connection on both sides: \<open>accept\<close> and the header callback of \<open>h3listener.rs\<close>,
  \<open>establish\<close> of \<open>h3dialer.rs\<close>, and the QUIC configurations of both. A handshake is driven by the
  arms of its \<open>select!\<close>; every way out of the function is an outcome, the panic of an \<open>expect\<close>
  included. The key of the authentication check is drawn per request, so it is a function of the request.
\<close>

section \<open>Configurations\<close>

datatype server_error = ServerSocket string | ServerConfig string | ServerWatcher string | ServerAccept string

datatype dial_error = DialSocket string | DialHandshake string | DialRejected string | DialTimeout duration

fun dial_error_of :: "connect_failure \<Rightarrow> dial_error" where
  "dial_error_of (Rejected status) = DialRejected status"
| "dial_error_of (Closed reason) = DialHandshake reason"
| "dial_error_of (Poll reason) = DialHandshake reason"

fun show_quic_error :: "quic_error \<Rightarrow> string" where
  "show_quic_error QuicDone = ''Done''"
| "show_quic_error (QuicOther e) = e"

text \<open>
  The fallible calls on \<open>quiche::Config\<close>: its construction, the setters of the application protocols and
  of the congestion control, and the three loaders.
\<close>

record config_lib =
  cl_new :: "(string, unit) result"
  cl_protos :: "(quic_error, unit) result"
  cl_cc :: "string \<Rightarrow> (quic_error, unit) result"
  cl_cert :: "string \<Rightarrow> (string, unit) result"
  cl_key :: "string \<Rightarrow> (string, unit) result"
  cl_ca :: "string \<Rightarrow> (string, unit) result"

record server_quic_config =
  sq_cert :: string
  sq_key :: string
  sq_transport :: transport_config

record client_quic_config =
  cq_verify_peer :: bool
  cq_trusted_ca :: "string option"
  cq_transport :: transport_config

text \<open>\<open>Path::to_str\<close>: the path when it is valid UTF-8.\<close>

definition path_to_str :: "string \<Rightarrow> string option" where
  "path_to_str p = (if from_utf8_lossy p = p then Some p else None)"

definition make_server_quiche_config ::
  "config_lib \<Rightarrow> h3_tuning \<Rightarrow> nat \<Rightarrow> string \<Rightarrow> string \<Rightarrow> (server_error, server_quic_config) result" where
  "make_server_quiche_config C t max_udp_payload cert_path key_path =
     (case cl_new C of
        Err e \<Rightarrow> Err (ServerConfig (''quiche config: '' @ e))
      | Ok _ \<Rightarrow>
        (case path_to_str cert_path of
           None \<Rightarrow> Err (ServerConfig ''invalid cert path encoding'')
         | Some cert \<Rightarrow>
           (case cl_cert C cert of
              Err e \<Rightarrow> Err (ServerConfig (''cert: '' @ e))
            | Ok _ \<Rightarrow>
              (case path_to_str key_path of
                 None \<Rightarrow> Err (ServerConfig ''invalid key path encoding'')
               | Some key \<Rightarrow>
                 (case cl_key C key of
                    Err e \<Rightarrow> Err (ServerConfig (''key: '' @ e))
                  | Ok _ \<Rightarrow>
                    (case apply_transport_config (cl_protos C) (cl_cc C) t max_udp_payload of
                       Err e \<Rightarrow> Err (ServerConfig (''transport config: '' @ show_quic_error e))
                     | Ok tc \<Rightarrow> Ok \<lparr>sq_cert = cert, sq_key = key, sq_transport = tc\<rparr>))))))"

definition make_client_quiche_config ::
  "config_lib \<Rightarrow> h3_tuning \<Rightarrow> nat \<Rightarrow> (dial_error, client_quic_config) result" where
  "make_client_quiche_config C t max_udp_payload =
     (case cl_new C of
        Err e \<Rightarrow> Err (DialHandshake (''quiche config: '' @ e))
      | Ok _ \<Rightarrow>
        (case apply_transport_config (cl_protos C) (cl_cc C) t max_udp_payload of
           Err e \<Rightarrow> Err (DialHandshake (''transport config: '' @ show_quic_error e))
         | Ok tc \<Rightarrow>
           if h3_insecure_skip_verify t
           then Ok \<lparr>cq_verify_peer = False, cq_trusted_ca = None, cq_transport = tc\<rparr>
           else (case h3_trusted_ca t of
                   None \<Rightarrow> Ok \<lparr>cq_verify_peer = True, cq_trusted_ca = None, cq_transport = tc\<rparr>
                 | Some ca_path \<Rightarrow>
                   (case cl_ca C ca_path of
                      Err e \<Rightarrow> Err (DialHandshake (''trusted CA `'' @ ca_path @ ''`: '' @ e))
                    | Ok _ \<Rightarrow> Ok \<lparr>cq_verify_peer = True, cq_trusted_ca = Some ca_path, cq_transport = tc\<rparr>))))"

section \<open>Handshake state\<close>

record ('q, 'b) handshake =
  hs_conn :: 'q
  hs_session :: "h3_session option"
  hs_peer_id :: string
  hs_sends :: nat
  hs_udp :: "(socket_addr \<times> 'b list) list"

datatype 'b handshake_event =
    HsUdp "(socket_addr \<times> 'b list) option"
  | HsTimer
  | HsDeadline

datatype ('e, 's) hs_outcome = Continue 's | Established 's | Failed 'e | Panicked

definition flush_send ::
  "('q, 'b) engine_params \<Rightarrow> ('q, 'b) handshake \<Rightarrow> (('q, 'b) handshake \<times> (string, unit) result) option" where
  "flush_send P s =
     map_option (\<lambda>(out, q).
       let s = s\<lparr>hs_conn := q\<rparr> in
       case out of
         None \<Rightarrow> (s, Ok ())
       | Some send \<Rightarrow>
           (let s = s\<lparr>hs_sends := Suc (hs_sends s)\<rparr> in
            case ep_try P (hs_sends s - 1) of
              TrySent \<Rightarrow> (s\<lparr>hs_udp := hs_udp s @ [send]\<rparr>, Ok ())
            | TryFull \<Rightarrow> (s, Ok ())
            | TryClosed \<Rightarrow> (s, Err ''UDP TX actor channel closed'')))
       (collect_udp_send (ep_buf P) (ep_quic P) (ep_max_datagram P) (em_max_udp_payload (ep_meta P)) (hs_conn s))"

text \<open>Flushing before continuing with \<open>next\<close>, the error wrapped by \<open>wrap\<close>.\<close>

definition flush_then ::
  "('q, 'b) engine_params \<Rightarrow> (string \<Rightarrow> 'e) \<Rightarrow> ('q, 'b) handshake \<Rightarrow>
     (('q, 'b) handshake \<Rightarrow> ('e, ('q, 'b) handshake) hs_outcome option) \<Rightarrow>
     ('e, ('q, 'b) handshake) hs_outcome option" where
  "flush_then P wrap s next =
     (case flush_send P s of
        None \<Rightarrow> None
      | Some (s, Err e) \<Rightarrow> Some (Failed (wrap e))
      | Some (s, Ok _) \<Rightarrow> next s)"

text \<open>The end of an iteration: flush, then the check for a closed connection.\<close>

definition hs_tail ::
  "('q, 'b) engine_params \<Rightarrow> (string \<Rightarrow> 'e) \<Rightarrow> string \<Rightarrow> ('q, 'b) handshake \<Rightarrow>
     ('e, ('q, 'b) handshake) hs_outcome option" where
  "hs_tail P wrap closed s =
     flush_then P wrap s (\<lambda>s.
       Some (if q_is_closed (ep_quic P) (hs_conn s) then Failed (wrap closed) else Continue s))"

section \<open>Server\<close>

definition server_handler ::
  "'q quic_lib \<Rightarrow> ('k, 'd) hmac_lib \<Rightarrow> (u64 \<Rightarrow> header list \<Rightarrow> 'k) \<Rightarrow> (string \<times> string) list \<Rightarrow> 'q header_handler" where
  "server_handler Q H key tokens q stream_id headers =
     (case validate_server_connect_headers headers of
        Err reason \<Rightarrow> (fst (h3_send_response Q stream_id [('':status'', ''400'')] True q), Ok Ignore)
      | Ok _ \<Rightarrow>
          (case validate_server_auth H (key stream_id headers) headers tokens of
             Err e \<Rightarrow> (fst (h3_send_response Q stream_id [('':status'', ''401'')] True q), Ok Ignore)
           | Ok pid \<Rightarrow>
               (let (q, r) = h3_send_response Q stream_id
                      [('':status'', ''200''), (''capsule-protocol'', ''?1'')] False q
                in (q, case r of
                      Err e \<Rightarrow> Err (Closed (''send 200: '' @ e))
                    | Ok _ \<Rightarrow> Ok (Accept stream_id (Some pid))))))"

definition accept_poll ::
  "('q, 'b) engine_params \<Rightarrow> 'q header_handler \<Rightarrow> ('q, 'b) handshake \<Rightarrow>
     (server_error, ('q, 'b) handshake) hs_outcome option" where
  "accept_poll P handler s =
     (case hs_session s of
        None \<Rightarrow> hs_tail P ServerAccept ''QUIC connection closed during handshake'' s
      | Some ses \<Rightarrow>
          (case poll_h3_events (ep_octets P) (ep_quic P) handler ses (hs_conn s) of
             None \<Rightarrow> None
           | Some (ses, q, r) \<Rightarrow>
               (let s = s\<lparr>hs_conn := q, hs_session := Some ses\<rparr> in
                case r of
                  Ok Ready \<Rightarrow>
                    (case accepted_peer_id ses of
                       None \<Rightarrow> Some Panicked
                     | Some pid \<Rightarrow>
                         flush_then P ServerAccept (s\<lparr>hs_session := Some (ses\<lparr>accepted_peer_id := None\<rparr>)\<rparr>)
                           (\<lambda>s. Some (Established (s\<lparr>hs_peer_id := pid\<rparr>))))
                | Ok Pending \<Rightarrow> hs_tail P ServerAccept ''QUIC connection closed during handshake'' s
                | Err e \<Rightarrow> flush_then P ServerAccept s (\<lambda>s. Some (Failed (ServerAccept (into_actor_reason e)))))))"

text \<open>The session is created when the connection is first seen established.\<close>

definition accept_step ::
  "('q, 'b) engine_params \<Rightarrow> 'q header_handler \<Rightarrow> 'b handshake_event \<Rightarrow> ('q, 'b) handshake \<Rightarrow>
     (server_error, ('q, 'b) handshake) hs_outcome option" where
  "accept_step P handler ev s =
     (case ev of
        HsUdp None \<Rightarrow> Some (Failed (ServerAccept ''udp rx closed during handshake''))
      | HsUdp (Some (remote, batch)) \<Rightarrow>
          (let q = snd (handle_udp_recv (ep_buf P) (ep_quic P) (meta_recv_info (ep_meta P) remote) batch (None, hs_conn s));
               s = s\<lparr>hs_conn := q\<rparr>
           in if hs_session s = None \<and> q_is_established (ep_quic P) q
              then (case session_with_transport (ep_octets P) (ep_quic P) q of
                      (q, Err e) \<Rightarrow> Some (Failed (ServerAccept e))
                    | (q, Ok ses) \<Rightarrow> accept_poll P handler (s\<lparr>hs_conn := q, hs_session := Some ses\<rparr>))
              else accept_poll P handler s)
      | HsTimer \<Rightarrow> hs_tail P ServerAccept ''QUIC connection closed during handshake''
          (s\<lparr>hs_conn := q_on_timeout (ep_quic P) (hs_conn s)\<rparr>)
      | HsDeadline \<Rightarrow>
          flush_then P ServerAccept (s\<lparr>hs_conn := q_close (ep_quic P) ''handshake timeout'' (hs_conn s)\<rparr>)
            (\<lambda>s. Some (Failed (ServerAccept ''handshake timeout''))))"

text \<open>The loop over a sequence of events: it stops at the first outcome that is not \<open>Continue\<close>.\<close>

fun hs_run ::
  "('v \<Rightarrow> 's \<Rightarrow> ('e, 's) hs_outcome option) \<Rightarrow> 'v list \<Rightarrow> 's \<Rightarrow> ('e, 's) hs_outcome option" where
  "hs_run step [] s = Some (Continue s)"
| "hs_run step (ev # evs) s =
     (case step ev s of
        None \<Rightarrow> None
      | Some (Continue s') \<Rightarrow> hs_run step evs s'
      | Some out \<Rightarrow> Some out)"

definition accept ::
  "('q, 'b) engine_params \<Rightarrow> ('k, 'd) hmac_lib \<Rightarrow> (u64 \<Rightarrow> header list \<Rightarrow> 'k) \<Rightarrow> (string \<times> string) list \<Rightarrow>
     'b handshake_event list \<Rightarrow> ('q, 'b) handshake \<Rightarrow> (server_error, ('q, 'b) handshake) hs_outcome option" where
  "accept P H key tokens evs s =
     hs_run (accept_step P (server_handler (ep_quic P) H key tokens)) evs s"

section \<open>Client\<close>

definition client_handler :: "u64 option \<Rightarrow> 'q header_handler" where
  "client_handler connect_sid q sid headers =
     (q, if connect_sid \<noteq> Some sid then Ok Ignore
         else case map_option from_utf8_lossy (header_value (\<lambda>n. n = '':status'') headers) of
           None \<Rightarrow> Err (Closed ''missing :status on CONNECT-IP response'')
         | Some code \<Rightarrow> if code = ''200'' then Ok (Accept sid None) else Err (Rejected code))"

definition send_connect_request ::
  "octets_lib \<Rightarrow> 'q quic_lib \<Rightarrow> string \<Rightarrow> string \<Rightarrow> string \<Rightarrow> 'q \<Rightarrow> h3_session \<Rightarrow>
     'q \<times> (dial_error, h3_session) result" where
  "send_connect_request V Q authority connect_path auth_header q ses =
     (let (q, r) = h3_send_request Q (connect_headers authority connect_path auth_header) False q
      in (q, case r of
            Err e \<Rightarrow> Err (DialHandshake (''send CONNECT: '' @ e))
          | Ok sid \<Rightarrow> Ok (bind_connect_stream V sid ses)))"

definition establish_poll ::
  "('q, 'b) engine_params \<Rightarrow> ('q, 'b) handshake \<Rightarrow> (dial_error, ('q, 'b) handshake) hs_outcome option" where
  "establish_poll P s =
     (case hs_session s of
        None \<Rightarrow> hs_tail P DialHandshake ''QUIC connection closed during startup'' s
      | Some ses \<Rightarrow>
          (case poll_h3_events (ep_octets P) (ep_quic P) (client_handler (connect_stream_id ses)) ses (hs_conn s) of
             None \<Rightarrow> None
           | Some (ses, q, r) \<Rightarrow>
               (let s = s\<lparr>hs_conn := q, hs_session := Some ses\<rparr> in
                case r of
                  Ok Pending \<Rightarrow> hs_tail P DialHandshake ''QUIC connection closed during startup'' s
                | Ok Ready \<Rightarrow> Some (Established s)
                | Err e \<Rightarrow> Some (Failed (dial_error_of e)))))"

text \<open>SETTINGS are flushed before the CONNECT request is sent.\<close>

definition establish_start ::
  "('q, 'b) engine_params \<Rightarrow> string \<Rightarrow> string \<Rightarrow> string \<Rightarrow> ('q, 'b) handshake \<Rightarrow>
     (dial_error, ('q, 'b) handshake) hs_outcome option" where
  "establish_start P authority connect_path auth_header s =
     (case session_with_transport (ep_octets P) (ep_quic P) (hs_conn s) of
        (q, Err e) \<Rightarrow> Some (Failed (DialHandshake e))
      | (q, Ok ses) \<Rightarrow>
          flush_then P DialHandshake (s\<lparr>hs_conn := q, hs_session := Some ses\<rparr>) (\<lambda>s.
            case send_connect_request (ep_octets P) (ep_quic P) authority connect_path auth_header
                   (hs_conn s) (the (hs_session s)) of
              (q, Err e) \<Rightarrow> Some (Failed e)
            | (q, Ok ses) \<Rightarrow> establish_poll P (s\<lparr>hs_conn := q, hs_session := Some ses\<rparr>)))"

definition establish_step ::
  "('q, 'b) engine_params \<Rightarrow> string \<Rightarrow> string \<Rightarrow> string \<Rightarrow> duration \<Rightarrow> 'b handshake_event \<Rightarrow>
     ('q, 'b) handshake \<Rightarrow> (dial_error, ('q, 'b) handshake) hs_outcome option" where
  "establish_step P authority connect_path auth_header timeout ev s =
     (case ev of
        HsUdp None \<Rightarrow> Some (Failed (DialHandshake ''UDP Rx closed during startup''))
      | HsUdp (Some (remote, pkts)) \<Rightarrow>
          (let q = snd (handle_udp_recv (ep_buf P) (ep_quic P) (meta_recv_info (ep_meta P) remote) pkts (None, hs_conn s));
               s = s\<lparr>hs_conn := q\<rparr>
           in if hs_session s = None \<and> q_is_established (ep_quic P) q
              then establish_start P authority connect_path auth_header s
              else establish_poll P s)
      | HsTimer \<Rightarrow> hs_tail P DialHandshake ''QUIC connection closed during startup''
          (s\<lparr>hs_conn := q_on_timeout (ep_quic P) (hs_conn s)\<rparr>)
      | HsDeadline \<Rightarrow>
          flush_then P DialHandshake (s\<lparr>hs_conn := q_close (ep_quic P) ''handshake timeout'' (hs_conn s)\<rparr>)
            (\<lambda>s. Some (Failed (DialTimeout timeout))))"

definition establish ::
  "('q, 'b) engine_params \<Rightarrow> string \<Rightarrow> string \<Rightarrow> string \<Rightarrow> duration \<Rightarrow> 'b handshake_event list \<Rightarrow>
     ('q, 'b) handshake \<Rightarrow> (dial_error, ('q, 'b) handshake) hs_outcome option" where
  "establish P authority connect_path auth_header timeout evs s =
     flush_then P DialHandshake s
       (hs_run (establish_step P authority connect_path auth_header timeout) evs)"

section \<open>The contract of a handshake loop\<close>

lemma flush_send_keeps:
  assumes "flush_send P s = Some (s', r)"
  shows "hs_session s' = hs_session s \<and> hs_peer_id s' = hs_peer_id s"
proof -
  obtain out q where "collect_udp_send (ep_buf P) (ep_quic P) (ep_max_datagram P)
      (em_max_udp_payload (ep_meta P)) (hs_conn s) = Some (out, q)"
    using assms by (auto simp: flush_send_def)
  with assms show ?thesis
    by (cases out; cases "ep_try P (hs_sends s)") (auto simp: flush_send_def Let_def)
qed

lemma flush_then_cases:
  assumes "flush_then P wrap s next = Some out"
  obtains e where "out = Failed e"
    | s' where "hs_session s' = hs_session s" "hs_peer_id s' = hs_peer_id s" "next s' = Some out"
proof -
  obtain s' r where f: "flush_send P s = Some (s', r)" using assms by (auto simp: flush_then_def split: option.splits)
  note keep = flush_send_keeps [OF f]
  show thesis
  proof (cases r)
    case (Inl e)
    with f assms have "out = Failed (wrap e)" by (simp add: flush_then_def)
    then show thesis by (rule that(1))
  next
    case (Inr u)
    with f assms keep show thesis using that(2) [of s'] by (simp add: flush_then_def)
  qed
qed

lemma hs_tail_cases:
  assumes "hs_tail P wrap closed s = Some out"
  obtains e where "out = Failed e"
    | s' where "hs_session s' = hs_session s" "hs_peer_id s' = hs_peer_id s" "out = Continue s'"
  using assms unfolding hs_tail_def by (rule flush_then_cases) (auto split: if_splits intro: that)

text \<open>
  Both handshakes are loops whose steps keep an invariant, never panic, and end only in a state that
  meets the handshake's goal.
\<close>

locale handshake_loop =
  fixes step :: "'v \<Rightarrow> 's \<Rightarrow> ('e, 's) hs_outcome option" and inv :: "'s \<Rightarrow> bool" and goal :: "'s \<Rightarrow> bool"
  assumes step_ok: "inv s \<Longrightarrow> step ev s = Some out \<Longrightarrow>
    (case out of Continue s' \<Rightarrow> inv s' | Established s' \<Rightarrow> goal s' | Failed e \<Rightarrow> True | Panicked \<Rightarrow> False)"
begin

lemma run_ok:
  "inv s \<Longrightarrow> hs_run step evs s = Some out \<Longrightarrow>
    (case out of Continue s' \<Rightarrow> inv s' | Established s' \<Rightarrow> goal s' | Failed e \<Rightarrow> True | Panicked \<Rightarrow> False)"
proof (induction evs arbitrary: s)
  case (Cons ev evs)
  then obtain o1 where o1: "step ev s = Some o1" by (auto split: option.splits)
  show ?case
  proof (cases o1)
    case (Continue s')
    with step_ok [OF Cons.prems(1) o1] Cons.IH [of s'] Cons.prems(2) o1 show ?thesis by simp
  qed (use step_ok [OF Cons.prems(1) o1] Cons.prems(2) o1 in auto)
qed auto

end

section \<open>What the server accepts\<close>

text \<open>A request received on the connection that both header checks accept for the peer.\<close>

definition authenticated_request ::
  "'q quic_lib \<Rightarrow> ('k, 'd) hmac_lib \<Rightarrow> (u64 \<Rightarrow> header list \<Rightarrow> 'k) \<Rightarrow> (string \<times> string) list \<Rightarrow> u64 \<Rightarrow> string \<Rightarrow> bool" where
  "authenticated_request Q H key tokens sid pid \<longleftrightarrow>
     (\<exists>q q' hs. h3_poll Q q = (q', Ok (sid, Headers hs)) \<and> validate_server_connect_headers hs = Ok () \<and>
        validate_server_auth H (key sid hs) hs tokens = Ok pid)"

definition server_session_ok ::
  "octets_lib \<Rightarrow> 'q quic_lib \<Rightarrow> ('k, 'd) hmac_lib \<Rightarrow> (u64 \<Rightarrow> header list \<Rightarrow> 'k) \<Rightarrow> (string \<times> string) list \<Rightarrow> h3_session \<Rightarrow> bool" where
  "server_session_ok V Q H key tokens ses \<longleftrightarrow>
     (connect_accepted ses \<longrightarrow>
        (\<exists>sid pid. authenticated_request Q H key tokens sid pid \<and> accepted_peer_id ses = Some pid \<and>
           connect_stream_id ses = Some sid \<and> datagram_codec ses = the (codec_new V sid)))"

definition server_inv ::
  "('q, 'b) engine_params \<Rightarrow> ('k, 'd) hmac_lib \<Rightarrow> (u64 \<Rightarrow> header list \<Rightarrow> 'k) \<Rightarrow> (string \<times> string) list \<Rightarrow>
     ('q, 'b) handshake \<Rightarrow> bool" where
  "server_inv P H key tokens s \<longleftrightarrow>
     (\<forall>ses. hs_session s = Some ses \<longrightarrow> server_session_ok (ep_octets P) (ep_quic P) H key tokens ses)"

definition server_goal ::
  "('q, 'b) engine_params \<Rightarrow> ('k, 'd) hmac_lib \<Rightarrow> (u64 \<Rightarrow> header list \<Rightarrow> 'k) \<Rightarrow> (string \<times> string) list \<Rightarrow>
     ('q, 'b) handshake \<Rightarrow> bool" where
  "server_goal P H key tokens s \<longleftrightarrow>
     (\<exists>ses sid. hs_session s = Some ses \<and> connect_accepted ses \<and> connect_stream_id ses = Some sid \<and>
        datagram_codec ses = the (codec_new (ep_octets P) sid) \<and>
        authenticated_request (ep_quic P) H key tokens sid (hs_peer_id s))"

lemma server_handler_accept:
  assumes "server_handler Q H key tokens q sid hs = (q1, Ok (Accept sid' pid))"
  shows "sid' = sid \<and> (\<exists>p. pid = Some p \<and> validate_server_connect_headers hs = Ok () \<and>
    validate_server_auth H (key sid hs) hs tokens = Ok p)"
proof -
  obtain u where u: "validate_server_connect_headers hs = Ok u"
    using assms by (cases "validate_server_connect_headers hs") (auto simp: server_handler_def)
  obtain p where p: "validate_server_auth H (key sid hs) hs tokens = Ok p"
    using assms u by (cases "validate_server_auth H (key sid hs) hs tokens") (auto simp: server_handler_def)
  show ?thesis using assms u p by (auto simp: server_handler_def split: prod.splits sum.splits)
qed

lemma server_poll_ok:
  assumes "poll_h3_events V Q (server_handler Q H key tokens) ses q = Some (ses', q', r)"
    "server_session_ok V Q H key tokens ses"
  shows "server_session_ok V Q H key tokens ses' \<and> (r = Ok Ready \<longrightarrow> connect_accepted ses')"
proof -
  have "server_session_ok V Q H key tokens (accept_session V sid' pid s)"
    if "h3_poll Q q0 = (q, Inr (sid, Headers hs))" "server_handler Q H key tokens q sid hs = (q1, Inr (Accept sid' pid))"
    for s q0 q q1 sid hs sid' pid
    using server_handler_accept [OF that(2)] that(1)
    by (auto simp: server_session_ok_def accept_session_def bind_connect_stream_def authenticated_request_def)
  from poll_h3_events_inv [OF assms this] show ?thesis by simp
qed

lemma server_inv_session: "server_inv P H key tokens s \<Longrightarrow> hs_session s' = hs_session s \<Longrightarrow> server_inv P H key tokens s'"
  by (simp add: server_inv_def)

lemma accept_tail_ok:
  assumes "server_inv P H key tokens s" "hs_tail P ServerAccept closed s = Some out"
  shows "case out of Continue s' \<Rightarrow> server_inv P H key tokens s' | Established s' \<Rightarrow> server_goal P H key tokens s'
    | Failed e \<Rightarrow> True | Panicked \<Rightarrow> False"
  using assms(2) by (rule hs_tail_cases) (use assms(1) server_inv_session in \<open>simp_all, blast\<close>)

lemma accept_poll_ok:
  assumes inv: "server_inv P H key tokens s"
    and poll: "accept_poll P (server_handler (ep_quic P) H key tokens) s = Some out"
  shows "case out of Continue s' \<Rightarrow> server_inv P H key tokens s' | Established s' \<Rightarrow> server_goal P H key tokens s'
    | Failed e \<Rightarrow> True | Panicked \<Rightarrow> False"
proof (cases "hs_session s")
  case None
  with poll accept_tail_ok [OF inv] show ?thesis by (simp add: accept_poll_def)
next
  case (Some ses)
  then obtain ses' q r where p: "poll_h3_events (ep_octets P) (ep_quic P) (server_handler (ep_quic P) H key tokens) ses (hs_conn s) = Some (ses', q, r)"
    using poll by (auto simp: accept_poll_def split: option.splits)
  have ok: "server_session_ok (ep_octets P) (ep_quic P) H key tokens ses'" "r = Ok Ready \<Longrightarrow> connect_accepted ses'"
    using server_poll_ok [OF p] inv Some by (auto simp: server_inv_def)
  let ?s = "s\<lparr>hs_conn := q, hs_session := Some ses'\<rparr>"
  have inv': "server_inv P H key tokens ?s" using ok(1) by (simp add: server_inv_def)
  consider (ready) "r = Ok Ready" | (pending) "r = Ok Pending" | (err) e where "r = Err e"
    by (metis connect_progress.exhaust sum.exhaust)
  then show ?thesis
  proof cases
    case ready
    with ok obtain sid pid where sp: "authenticated_request (ep_quic P) H key tokens sid pid" "accepted_peer_id ses' = Some pid"
      "connect_stream_id ses' = Some sid" "datagram_codec ses' = the (codec_new (ep_octets P) sid)" "connect_accepted ses'"
      by (auto simp: server_session_ok_def)
    with poll Some p ready have "flush_then P ServerAccept (?s\<lparr>hs_session := Some (ses'\<lparr>accepted_peer_id := None\<rparr>)\<rparr>)
        (\<lambda>s. Some (Established (s\<lparr>hs_peer_id := pid\<rparr>))) = Some out"
      by (simp add: accept_poll_def)
    then show ?thesis by (rule flush_then_cases) (use sp in \<open>auto simp: server_goal_def\<close>)
  next
    case pending
    with poll Some p accept_tail_ok [OF inv'] show ?thesis by (simp add: accept_poll_def)
  next
    case err
    with poll Some p have "flush_then P ServerAccept ?s (\<lambda>s. Some (Failed (ServerAccept (into_actor_reason e)))) = Some out"
      by (simp add: accept_poll_def)
    then show ?thesis by (rule flush_then_cases) auto
  qed
qed

lemma session_with_transport_new:
  "session_with_transport V Q q = (q', Ok ses) \<Longrightarrow>
    \<not> connect_accepted ses \<and> accepted_peer_id ses = None \<and> connect_stream_id ses = None"
  by (auto simp: session_with_transport_def split: prod.splits sum.splits)

lemma accept_step_ok:
  assumes inv: "server_inv P H key tokens s"
    and step: "accept_step P (server_handler (ep_quic P) H key tokens) ev s = Some out"
  shows "case out of Continue s' \<Rightarrow> server_inv P H key tokens s' | Established s' \<Rightarrow> server_goal P H key tokens s'
    | Failed e \<Rightarrow> True | Panicked \<Rightarrow> False"
proof (cases ev)
  case (HsUdp b)
  show ?thesis
  proof (cases b)
    case None
    with HsUdp step show ?thesis by (auto simp: accept_step_def)
  next
    case (Some rb)
    obtain remote batch where rb: "rb = (remote, batch)" by fastforce
    let ?q = "snd (handle_udp_recv (ep_buf P) (ep_quic P) (meta_recv_info (ep_meta P) remote) batch (None, hs_conn s))"
    have conn: "server_inv P H key tokens (s\<lparr>hs_conn := q\<rparr>)" for q using inv by (simp add: server_inv_def)
    show ?thesis
    proof (cases "hs_session s = None \<and> q_is_established (ep_quic P) ?q")
      case True
      obtain q r where t: "session_with_transport (ep_octets P) (ep_quic P) ?q = (q, r)" by fastforce
      show ?thesis
      proof (cases r)
        case (Inl e)
        with HsUdp Some rb True t step show ?thesis by (auto simp: accept_step_def Let_def)
      next
        case (Inr ses)
        have "server_inv P H key tokens (s\<lparr>hs_conn := q, hs_session := Some ses\<rparr>)"
          using session_with_transport_new [of _ _ ?q q ses] t Inr by (simp add: server_inv_def server_session_ok_def)
        with HsUdp Some rb True t step Inr accept_poll_ok show ?thesis by (simp add: accept_step_def Let_def)
      qed
    next
      case False
      with HsUdp Some rb step accept_poll_ok [OF conn] show ?thesis by (simp add: accept_step_def Let_def del: de_Morgan_conj)
    qed
  qed
next
  case HsTimer
  have "server_inv P H key tokens (s\<lparr>hs_conn := q_on_timeout (ep_quic P) (hs_conn s)\<rparr>)" using inv by (simp add: server_inv_def)
  with HsTimer step accept_tail_ok show ?thesis by (simp add: accept_step_def)
next
  case HsDeadline
  with step have "flush_then P ServerAccept (s\<lparr>hs_conn := q_close (ep_quic P) ''handshake timeout'' (hs_conn s)\<rparr>)
      (\<lambda>s. Some (Failed (ServerAccept ''handshake timeout''))) = Some out" by (simp add: accept_step_def)
  then show ?thesis by (rule flush_then_cases) auto
qed

interpretation server_loop: handshake_loop "accept_step P (server_handler (ep_quic P) H key tokens)"
    "server_inv P H key tokens" "server_goal P H key tokens" for P H key tokens
  by unfold_locales (rule accept_step_ok)

section \<open>What the client accepts\<close>

text \<open>The stream the client's own request went out on, with a response of status 200 on that stream.\<close>

definition requested :: "'q quic_lib \<Rightarrow> header list \<Rightarrow> u64 \<Rightarrow> bool" where
  "requested Q hdrs sid \<longleftrightarrow> (\<exists>q q'. h3_send_request Q hdrs False q = (q', Ok sid))"

definition accepted_response :: "'q quic_lib \<Rightarrow> u64 \<Rightarrow> bool" where
  "accepted_response Q sid \<longleftrightarrow>
     (\<exists>q q' hs. h3_poll Q q = (q', Ok (sid, Headers hs)) \<and>
        map_option from_utf8_lossy (header_value (\<lambda>n. n = '':status'') hs) = Some ''200'')"

definition client_session_ok :: "octets_lib \<Rightarrow> 'q quic_lib \<Rightarrow> header list \<Rightarrow> u64 \<Rightarrow> h3_session \<Rightarrow> bool" where
  "client_session_ok V Q hdrs sid ses \<longleftrightarrow>
     connect_stream_id ses = Some sid \<and> datagram_codec ses = the (codec_new V sid) \<and> requested Q hdrs sid \<and>
     (connect_accepted ses \<longrightarrow> accepted_response Q sid)"

definition client_inv :: "('q, 'b) engine_params \<Rightarrow> header list \<Rightarrow> ('q, 'b) handshake \<Rightarrow> bool" where
  "client_inv P hdrs s \<longleftrightarrow>
     (\<forall>ses. hs_session s = Some ses \<longrightarrow> (\<exists>sid. client_session_ok (ep_octets P) (ep_quic P) hdrs sid ses))"

definition client_goal :: "('q, 'b) engine_params \<Rightarrow> header list \<Rightarrow> ('q, 'b) handshake \<Rightarrow> bool" where
  "client_goal P hdrs s \<longleftrightarrow>
     (\<exists>ses sid. hs_session s = Some ses \<and> connect_accepted ses \<and> connect_stream_id ses = Some sid \<and>
        datagram_codec ses = the (codec_new (ep_octets P) sid) \<and>
        requested (ep_quic P) hdrs sid \<and> accepted_response (ep_quic P) sid)"

lemma client_handler_accept:
  "client_handler csid q sid hs = (q1, Ok (Accept sid' pid)) \<Longrightarrow>
    csid = Some sid \<and> sid' = sid \<and> map_option from_utf8_lossy (header_value (\<lambda>n. n = '':status'') hs) = Some ''200''"
  by (auto simp: client_handler_def split: if_splits option.splits)

lemma client_poll_ok:
  assumes "poll_h3_events V Q (client_handler (Some sid)) ses q = Some (ses', q', r)" "client_session_ok V Q hdrs sid ses"
  shows "client_session_ok V Q hdrs sid ses' \<and> (r = Ok Ready \<longrightarrow> connect_accepted ses')"
proof -
  have "client_session_ok V Q hdrs sid (accept_session V sid' pid s)"
    if "client_session_ok V Q hdrs sid s" "h3_poll Q q0 = (q, Inr (sid0, Headers hs))"
      "client_handler (Some sid) q sid0 hs = (q1, Inr (Accept sid' pid))"
    for s q0 q q1 sid0 hs sid' pid
    using client_handler_accept [OF that(3)] that(1,2)
    by (auto simp: client_session_ok_def accept_session_def bind_connect_stream_def accepted_response_def)
  from poll_h3_events_inv [OF assms this] show ?thesis by simp
qed

lemma client_inv_session: "client_inv P hdrs s \<Longrightarrow> hs_session s' = hs_session s \<Longrightarrow> client_inv P hdrs s'"
  by (simp add: client_inv_def)

lemma establish_tail_ok:
  assumes "client_inv P hdrs s" "hs_tail P DialHandshake closed s = Some out"
  shows "case out of Continue s' \<Rightarrow> client_inv P hdrs s' | Established s' \<Rightarrow> client_goal P hdrs s'
    | Failed e \<Rightarrow> True | Panicked \<Rightarrow> False"
  using assms(2) by (rule hs_tail_cases) (use assms(1) client_inv_session in \<open>simp_all, blast\<close>)

lemma establish_poll_ok:
  assumes inv: "client_inv P hdrs s" and poll: "establish_poll P s = Some out"
  shows "case out of Continue s' \<Rightarrow> client_inv P hdrs s' | Established s' \<Rightarrow> client_goal P hdrs s'
    | Failed e \<Rightarrow> True | Panicked \<Rightarrow> False"
proof (cases "hs_session s")
  case None
  with poll establish_tail_ok [OF inv] show ?thesis by (simp add: establish_poll_def)
next
  case (Some ses)
  with inv obtain sid where sid: "client_session_ok (ep_octets P) (ep_quic P) hdrs sid ses" by (auto simp: client_inv_def)
  then have csid: "connect_stream_id ses = Some sid" by (simp add: client_session_ok_def)
  with Some poll obtain ses' q r where p: "poll_h3_events (ep_octets P) (ep_quic P) (client_handler (Some sid)) ses (hs_conn s) = Some (ses', q, r)"
    by (auto simp: establish_poll_def split: option.splits)
  have ok: "client_session_ok (ep_octets P) (ep_quic P) hdrs sid ses'" "r = Ok Ready \<Longrightarrow> connect_accepted ses'"
    using client_poll_ok [OF p sid] by auto
  let ?s = "s\<lparr>hs_conn := q, hs_session := Some ses'\<rparr>"
  have inv': "client_inv P hdrs ?s" using ok(1) by (auto simp: client_inv_def)
  consider (ready) "r = Ok Ready" | (pending) "r = Ok Pending" | (err) e where "r = Err e"
    by (metis connect_progress.exhaust sum.exhaust)
  then show ?thesis
  proof cases
    case ready
    with poll Some p csid have "out = Established ?s" by (simp add: establish_poll_def)
    with ok ready show ?thesis by (auto simp: client_goal_def client_session_ok_def)
  next
    case pending
    with poll Some p csid establish_tail_ok [OF inv'] show ?thesis by (simp add: establish_poll_def)
  next
    case err
    with poll Some p csid have "out = Failed (dial_error_of e)" by (simp add: establish_poll_def)
    then show ?thesis by simp
  qed
qed

lemma establish_start_ok:
  assumes "establish_start P a p h s = Some out"
  shows "case out of Continue s' \<Rightarrow> client_inv P (connect_headers a p h) s'
    | Established s' \<Rightarrow> client_goal P (connect_headers a p h) s' | Failed e \<Rightarrow> True | Panicked \<Rightarrow> False"
proof -
  obtain q r where t: "session_with_transport (ep_octets P) (ep_quic P) (hs_conn s) = (q, r)" by fastforce
  show ?thesis
  proof (cases r)
    case (Inl e)
    with t assms show ?thesis by (auto simp: establish_start_def)
  next
    case (Inr ses)
    with t assms have "flush_then P DialHandshake (s\<lparr>hs_conn := q, hs_session := Some ses\<rparr>) (\<lambda>s.
        case send_connect_request (ep_octets P) (ep_quic P) a p h (hs_conn s) (the (hs_session s)) of
          (q, Err e) \<Rightarrow> Some (Failed e)
        | (q, Ok ses) \<Rightarrow> establish_poll P (s\<lparr>hs_conn := q, hs_session := Some ses\<rparr>)) = Some out"
      by (simp add: establish_start_def)
    then show ?thesis
    proof (rule flush_then_cases)
      fix s' assume s': "hs_session s' = hs_session (s\<lparr>hs_conn := q, hs_session := Some ses\<rparr>)"
        and out: "(case send_connect_request (ep_octets P) (ep_quic P) a p h (hs_conn s') (the (hs_session s')) of
          (q, Err e) \<Rightarrow> Some (Failed e)
        | (q, Ok ses) \<Rightarrow> establish_poll P (s'\<lparr>hs_conn := q, hs_session := Some ses\<rparr>)) = Some out"
      obtain q1 r1 where r1: "h3_send_request (ep_quic P) (connect_headers a p h) False (hs_conn s') = (q1, r1)" by fastforce
      show ?thesis
      proof (cases r1)
        case (Inl e)
        with out r1 have "out = Failed (DialHandshake (''send CONNECT: '' @ e))" by (simp add: send_connect_request_def)
        then show ?thesis by simp
      next
        case (Inr sid)
        let ?s = "s'\<lparr>hs_conn := q1, hs_session := Some (bind_connect_stream (ep_octets P) sid ses)\<rparr>"
        have "\<not> connect_accepted ses" using session_with_transport_new [of "ep_octets P" "ep_quic P" "hs_conn s" q ses] t \<open>r = Inr ses\<close> by simp
        then have "client_inv P (connect_headers a p h) ?s"
          using r1 Inr by (auto simp: client_inv_def client_session_ok_def bind_connect_stream_def requested_def)
        with out r1 Inr s' establish_poll_ok show ?thesis by (simp add: send_connect_request_def)
      qed
    qed auto
  qed
qed

lemma establish_step_ok:
  assumes inv: "client_inv P (connect_headers a p h) s" and step: "establish_step P a p h timeout ev s = Some out"
  shows "case out of Continue s' \<Rightarrow> client_inv P (connect_headers a p h) s'
    | Established s' \<Rightarrow> client_goal P (connect_headers a p h) s' | Failed e \<Rightarrow> True | Panicked \<Rightarrow> False"
proof -
  have conn: "client_inv P (connect_headers a p h) (s\<lparr>hs_conn := q\<rparr>)" for q using inv by (simp add: client_inv_def)
  show ?thesis
  proof (cases ev)
    case (HsUdp b)
    show ?thesis
    proof (cases b)
      case None
      with HsUdp step show ?thesis by (auto simp: establish_step_def)
    next
      case (Some rb)
      obtain remote batch where rb: "rb = (remote, batch)" by fastforce
      let ?q = "snd (handle_udp_recv (ep_buf P) (ep_quic P) (meta_recv_info (ep_meta P) remote) batch (None, hs_conn s))"
      from HsUdp Some rb step have "establish_start P a p h (s\<lparr>hs_conn := ?q\<rparr>) = Some out \<or> establish_poll P (s\<lparr>hs_conn := ?q\<rparr>) = Some out"
        by (auto simp: establish_step_def Let_def split: if_splits)
      then show ?thesis using establish_start_ok establish_poll_ok [OF conn] by blast
    qed
  next
    case HsTimer
    with step establish_tail_ok [OF conn] show ?thesis by (simp add: establish_step_def)
  next
    case HsDeadline
    with step have "flush_then P DialHandshake (s\<lparr>hs_conn := q_close (ep_quic P) ''handshake timeout'' (hs_conn s)\<rparr>)
        (\<lambda>s. Some (Failed (DialTimeout timeout))) = Some out" by (simp add: establish_step_def)
    then show ?thesis by (rule flush_then_cases) auto
  qed
qed

interpretation client_loop: handshake_loop "establish_step P a p h timeout"
    "client_inv P (connect_headers a p h)" "client_goal P (connect_headers a p h)" for P a p h timeout
  by unfold_locales (rule establish_step_ok)

section \<open>Properties\<close>

lemma validate_server_auth_token:
  assumes "hmac_ok H" "distinct (map snd tokens)"
    and "\<And>sid hs t. map_option from_utf8_lossy (header_value (\<lambda>n. eq_ignore_ascii_case n ''authorization'') hs) =
        Some (bearer_auth_header t) \<Longrightarrow> collision_free H (key sid hs) (insert t (snd ` set tokens))"
    and "validate_server_auth H (key sid hs) hs tokens = Ok pid"
  shows "\<exists>token. map_option from_utf8_lossy (header_value (\<lambda>n. eq_ignore_ascii_case n ''authorization'') hs) =
    Some (bearer_auth_header token) \<and> token \<noteq> [] \<and> (pid, token) \<in> set tokens"
proof -
  let ?hdr = "map_option from_utf8_lossy (header_value (\<lambda>n. eq_ignore_ascii_case n ''authorization'') hs)"
  have "validate_connect_auth H (key sid hs) ?hdr tokens = Ok pid"
    using assms(4) by (cases "validate_connect_auth H (key sid hs) ?hdr tokens") (auto simp: validate_server_auth_def)
  then show ?thesis
    using validate_connect_auth_iff [OF assms(1,2), of ?hdr "key sid hs" pid] assms(3) by blast
qed

definition hs_init :: "'q \<Rightarrow> string \<Rightarrow> ('q, 'b) handshake" where
  "hs_init q pid = \<lparr>hs_conn = q, hs_session = None, hs_peer_id = pid, hs_sends = 0, hs_udp = []\<rparr>"

text \<open>C2: The server hands a connection on only for an authenticated peer. Whatever arrives during the
  handshake, an engine that \<open>accept\<close> returns carries the identity of a configured peer whose token was
  presented as bearer token in a CONNECT-IP request received on the very stream the session is bound to, with
  the datagram codec of that stream; and the handshake never reaches the panic of its \<open>expect\<close>.\<close>

theorem server_accepts_authenticated:
  assumes "hmac_ok H" "distinct (map snd tokens)"
    and "\<And>sid hs t. map_option from_utf8_lossy (header_value (\<lambda>n. eq_ignore_ascii_case n ''authorization'') hs) =
        Some (bearer_auth_header t) \<Longrightarrow> collision_free H (key sid hs) (insert t (snd ` set tokens))"
    and "accept P H key tokens evs (hs_init q placeholder) = Some out"
  shows "out \<noteq> Panicked \<and>
    (\<forall>s. out = Established s \<longrightarrow>
      (\<exists>ses sid hs token q1 q2. hs_session s = Some ses \<and> connect_accepted ses \<and> connect_stream_id ses = Some sid \<and>
         datagram_codec ses = the (codec_new (ep_octets P) sid) \<and>
         h3_poll (ep_quic P) q1 = (q2, Ok (sid, Headers hs)) \<and> validate_server_connect_headers hs = Ok () \<and>
         map_option from_utf8_lossy (header_value (\<lambda>n. eq_ignore_ascii_case n ''authorization'') hs) =
           Some (bearer_auth_header token) \<and>
         token \<noteq> [] \<and> (hs_peer_id s, token) \<in> set tokens))"
proof -
  have "server_inv P H key tokens (hs_init q placeholder)" by (simp add: server_inv_def hs_init_def)
  from server_loop.run_ok [OF this] assms(4)
  have out: "case out of Continue s' \<Rightarrow> server_inv P H key tokens s' | Established s' \<Rightarrow> server_goal P H key tokens s'
    | Failed e \<Rightarrow> True | Panicked \<Rightarrow> False"
    unfolding accept_def by blast
  show ?thesis
  proof (intro conjI allI impI)
    show "out \<noteq> Panicked" using out by auto
    fix s assume "out = Established s"
    with out have "server_goal P H key tokens s" by simp
    then obtain ses sid q1 q2 hs where g: "hs_session s = Some ses" "connect_accepted ses" "connect_stream_id ses = Some sid"
      "datagram_codec ses = the (codec_new (ep_octets P) sid)" "h3_poll (ep_quic P) q1 = (q2, Ok (sid, Headers hs))"
      "validate_server_connect_headers hs = Ok ()" "validate_server_auth H (key sid hs) hs tokens = Ok (hs_peer_id s)"
      unfolding server_goal_def authenticated_request_def by blast
    from validate_server_auth_token [where key = key and sid = sid and hs = hs, OF assms(1,2,3) g(7)] g(1-6) show "\<exists>ses sid hs token q1 q2. hs_session s = Some ses \<and> connect_accepted ses \<and> connect_stream_id ses = Some sid \<and>
         datagram_codec ses = the (codec_new (ep_octets P) sid) \<and>
         h3_poll (ep_quic P) q1 = (q2, Ok (sid, Headers hs)) \<and> validate_server_connect_headers hs = Ok () \<and>
         map_option from_utf8_lossy (header_value (\<lambda>n. eq_ignore_ascii_case n ''authorization'') hs) =
           Some (bearer_auth_header token) \<and>
         token \<noteq> [] \<and> (hs_peer_id s, token) \<in> set tokens"
      by blast
  qed
qed

definition sample_request :: "header list" where
  "sample_request = connect_headers ''vpn.example'' ''/'' (bearer_auth_header ''secret-token'')"

definition sample_server_conn :: ref_conn where
  "sample_server_conn = ref_conn_new sample_addr [(0, Headers sample_request)]"

definition sample_accept :: "(server_error, (ref_conn, nat \<times> u8 list) handshake) hs_outcome option" where
  "sample_accept = accept sample_engine hmac_ref (\<lambda>_ _. ()) [(''alice'', ''secret-token'')]
     [HsUdp (Some (sample_addr, []))] (hs_init sample_server_conn ''10.0.0.1:443'')"

lemma sample_handler:
  "server_handler quic_ref hmac_ref (\<lambda>_ _. ()) [(''alice'', ''secret-token'')] q 0 sample_request =
     (q\<lparr>rc_responses := rc_responses q @ [(0, [('':status'', ''200''), (''capsule-protocol'', ''?1'')], False)]\<rparr>,
      Ok (Accept 0 (Some ''alice'')))"
proof -
  have "validate_server_connect_headers sample_request = Ok ()" by code_simp
  moreover have "validate_server_auth hmac_ref () sample_request [(''alice'', ''secret-token'')] = Ok ''alice''" by code_simp
  ultimately show ?thesis by (simp add: server_handler_def quic_ref_def)
qed

lemma quic_ref_ops:
  "q_is_established quic_ref q" "q_dgram_enabled quic_ref q" "q_is_closed quic_ref q = rc_closed q"
  "h3_config_new quic_ref = Ok ()" "h3_with_transport quic_ref q = (q, Ok ())" "h3_send_request quic_ref hs fin q = (q, Ok 0)"
  "rc_events q = e # es \<Longrightarrow> h3_poll quic_ref q = (q\<lparr>rc_events := es\<rparr>, Ok e)"
  "rc_events q = [] \<Longrightarrow> h3_poll quic_ref q = (q, Err H3Done)"
  by (simp_all add: quic_ref_def)

lemma sample_engine_ops:
  "ep_octets sample_engine = octets_ref" "ep_buf sample_engine = buf_ref" "ep_quic sample_engine = quic_ref"
  by (simp_all add: sample_engine_def)

lemma flush_send_ref:
  assumes "rc_out (hs_conn s) = []"
  shows "flush_send sample_engine s = Some (s, Ok ())"
proof -
  have "(hs_conn s)\<lparr>rc_out := []\<rparr> = hs_conn s" by (simp flip: assms)
  then show ?thesis
    using assms by (simp add: flush_send_def collect_udp_send_def sample_engine_ops collect_send_loop_ref Let_def)
qed

lemma poll_done:
  "h3_poll Q q = (q1, Err H3Done) \<Longrightarrow>
    poll_h3_events V Q f s q = Some (s, q1, Ok (if connect_ready Q s q1 then Ready else Pending))"
  by (subst poll_h3_events.simps) simp

lemma poll_accept:
  "h3_poll Q q = (q1, Ok (sid, Headers hs)) \<Longrightarrow> \<not> connect_accepted s \<Longrightarrow> f q1 sid hs = (q2, Ok (Accept sid' pid)) \<Longrightarrow>
    poll_h3_events V Q f s q = poll_h3_events V Q f (accept_session V sid' pid s) q2"
  by (subst poll_h3_events.simps) (simp add: accept_session_def)

lemma poll_ignore:
  "h3_poll Q q = (q1, Ok (sid, Headers hs)) \<Longrightarrow> \<not> connect_accepted s \<Longrightarrow> f q1 sid hs = (q2, Ok Ignore) \<Longrightarrow>
    poll_h3_events V Q f s q = poll_h3_events V Q f s q2"
  by (subst poll_h3_events.simps) simp

lemma sample_server_poll:
  assumes "\<not> connect_accepted ses" "conn = sample_server_conn\<lparr>rc_in := x\<rparr>"
  shows "\<exists>q. rc_out q = [] \<and> poll_h3_events octets_ref quic_ref
      (server_handler quic_ref hmac_ref (\<lambda>_ _. ()) [(''alice'', ''secret-token'')]) ses conn =
    Some (accept_session octets_ref 0 (Some ''alice'') ses, q, Ok Ready)"
proof -
  have "h3_poll quic_ref conn = (conn\<lparr>rc_events := []\<rparr>, Ok (0, Headers sample_request))"
    by (simp add: assms(2) sample_server_conn_def ref_conn_new_def quic_ref_ops)
  then show ?thesis
    by (subst poll_accept [where f = "server_handler quic_ref hmac_ref (\<lambda>_ _. ()) [(''alice'', ''secret-token'')]",
          OF _ assms(1) sample_handler], assumption, subst poll_done)
      (auto simp: assms(2) quic_ref_ops connect_ready_def accept_session_def sample_server_conn_def ref_conn_new_def)
qed

lemma sample_accept_any:
  "\<exists>s. accept sample_engine hmac_ref (\<lambda>_ _. ()) [(''alice'', ''secret-token'')]
     [HsUdp (Some (sample_addr, []))] (hs_init (sample_server_conn\<lparr>rc_in := x\<rparr>) pid) = Some (Established s)"
proof -
  define conn where "conn = sample_server_conn\<lparr>rc_in := x\<rparr>"
  define ses where "ses = \<lparr>connect_stream_id = None, datagram_codec = the (codec_new octets_ref 0),
    connect_accepted = False, accepted_peer_id = None\<rparr>"
  obtain q where "rc_out q = []" "poll_h3_events octets_ref quic_ref
      (server_handler quic_ref hmac_ref (\<lambda>_ _. ()) [(''alice'', ''secret-token'')]) ses conn =
    Some (accept_session octets_ref 0 (Some ''alice'') ses, q, Ok Ready)"
    using sample_server_poll [OF _ conn_def, of ses] by (auto simp: ses_def)
  then show ?thesis
    by (simp add: accept_def accept_step_def hs_init_def session_with_transport_def accept_poll_def
        sample_engine_ops Let_def quic_ref_ops flush_then_def flush_send_ref accept_session_def flip: ses_def conn_def)
qed

lemma sample_accept_value: "\<exists>s. sample_accept = Some (Established s)"
proof -
  have "sample_server_conn = sample_server_conn\<lparr>rc_in := []\<rparr>" by (simp add: sample_server_conn_def ref_conn_new_def)
  with sample_accept_any [of "[]"] show ?thesis by (simp add: sample_accept_def)
qed

theorem server_accepts_authenticated_witness:
  "\<exists>s ses token. sample_accept = Some (Established s) \<and> hs_session s = Some ses \<and> connect_accepted ses \<and>
     (hs_peer_id s, token) \<in> set [(''alice'', ''secret-token'')]"
proof -
  obtain s where s: "sample_accept = Some (Established s)" using sample_accept_value by blast
  then have "accept sample_engine hmac_ref (\<lambda>_ _. ()) [(''alice'', ''secret-token'')]
      [HsUdp (Some (sample_addr, []))] (hs_init sample_server_conn ''10.0.0.1:443'') = Some (Established s)"
    by (simp add: sample_accept_def)
  from server_accepts_authenticated [OF hmac_ref_ok _ _ this] s show ?thesis
    by (simp add: hmac_ref_collision_free) blast
qed

text \<open>C19: The client reports a connection only for its own request. An engine that \<open>establish\<close> returns is
  bound to the stream its CONNECT-IP request was sent on, uses the datagram codec of that stream, and has
  received a response with status 200 on it; responses on other streams are ignored, and every other
  ending is an error.\<close>

theorem client_establishes_own_stream:
  assumes "establish P a p h timeout evs (hs_init q pid) = Some out"
  shows "out \<noteq> Panicked \<and>
    (\<forall>s. out = Established s \<longrightarrow>
      (\<exists>ses sid q1 q2 q3 q4 hs. hs_session s = Some ses \<and> connect_accepted ses \<and> connect_stream_id ses = Some sid \<and>
         datagram_codec ses = the (codec_new (ep_octets P) sid) \<and>
         h3_send_request (ep_quic P) (connect_headers a p h) False q1 = (q2, Ok sid) \<and>
         h3_poll (ep_quic P) q3 = (q4, Ok (sid, Headers hs)) \<and>
         map_option from_utf8_lossy (header_value (\<lambda>n. n = '':status'') hs) = Some ''200''))"
  using assms unfolding establish_def
proof (rule flush_then_cases)
  fix s' assume "hs_session s' = hs_session (hs_init q pid)"
    and run: "hs_run (establish_step P a p h timeout) evs s' = Some out"
  then have "client_inv P (connect_headers a p h) s'" by (simp add: client_inv_def hs_init_def)
  from client_loop.run_ok [OF this run] show ?thesis
    by (auto simp: client_goal_def requested_def accepted_response_def split: hs_outcome.splits)
qed auto

definition sample_client_conn :: ref_conn where
  "sample_client_conn = ref_conn_new sample_addr [(4, Headers [('':status'', ''404'')]), (0, Headers [('':status'', ''200'')])]"

definition sample_establish :: "(dial_error, (ref_conn, nat \<times> u8 list) handshake) hs_outcome option" where
  "sample_establish = establish sample_engine ''vpn.example'' ''/'' (bearer_auth_header ''secret-token'') 5
     [HsUdp (Some (sample_addr, []))] (hs_init sample_client_conn ''server'')"

lemma sample_client_poll:
  assumes "\<not> connect_accepted ses"
  shows "\<exists>q. poll_h3_events octets_ref quic_ref (client_handler (Some 0)) ses sample_client_conn =
    Some (accept_session octets_ref 0 None ses, q, Ok Ready)"
proof -
  have "from_utf8_lossy ''200'' = ''200''" by code_simp
  then have h: "client_handler (Some 0) q 4 [('':status'', ''404'')] = (q, Ok Ignore)"
    "client_handler (Some 0) q 0 [('':status'', ''200'')] = (q, Ok (Accept 0 None))" for q :: ref_conn
    by (simp_all add: client_handler_def header_value_def)
  let ?q1 = "ref_conn_new sample_addr [(0, Headers [('':status'', ''200'')])]"
  let ?q2 = "ref_conn_new sample_addr []"
  have p: "h3_poll quic_ref sample_client_conn = (?q1, Ok (4, Headers [('':status'', ''404'')]))"
    "h3_poll quic_ref ?q1 = (?q2, Ok (0, Headers [('':status'', ''200'')]))" "h3_poll quic_ref ?q2 = (?q2, Err H3Done)"
    by (simp_all add: sample_client_conn_def ref_conn_new_def quic_ref_ops)
  show ?thesis
    unfolding poll_ignore [where f = "client_handler (Some 0)", OF p(1) assms h(1)] poll_accept [where f = "client_handler (Some 0)", OF p(2) assms h(2)] poll_done [OF p(3)]
    by (simp add: connect_ready_def quic_ref_ops accept_session_def)
qed

lemma sample_establish_value: "\<exists>s. sample_establish = Some (Established s)"
proof -
  define ses where "ses = bind_connect_stream octets_ref 0 \<lparr>connect_stream_id = None,
    datagram_codec = the (codec_new octets_ref 0), connect_accepted = False, accepted_peer_id = None\<rparr>"
  have ses: "connect_stream_id ses = Some 0" "\<not> connect_accepted ses" by (simp_all add: ses_def bind_connect_stream_def)
  obtain q where "poll_h3_events octets_ref quic_ref (client_handler (Some 0)) ses sample_client_conn =
      Some (accept_session octets_ref 0 None ses, q, Ok Ready)"
    using sample_client_poll [OF ses(2)] by blast
  moreover have "rc_out sample_client_conn = []" by (simp add: sample_client_conn_def ref_conn_new_def)
  ultimately show ?thesis
    by (simp add: sample_establish_def establish_def establish_step_def hs_init_def session_with_transport_def
        establish_start_def establish_poll_def send_connect_request_def sample_engine_ops Let_def quic_ref_ops
        flush_then_def flush_send_ref ses flip: ses_def)
qed

theorem client_establishes_own_stream_witness:
  "\<exists>s ses. sample_establish = Some (Established s) \<and> hs_session s = Some ses \<and> connect_accepted ses"
proof -
  obtain s where s: "sample_establish = Some (Established s)" using sample_establish_value by blast
  with client_establishes_own_stream [OF s [unfolded sample_establish_def]] show ?thesis by blast
qed

end
