(* ===== verification/Dispatcher.thy ===== *)
theory Dispatcher
  imports Handshake Udp Actor
begin

text \<open>
  The server side around the handshake (\<open>h3listener.rs\<close>: construction, routing of packets by connection
  identifier, acceptance of new connections, reload of credentials) and the outbound dial of
  \<open>h3dialer.rs\<close>. The entry points of \<open>quiche\<close> are the record \<open>accept_lib\<close>; random identifiers are drawn
  from the parameter \<open>rng\<close>. Each accepted connection has a packet channel of its own, numbered in order of
  acceptance; a channel is closed once the task that reads it is gone.
\<close>

section \<open>Construction\<close>

fun show_udp_error :: "udp_error \<Rightarrow> string" where
  "show_udp_error (UdpSocketError e) = ''udp socket setup failed: '' @ e"

record h3_dispatcher_group =
  dg_bound_addr :: socket_addr
  dg_config :: server_quic_config
  dg_max_udp_payload :: nat
  dg_cert_path :: string
  dg_key_path :: string
  dg_udp_rx :: udp_rx
  dg_udp_tx :: udp_tx

text \<open>
  The calls on the file system: \<open>watch\<close> registers one credential directory, \<open>None\<close> standing for success, and
  \<open>ls_order\<close> is the order of a set of paths.
\<close>

fun watch_all :: "(string \<Rightarrow> string option) \<Rightarrow> string list \<Rightarrow> (server_error, unit) result" where
  "watch_all watch [] = Ok ()"
| "watch_all watch (d # ds) =
     (case watch d of
        Some e \<Rightarrow> Err (ServerWatcher (''failed to watch credential directory `'' @ d @ ''`: '' @ e))
      | None \<Rightarrow> watch_all watch ds)"

record listener_sys =
  ls_local_addr :: "sock \<Rightarrow> (io_error, socket_addr) result"
  ls_absolute :: "string \<Rightarrow> (string, string) result"
  ls_parent :: "string \<Rightarrow> string option"
  ls_order :: "string list \<Rightarrow> string list"
  ls_watcher :: "string option"
  ls_watch :: "string \<Rightarrow> string option"

definition watch_directories :: "listener_sys \<Rightarrow> string \<Rightarrow> string \<Rightarrow> string list" where
  "watch_directories S cert key =
     ls_order S (remdups (List.map_filter (ls_parent S) [cert, key]))"

definition make_h3_dispatcher ::
  "sys_calls \<Rightarrow> listener_sys \<Rightarrow> config_lib \<Rightarrow> (sock \<Rightarrow> nat \<Rightarrow> bool \<Rightarrow> (udp_error, udp_rx \<times> udp_tx) result) \<Rightarrow> string option \<Rightarrow>
     socket_addr \<Rightarrow> string \<Rightarrow> string \<Rightarrow> u16 \<Rightarrow> io_tuning \<Rightarrow> h3_tuning \<Rightarrow> (server_error, h3_dispatcher_group) result" where
  "make_h3_dispatcher sys S C udp_init join_failure listen_addr cert_path key_path mtu io h3 =
     (case make_server_udp_socket sys listen_addr (socket_buffer_bytes io) of
        Err e \<Rightarrow> Err (ServerSocket (show_udp_error e))
      | Ok socket \<Rightarrow>
     (case ls_local_addr S socket of
        Err e \<Rightarrow> Err (ServerSocket (''local_addr: '' @ ie_text e))
      | Ok bound_addr \<Rightarrow>
     (case ls_absolute S cert_path of
        Err e \<Rightarrow> Err (ServerWatcher (''failed to resolve credential path `'' @ cert_path @ ''`: '' @ e))
      | Ok cert \<Rightarrow>
     (case ls_absolute S key_path of
        Err e \<Rightarrow> Err (ServerWatcher (''failed to resolve credential path `'' @ key_path @ ''`: '' @ e))
      | Ok key \<Rightarrow>
     (case ls_watcher S of
        Some e \<Rightarrow> Err (ServerWatcher (''failed to create watcher: '' @ e))
      | None \<Rightarrow>
     (case watch_all (ls_watch S) (watch_directories S cert key) of
        Err e \<Rightarrow> Err e
      | Ok _ \<Rightarrow>
          (let max_udp_payload = unat mtu + CONNECT_IP_OVERHEAD in
           case make_server_quiche_config C h3 max_udp_payload cert key of
             Err e \<Rightarrow> Err e
           | Ok cfg \<Rightarrow>
               (case join_failure of
                  Some e \<Rightarrow> Err (ServerSocket (''UDP runtime task failed: '' @ e))
                | None \<Rightarrow>
                    (case udp_init socket max_udp_payload (udp_enable_offload io) of
                       Err e \<Rightarrow> Err (ServerSocket (''make_udp: '' @ show_udp_error e))
                     | Ok (rx, tx) \<Rightarrow>
                         Ok \<lparr>dg_bound_addr = bound_addr, dg_config = cfg, dg_max_udp_payload = max_udp_payload,
                            dg_cert_path = cert, dg_key_path = key, dg_udp_rx = rx, dg_udp_tx = tx\<rparr>)))))))))"

definition spawn_h3_dispatcher ::
  "(socket_addr \<Rightarrow> string) \<Rightarrow> (sock \<Rightarrow> string) \<Rightarrow> chan \<Rightarrow> h3_dispatcher_group \<Rightarrow> 't bus \<Rightarrow> 't bus \<times> chan" where
  "spawn_h3_dispatcher show_addr local_addr ctx grp b =
     (let (b, udp_rx_ref) = actor_spawn ctx (''udp-rx['' @ local_addr (ur_socket (dg_udp_rx grp)) @ '']'') Critical b;
          (b, udp_tx_ref) = actor_spawn ctx (''udp-tx['' @ local_addr (ut_socket (dg_udp_tx grp)) @ '']'') Critical b;
          (b, dispatcher_ref) = actor_spawn ctx (''h3-dispatcher['' @ show_addr (dg_bound_addr grp) @ '']'') Critical b;
          b = actor_link dispatcher_ref udp_rx_ref b;
          b = actor_link dispatcher_ref udp_tx_ref b;
          b = actor_link udp_rx_ref udp_tx_ref b
      in (b, dispatcher_ref))"

section \<open>Packet headers\<close>

datatype packet_type = InitialPacket | OtherPacket

record server_packet_header =
  ph_dcid :: "u8 list"
  ph_ty :: packet_type
  ph_version :: nat
  ph_scid :: "u8 list"

record 'q accept_lib =
  al_parse :: "u8 list \<Rightarrow> server_packet_header option"
  al_version_supported :: "nat \<Rightarrow> bool"
  al_negotiate :: "u8 list \<Rightarrow> u8 list \<Rightarrow> nat \<Rightarrow> u8 list option"
  al_accept :: "u8 list \<Rightarrow> socket_addr \<Rightarrow> socket_addr \<Rightarrow> server_quic_config \<Rightarrow> (string, 'q) result"

definition parse_header :: "'b buf_lib \<Rightarrow> 'q accept_lib \<Rightarrow> 'b list \<Rightarrow> server_packet_header option" where
  "parse_header B A batch = (case batch of [] \<Rightarrow> None | p # _ \<Rightarrow> al_parse A (buf_bytes B p))"

section \<open>State of the dispatcher\<close>

text \<open>A connection as it was accepted: its identifiers, its remote, and the tokens in force then.\<close>

record ('q, 'b) connection =
  cn_chan :: chan
  cn_dcid :: "u8 list"
  cn_scid :: "u8 list"
  cn_remote :: socket_addr
  cn_tokens :: "(string \<times> string) list"
  cn_params :: "('q, 'b) engine_params"
  cn_handshake :: "('q, 'b) handshake"

text \<open>What does not change during the loop.\<close>

record ('q, 'b) dispatcher_params =
  dp_accept :: "'q accept_lib"
  dp_octets :: octets_lib
  dp_buf :: "'b buf_lib"
  dp_quic :: "'q quic_lib"
  dp_config_lib :: config_lib
  dp_max_datagram :: nat
  dp_try :: "nat \<Rightarrow> try_send_result"
  dp_rng :: "nat \<Rightarrow> u8 list"
  dp_show_addr :: "socket_addr \<Rightarrow> string"
  dp_bound_addr :: socket_addr
  dp_max_udp_payload :: nat
  dp_cert_path :: string
  dp_key_path :: string
  dp_h3 :: h3_tuning
  dp_ctx :: chan

record ('q, 'b, 't) dispatcher =
  d_config :: server_quic_config
  d_tokens :: "(string \<times> string) list"
  d_cid_table :: "u8 list \<rightharpoonup> chan"
  d_next :: chan
  d_closed :: "chan set"
  d_draws :: nat
  d_sends :: nat
  d_udp :: "(socket_addr \<times> 'b list) list"
  d_routed :: "(chan \<times> socket_addr \<times> 'b list) list"
  d_connections :: "('q, 'b) connection list"
  d_bus :: "'t bus"
  d_reload_pending :: bool
  d_debounce :: duration
  d_exit :: "(string, unit) result option"

section \<open>Accepting\<close>

definition connection_params :: "('q, 'b) dispatcher_params \<Rightarrow> socket_addr \<Rightarrow> ('q, 'b) engine_params" where
  "connection_params D remote =
     \<lparr>ep_octets = dp_octets D, ep_buf = dp_buf D, ep_quic = dp_quic D, ep_max_datagram = dp_max_datagram D, ep_try = dp_try D,
      ep_meta = \<lparr>em_local_addr = dp_bound_addr D, em_remote_addr = remote, em_peer_id = dp_show_addr D remote,
                em_max_udp_payload = dp_max_udp_payload D\<rparr>\<rparr>"

definition negotiate_version ::
  "('q, 'b) dispatcher_params \<Rightarrow> socket_addr \<Rightarrow> server_packet_header \<Rightarrow> ('q, 'b, 't) dispatcher \<Rightarrow> ('q, 'b, 't) dispatcher" where
  "negotiate_version D remote header s =
     (let pkt = alloc_uninit_packet_buf (dp_buf D) (dp_max_datagram D) (dp_max_udp_payload D) in
      case al_negotiate (dp_accept D) (ph_scid header) (ph_dcid header) (length (buf_bytes (dp_buf D) pkt)) of
        None \<Rightarrow> s
      | Some data \<Rightarrow>
          (let pkt = buf_copy (dp_buf D) data (buf_truncate (dp_buf D) (length data) pkt);
               s' = s\<lparr>d_sends := Suc (d_sends s)\<rparr>
           in if dp_try D (d_sends s) = TrySent then s'\<lparr>d_udp := d_udp s @ [(remote, [pkt])]\<rparr> else s'))"

text \<open>
  A new connection: the Initial is consumed, both identifiers are registered, the first flight is
  flushed, and the actor is spawned. When the flush fails the engine is dropped, and with it the
  receiving end of the registered channel.
\<close>

definition accept_and_spawn ::
  "('q, 'b) dispatcher_params \<Rightarrow> socket_addr \<Rightarrow> 'b list \<Rightarrow> server_packet_header \<Rightarrow> ('q, 'b, 't) dispatcher \<Rightarrow>
     ('q, 'b, 't) dispatcher option" where
  "accept_and_spawn D remote batch header s =
     (if ph_ty header \<noteq> InitialPacket then Some s
      else if \<not> al_version_supported (dp_accept D) (ph_version header) then Some (negotiate_version D remote header s)
      else let scid = dp_rng D (d_draws s); s = s\<lparr>d_draws := Suc (d_draws s)\<rparr> in
        case al_accept (dp_accept D) scid (dp_bound_addr D) remote (d_config s) of
          Err e \<Rightarrow> Some s
        | Ok conn \<Rightarrow>
            (let conn = snd (handle_udp_recv (dp_buf D) (dp_quic D) \<lparr>ri_from = remote, ri_to = dp_bound_addr D\<rparr> batch (None, conn));
                 c = d_next s;
                 s = s\<lparr>d_next := Suc c, d_cid_table := (d_cid_table s)(ph_dcid header \<mapsto> c, scid \<mapsto> c)\<rparr>;
                 P = connection_params D remote;
                 hs = \<lparr>hs_conn = conn, hs_session = None, hs_peer_id = dp_show_addr D remote, hs_sends = d_sends s, hs_udp = []\<rparr>
             in case flush_send P hs of
                  None \<Rightarrow> None
                | Some (hs, r) \<Rightarrow>
                    (let s = s\<lparr>d_sends := hs_sends hs, d_udp := d_udp s @ hs_udp hs\<rparr> in
                     case r of
                       Err e \<Rightarrow> Some (s\<lparr>d_closed := insert c (d_closed s)\<rparr>)
                     | Ok _ \<Rightarrow>
                         Some (s\<lparr>d_bus := fst (actor_spawn (dp_ctx D) (''h3-server-connection['' @ dp_show_addr D remote @ '']'') Restartable (d_bus s)),
                                d_connections := d_connections s @
                                  [\<lparr>cn_chan = c, cn_dcid = ph_dcid header, cn_scid = scid, cn_remote = remote,
                                    cn_tokens = d_tokens s, cn_params = P, cn_handshake = hs\<rparr>]\<rparr>))))"

definition handle_udp_batch ::
  "('q, 'b) dispatcher_params \<Rightarrow> socket_addr \<Rightarrow> 'b list \<Rightarrow> ('q, 'b, 't) dispatcher \<Rightarrow> ('q, 'b, 't) dispatcher option" where
  "handle_udp_batch D remote batch s =
     (case parse_header (dp_buf D) (dp_accept D) batch of
        None \<Rightarrow> Some s
      | Some header \<Rightarrow>
          (case d_cid_table s (ph_dcid header) of
             Some c \<Rightarrow> Some (if c \<in> d_closed s then s else s\<lparr>d_routed := d_routed s @ [(c, remote, batch)]\<rparr>)
           | None \<Rightarrow> accept_and_spawn D remote batch header s))"

section \<open>The loop\<close>

definition RELOAD_DEBOUNCE :: duration where "RELOAD_DEBOUNCE = millis 500"

record notify_event =
  ne_need_rescan :: bool
  ne_is_access :: bool

definition should_reload :: "notify_event \<Rightarrow> bool" where
  "should_reload ev = (ne_need_rescan ev \<or> \<not> ne_is_access ev)"

text \<open>The events of the loop, the last one being the end of the task that reads a channel.\<close>

datatype ('b, 't) dispatch_event =
    DispBatch "(socket_addr \<times> 'b list) option"
  | DispCleanup
  | DispInbox "'t event option"
  | DispWatch duration "(string, notify_event) result option"
  | DispDebounce duration "string option"
  | DispConnectionGone chan

definition reload_config :: "('q, 'b) dispatcher_params \<Rightarrow> string option \<Rightarrow> ('q, 'b, 't) dispatcher \<Rightarrow> ('q, 'b, 't) dispatcher" where
  "reload_config D join_failure s =
     (let s = s\<lparr>d_reload_pending := False\<rparr> in
      case join_failure of
        Some e \<Rightarrow> s
      | None \<Rightarrow>
          (case make_server_quiche_config (dp_config_lib D) (dp_h3 D) (dp_max_udp_payload D) (dp_cert_path D) (dp_key_path D) of
             Ok config \<Rightarrow> s\<lparr>d_config := config\<rparr>
           | Err e \<Rightarrow> s))"

definition dispatcher_step ::
  "('q, 'b) dispatcher_params \<Rightarrow> ('b, 't) dispatch_event \<Rightarrow> ('q, 'b, 't) dispatcher \<Rightarrow> ('q, 'b, 't) dispatcher option" where
  "dispatcher_step D ev s =
     (if d_exit s \<noteq> None then Some s else
      case ev of
        DispBatch None \<Rightarrow> Some (s\<lparr>d_exit := Some (Err ''UDP RX actor channel closed'')\<rparr>)
      | DispBatch (Some (remote, batch)) \<Rightarrow> handle_udp_batch D remote batch s
      | DispCleanup \<Rightarrow>
          Some (s\<lparr>d_cid_table := (\<lambda>cid. case d_cid_table s cid of
                     Some c \<Rightarrow> if c \<in> d_closed s then None else Some c | None \<Rightarrow> None)\<rparr>)
      | DispInbox (Some (UpdatePeerTokens tokens)) \<Rightarrow> Some (s\<lparr>d_tokens := tokens\<rparr>)
      | DispInbox (Some Stop) \<Rightarrow> Some (s\<lparr>d_exit := Some (Ok ())\<rparr>)
      | DispInbox (Some _) \<Rightarrow> Some s
      | DispInbox None \<Rightarrow> Some (s\<lparr>d_exit := Some (Ok ())\<rparr>)
      | DispWatch now None \<Rightarrow> Some (s\<lparr>d_exit := Some (Err ''TLS certificate watcher event channel closed'')\<rparr>)
      | DispWatch now (Some (Ok event)) \<Rightarrow>
          Some (if should_reload event then s\<lparr>d_debounce := now + RELOAD_DEBOUNCE, d_reload_pending := True\<rparr> else s)
      | DispWatch now (Some (Err e)) \<Rightarrow> Some (s\<lparr>d_debounce := now + RELOAD_DEBOUNCE, d_reload_pending := True\<rparr>)
      | DispDebounce now join_failure \<Rightarrow>
          Some (if d_reload_pending s \<and> d_debounce s \<le> now then reload_config D join_failure s else s)
      | DispConnectionGone c \<Rightarrow> Some (s\<lparr>d_closed := insert c (d_closed s)\<rparr>))"

fun dispatcher_run ::
  "('q, 'b) dispatcher_params \<Rightarrow> ('b, 't) dispatch_event list \<Rightarrow> ('q, 'b, 't) dispatcher \<Rightarrow> ('q, 'b, 't) dispatcher option" where
  "dispatcher_run D [] s = Some s"
| "dispatcher_run D (ev # evs) s = (case dispatcher_step D ev s of None \<Rightarrow> None | Some s' \<Rightarrow> dispatcher_run D evs s')"

definition dispatcher_init ::
  "server_quic_config \<Rightarrow> (string \<times> string) list \<Rightarrow> duration \<Rightarrow> 't bus \<Rightarrow> ('q, 'b, 't) dispatcher" where
  "dispatcher_init config tokens far b =
     \<lparr>d_config = config, d_tokens = tokens, d_cid_table = (\<lambda>_. None), d_next = 0, d_closed = {}, d_draws = 0, d_sends = 0,
      d_udp = [], d_routed = [], d_connections = [], d_bus = b, d_reload_pending = False, d_debounce = far, d_exit = None\<rparr>"

section \<open>The task of a connection\<close>

datatype ('q, 'b) connection_outcome =
    ConnPending | ConnPanicked | ConnRefused server_error | ConnOwnerGone | ConnRunning connected_event "('q, 'b) engine_state"

definition connection_task ::
  "('k, 'd) hmac_lib \<Rightarrow> (u64 \<Rightarrow> header list \<Rightarrow> 'k) \<Rightarrow> ('q, 'b) connection \<Rightarrow> 'b handshake_event list \<Rightarrow> bool \<Rightarrow> chan \<Rightarrow>
     ('q, 'b) connection_outcome option" where
  "connection_task H key cn evs owner_alive egress_tx =
     (case accept (cn_params cn) H key (cn_tokens cn) evs (cn_handshake cn) of
        None \<Rightarrow> None
      | Some (Continue _) \<Rightarrow> Some ConnPending
      | Some Panicked \<Rightarrow> Some ConnPanicked
      | Some (Failed e) \<Rightarrow> Some (ConnRefused e)
      | Some (Established hs) \<Rightarrow>
          Some (if owner_alive
                then ConnRunning \<lparr>ce_peer_id = hs_peer_id hs, ce_remote_addr = cn_remote cn, ce_tx = egress_tx, ce_endpoint = None\<rparr>
                       (engine_init (hs_conn hs) (the (hs_session hs)))
                else ConnOwnerGone))"

section \<open>The outbound dial\<close>

datatype ('q, 'b) dial_outcome =
    DialPending | DialPanicked | DialFailedWith dial_error | DialConnected connected_event "('q, 'b) engine_state"

record 'q dial_sys =
  ds_sys :: sys_calls
  ds_probe :: "ip_addr \<Rightarrow> string option \<Rightarrow> (route_probe_error, string list) result"
  ds_local_addr :: "sock \<Rightarrow> (io_error, socket_addr) result"
  ds_local_name :: "sock \<Rightarrow> string"
  ds_udp_init :: "sock \<Rightarrow> nat \<Rightarrow> bool \<Rightarrow> (udp_error, udp_rx \<times> udp_tx) result"
  ds_join_failure :: "string option"
  ds_connect :: "string \<Rightarrow> u8 list \<Rightarrow> socket_addr \<Rightarrow> socket_addr \<Rightarrow> client_quic_config \<Rightarrow> (string, 'q) result"
  ds_scid :: "u8 list"
  ds_show_addr :: "socket_addr \<Rightarrow> string"

text \<open>Everything before the handshake: the socket, the UDP halves, the connection.\<close>

definition dial_h3_prepare ::
  "'q dial_sys \<Rightarrow> config_lib \<Rightarrow> peer_h3 \<Rightarrow> h3_endpoint \<Rightarrow> dial_context \<Rightarrow>
     (dial_error, socket_addr \<times> udp_rx \<times> udp_tx \<times> 'q) result" where
  "dial_h3_prepare S C ph3 endpoint dial =
     (let remote_addr = (dc_dial_ip dial, h3e_port endpoint);
          server_name = (case ph3_sni ph3 of Some sni \<Rightarrow> sni | None \<Rightarrow> h3e_host endpoint);
          tun = dc_tuning dial; io = t_io tun;
          max_udp_payload = unat (dc_tun_mtu dial) + CONNECT_IP_OVERHEAD
      in case make_unbound_udp_socket (ds_sys S) (ds_probe S) remote_addr (Some (dc_tun_if dial)) (ph3_bindif ph3) (socket_buffer_bytes io) of
           Err e \<Rightarrow> Err (DialSocket (show_udp_error e))
         | Ok socket \<Rightarrow>
         (case ds_local_addr S socket of
            Err e \<Rightarrow> Err (DialSocket (''local_addr: '' @ ie_text e))
          | Ok local_addr \<Rightarrow>
         (case ds_join_failure S of
            Some e \<Rightarrow> Err (DialSocket (''UDP runtime task failed: '' @ e))
          | None \<Rightarrow>
         (case ds_udp_init S socket max_udp_payload (udp_enable_offload io) of
            Err e \<Rightarrow> Err (DialSocket (''make_udp: '' @ show_udp_error e))
          | Ok (rx, tx) \<Rightarrow>
         (case make_client_quiche_config C (t_h3 tun) max_udp_payload of
            Err e \<Rightarrow> Err e
          | Ok config \<Rightarrow>
         (case ds_connect S server_name (ds_scid S) local_addr remote_addr config of
            Err e \<Rightarrow> Err (DialHandshake (''quiche connect: '' @ e))
          | Ok conn \<Rightarrow> Ok (local_addr, rx, tx, conn)))))))"

definition dial_h3_client ::
  "'q dial_sys \<Rightarrow> config_lib \<Rightarrow> octets_lib \<Rightarrow> 'b buf_lib \<Rightarrow> 'q quic_lib \<Rightarrow> nat \<Rightarrow> (nat \<Rightarrow> try_send_result) \<Rightarrow> peer_h3 \<Rightarrow> dial_context \<Rightarrow>
     'b handshake_event list \<Rightarrow> chan \<Rightarrow> chan \<Rightarrow> 't bus \<Rightarrow> (('q, 'b) dial_outcome \<times> 't bus) option" where
  "dial_h3_client S C V B Q max_datagram tries ph3 dial evs egress_tx ctx b =
     (case ph3_endpoint ph3 of
        None \<Rightarrow> Some (DialFailedWith (DialSocket ''endpoint is None''), b)
      | Some endpoint \<Rightarrow>
          (case dial_h3_prepare S C ph3 endpoint dial of
             Err e \<Rightarrow> Some (DialFailedWith e, b)
           | Ok (local_addr, rx, tx, conn) \<Rightarrow>
               (let remote_addr = (dc_dial_ip dial, h3e_port endpoint);
                    (b, udp_rx_ref) = actor_spawn ctx (''udp-rx['' @ ds_local_name S (ur_socket rx) @ '']'') Restartable b;
                    (b, udp_tx_ref) = actor_spawn ctx (''udp-tx['' @ ds_local_name S (ut_socket tx) @ '']'') Restartable b;
                    b = actor_link udp_rx_ref udp_tx_ref b;
                    P = \<lparr>ep_octets = V, ep_buf = B, ep_quic = Q, ep_max_datagram = max_datagram, ep_try = tries,
                         ep_meta = \<lparr>em_local_addr = local_addr, em_remote_addr = remote_addr, em_peer_id = dc_peer_id dial,
                           em_max_udp_payload = unat (dc_tun_mtu dial) + CONNECT_IP_OVERHEAD\<rparr>\<rparr>
                in case establish P (dial_authority endpoint) (h3e_path endpoint) (bearer_auth_header (ph3_token ph3))
                          (h3_handshake_timeout (t_h3 (dc_tuning dial))) evs (hs_init conn (dc_peer_id dial)) of
                     None \<Rightarrow> None
                   | Some (Continue _) \<Rightarrow> Some (DialPending, b)
                   | Some Panicked \<Rightarrow> Some (DialPanicked, b)
                   | Some (Failed e) \<Rightarrow> Some (DialFailedWith e, b)
                   | Some (Established hs) \<Rightarrow>
                       (let (b, engine_ref) = actor_spawn ctx
                              (''h3-engine['' @ dc_peer_id dial @ ''@'' @ ds_show_addr S remote_addr @ '']'') Restartable b;
                            b = actor_link engine_ref udp_rx_ref b;
                            b = actor_link engine_ref udp_tx_ref b
                        in Some (DialConnected \<lparr>ce_peer_id = dc_peer_id dial, ce_remote_addr = remote_addr, ce_tx = egress_tx,
                                   ce_endpoint = map_option H3Ep (ph3_endpoint ph3)\<rparr>
                                 (engine_init (hs_conn hs) (the (hs_session hs))), b)))))"

section \<open>What accepting changes\<close>

definition same_routes :: "('q, 'b, 't) dispatcher \<Rightarrow> ('q, 'b, 't) dispatcher \<Rightarrow> bool" where
  "same_routes s s' \<longleftrightarrow> d_cid_table s' = d_cid_table s \<and> d_closed s' = d_closed s \<and> d_next s' = d_next s \<and>
     d_routed s' = d_routed s \<and> d_connections s' = d_connections s"

text \<open>A fresh channel is registered for both identifiers, and it is closed at once or belongs to a new connection.\<close>

definition registered ::
  "('q, 'b) dispatcher_params \<Rightarrow> socket_addr \<Rightarrow> server_packet_header \<Rightarrow> ('q, 'b, 't) dispatcher \<Rightarrow> ('q, 'b, 't) dispatcher \<Rightarrow> bool" where
  "registered D remote header s s' \<longleftrightarrow>
     (\<exists>scid. d_cid_table s' = (d_cid_table s)(ph_dcid header \<mapsto> d_next s, scid \<mapsto> d_next s) \<and> d_next s' = Suc (d_next s) \<and>
        d_routed s' = d_routed s \<and>
        (d_closed s' = insert (d_next s) (d_closed s) \<and> d_connections s' = d_connections s \<or>
         d_closed s' = d_closed s \<and>
         (\<exists>cn. d_connections s' = d_connections s @ [cn] \<and> cn_chan cn = d_next s \<and> cn_dcid cn = ph_dcid header \<and> cn_scid cn = scid \<and>
            cn_remote cn = remote \<and> cn_tokens cn = d_tokens s \<and> cn_params cn = connection_params D remote \<and>
            hs_session (cn_handshake cn) = None)))"

lemma accept_and_spawn_cases:
  assumes "accept_and_spawn D remote batch header s = Some s'"
  shows "(same_routes s s' \<or> ph_ty header = InitialPacket \<and> registered D remote header s s') \<and> d_tokens s' = d_tokens s \<and> d_config s' = d_config s \<and> d_exit s' = d_exit s"
proof -
  have neg: "same_routes s (negotiate_version D remote header s) \<and> d_tokens (negotiate_version D remote header s) = d_tokens s \<and>
      d_config (negotiate_version D remote header s) = d_config s \<and> d_exit (negotiate_version D remote header s) = d_exit s"
    by (simp add: negotiate_version_def same_routes_def Let_def split: option.split)
  show ?thesis
  proof (cases "ph_ty header = InitialPacket \<and> al_version_supported (dp_accept D) (ph_version header)")
    case False
    with assms neg show ?thesis by (auto simp: accept_and_spawn_def same_routes_def split: if_splits)
  next
    case True
    define scid where "scid = dp_rng D (d_draws s)"
    show ?thesis
    proof (cases "al_accept (dp_accept D) scid (dp_bound_addr D) remote (d_config s)")
      case (Inl e)
      with assms True show ?thesis by (auto simp: accept_and_spawn_def same_routes_def scid_def Let_def)
    next
      case (Inr conn)
      let ?conn = "snd (handle_udp_recv (dp_buf D) (dp_quic D) \<lparr>ri_from = remote, ri_to = dp_bound_addr D\<rparr> batch (None, conn))"
      let ?hs = "\<lparr>hs_conn = ?conn, hs_session = None, hs_peer_id = dp_show_addr D remote, hs_sends = d_sends s, hs_udp = []\<rparr>"
      obtain hs r where fl: "flush_send (connection_params D remote) ?hs = Some (hs, r)"
        using assms True Inr by (auto simp: accept_and_spawn_def scid_def Let_def split: option.splits)
      have ses: "hs_session hs = None" using flush_send_keeps [OF fl] by simp
      show ?thesis
        using assms True Inr fl ses
        by (cases r) (auto simp: accept_and_spawn_def scid_def [symmetric] Let_def registered_def intro!: exI [of _ scid])
    qed
  qed
qed

section \<open>Routing invariant\<close>

definition owns_cid :: "('q, 'b) connection \<Rightarrow> chan \<Rightarrow> u8 list \<Rightarrow> bool" where
  "owns_cid cn c cid \<longleftrightarrow> cn_chan cn = c \<and> cid \<in> {cn_dcid cn, cn_scid cn}"

definition disp_inv :: "('q, 'b) dispatcher_params \<Rightarrow> ('q, 'b, 't) dispatcher \<Rightarrow> bool" where
  "disp_inv D s \<longleftrightarrow>
     (\<forall>cid c. d_cid_table s cid = Some c \<longrightarrow> c < d_next s \<and> (c \<in> d_closed s \<or> (\<exists>cn\<in>set (d_connections s). owns_cid cn c cid))) \<and>
     (\<forall>(c, remote, batch)\<in>set (d_routed s). \<exists>h. parse_header (dp_buf D) (dp_accept D) batch = Some h \<and>
        (\<exists>cn\<in>set (d_connections s). owns_cid cn c (ph_dcid h))) \<and>
     (\<forall>cn\<in>set (d_connections s). cn_chan cn < d_next s) \<and> distinct (map cn_chan (d_connections s))"

inductive disp_trans :: "('q, 'b) dispatcher_params \<Rightarrow> ('q, 'b, 't) dispatcher \<Rightarrow> ('q, 'b, 't) dispatcher \<Rightarrow> bool" for D where
  disp: "dispatcher_step D ev s = Some t \<Longrightarrow> disp_trans D s t"

definition disp_start :: "('q, 'b, 't) dispatcher \<Rightarrow> bool" where
  "disp_start s \<longleftrightarrow> (\<exists>config tokens far b. s = dispatcher_init config tokens far b)"

lemma disp_inv_same: "disp_inv D s \<Longrightarrow> same_routes s s' \<Longrightarrow> disp_inv D s'"
  by (simp add: disp_inv_def same_routes_def)

lemma disp_inv_restrict:
  "disp_inv D s \<Longrightarrow> (\<And>cid c. tbl cid = Some c \<Longrightarrow> d_cid_table s cid = Some c) \<Longrightarrow> disp_inv D (s\<lparr>d_cid_table := tbl\<rparr>)"
  unfolding disp_inv_def by (intro conjI; elim conjE) (simp_all, blast?)

lemma disp_inv_close: "disp_inv D s \<Longrightarrow> disp_inv D (s\<lparr>d_closed := insert c (d_closed s)\<rparr>)"
  unfolding disp_inv_def by (intro conjI; elim conjE) (simp_all, blast?)

lemma disp_inv_registered:
  assumes "disp_inv D s" "registered D remote header s s'"
  shows "disp_inv D s'"
proof -
  obtain scid where t: "d_cid_table s' = (d_cid_table s)(ph_dcid header \<mapsto> d_next s, scid \<mapsto> d_next s)"
    "d_next s' = Suc (d_next s)" "d_routed s' = d_routed s"
    "d_closed s' = insert (d_next s) (d_closed s) \<and> d_connections s' = d_connections s \<or>
     d_closed s' = d_closed s \<and>
      (\<exists>cn. d_connections s' = d_connections s @ [cn] \<and> cn_chan cn = d_next s \<and> cn_dcid cn = ph_dcid header \<and> cn_scid cn = scid)"
    using assms(2) unfolding registered_def by blast
  from t(4) show ?thesis
  proof (elim disjE conjE exE)
    assume "d_closed s' = insert (d_next s) (d_closed s)" "d_connections s' = d_connections s"
    then show ?thesis using assms(1) t(1-3) by (auto simp: disp_inv_def less_Suc_eq split: if_splits)
  next
    fix cn assume cn: "d_closed s' = d_closed s" "d_connections s' = d_connections s @ [cn]" "cn_chan cn = d_next s"
      "cn_dcid cn = ph_dcid header" "cn_scid cn = scid"
    then have own: "owns_cid cn (d_next s) (ph_dcid header)" "owns_cid cn (d_next s) scid" by (simp_all add: owns_cid_def)
    show ?thesis using assms(1) t(1-3) cn(1-3) own
      by (auto simp: disp_inv_def less_Suc_eq split: if_splits) blast+
  qed
qed

lemma disp_inv_batch:
  assumes "disp_inv D s" "handle_udp_batch D remote batch s = Some s'"
  shows "disp_inv D s'"
proof (cases "parse_header (dp_buf D) (dp_accept D) batch")
  case (Some header)
  show ?thesis
  proof (cases "d_cid_table s (ph_dcid header)")
    case None
    with Some assms have "accept_and_spawn D remote batch header s = Some s'" by (simp add: handle_udp_batch_def)
    from accept_and_spawn_cases [OF this] have "same_routes s s' \<or> registered D remote header s s'" by blast
    then show ?thesis by (elim disjE) (rule disp_inv_same [OF assms(1)] disp_inv_registered [OF assms(1)], assumption)+
  next
    case (Some c)
    then have "s' = (if c \<in> d_closed s then s else s\<lparr>d_routed := d_routed s @ [(c, remote, batch)]\<rparr>)"
      using assms(2) \<open>parse_header _ _ _ = Some header\<close> by (simp add: handle_udp_batch_def)
    moreover have "c \<in> d_closed s \<or> (\<exists>cn\<in>set (d_connections s). owns_cid cn c (ph_dcid header))"
      using assms(1) Some by (auto simp: disp_inv_def)
    ultimately show ?thesis using assms(1) \<open>parse_header _ _ _ = Some header\<close> by (auto simp: disp_inv_def)
  qed
qed (use assms in \<open>simp add: handle_udp_batch_def\<close>)

lemma disp_inv_step:
  assumes "disp_inv D s" "dispatcher_step D ev s = Some s'"
  shows "disp_inv D s'"
proof (cases "d_exit s = None")
  case True
  show ?thesis
  proof (cases ev)
    case (DispBatch x)
    show ?thesis
    proof (cases x)
      case None
      then have "same_routes s s'" using assms(2) True DispBatch by (auto simp: dispatcher_step_def same_routes_def)
      then show ?thesis by (rule disp_inv_same [OF assms(1)])
    next
      case (Some rb)
      obtain remote batch where "rb = (remote, batch)" by (cases rb)
      with Some assms(2) True DispBatch have "handle_udp_batch D remote batch s = Some s'" by (simp add: dispatcher_step_def)
      then show ?thesis by (rule disp_inv_batch [OF assms(1)])
    qed
  next
    case DispCleanup
    then have s': "s' = s\<lparr>d_cid_table := (\<lambda>cid. case d_cid_table s cid of
        Some c \<Rightarrow> if c \<in> d_closed s then None else Some c | None \<Rightarrow> None)\<rparr>"
      using assms(2) True by (simp add: dispatcher_step_def)
    show ?thesis unfolding s'
      by (rule disp_inv_restrict [OF assms(1)]) (auto split: option.splits if_splits)
  next
    case (DispInbox x)
    have "same_routes s s'" using assms(2) True DispInbox
      by (auto simp: dispatcher_step_def same_routes_def split: option.splits event.splits)
    then show ?thesis by (rule disp_inv_same [OF assms(1)])
  next
    case (DispWatch now x)
    have "same_routes s s'" using assms(2) True DispWatch
      by (auto simp: dispatcher_step_def same_routes_def split: option.splits sum.splits if_splits)
    then show ?thesis by (rule disp_inv_same [OF assms(1)])
  next
    case (DispDebounce now x)
    have "same_routes s s'" using assms(2) True DispDebounce
      by (auto simp: dispatcher_step_def same_routes_def reload_config_def Let_def split: option.splits sum.splits if_splits)
    then show ?thesis by (rule disp_inv_same [OF assms(1)])
  next
    case (DispConnectionGone c)
    then have "s' = s\<lparr>d_closed := insert c (d_closed s)\<rparr>" using assms(2) True by (simp add: dispatcher_step_def)
    then show ?thesis using disp_inv_close [OF assms(1)] by simp
  qed
qed (use assms in \<open>simp add: dispatcher_step_def\<close>)

interpretation disp_loop: inductive_invariant disp_start "disp_trans D" "disp_inv D" for D
proof
  show "disp_start s \<Longrightarrow> disp_inv D s" for s
    by (auto simp: disp_start_def disp_inv_def dispatcher_init_def)
  show "disp_inv D s \<Longrightarrow> disp_trans D s t \<Longrightarrow> disp_inv D t" for s t
    by (auto elim!: disp_trans.cases intro: disp_inv_step)
qed

lemma dispatcher_run_steps: "dispatcher_run D evs s = Some s' \<Longrightarrow> (disp_trans D)\<^sup>*\<^sup>* s s'"
  by (induction evs arbitrary: s)
    (auto split: option.splits intro: converse_rtranclp_into_rtranclp disp_trans.disp)

lemma dispatcher_run_inv:
  assumes "dispatcher_run D evs (dispatcher_init config tokens far b) = Some s"
  shows "disp_inv D s"
proof (rule disp_loop.steps_inv [OF dispatcher_run_steps [OF assms]])
  show "disp_inv D (dispatcher_init config tokens far b)"
    by (rule disp_loop.inv_init) (auto simp: disp_start_def)
qed

section \<open>Tokens in force\<close>

definition tokens_after :: "(string \<times> string) list \<Rightarrow> ('b, 't) dispatch_event list \<Rightarrow> (string \<times> string) list" where
  "tokens_after tokens evs =
     fold (\<lambda>ev t. case ev of DispInbox (Some (UpdatePeerTokens ts)) \<Rightarrow> ts | _ \<Rightarrow> t) evs tokens"

text \<open>Every connection was accepted at some batch and carries the tokens in force at it.\<close>

definition accepted_at ::
  "('q, 'b) dispatcher_params \<Rightarrow> (string \<times> string) list \<Rightarrow> ('b, 't) dispatch_event list \<Rightarrow> ('q, 'b) connection \<Rightarrow> bool" where
  "accepted_at D tokens evs cn \<longleftrightarrow>
     (\<exists>evs1 batch evs2 h. evs = evs1 @ DispBatch (Some (cn_remote cn, batch)) # evs2 \<and> cn_tokens cn = tokens_after tokens evs1 \<and>
        parse_header (dp_buf D) (dp_accept D) batch = Some h \<and> ph_ty h = InitialPacket \<and> cn_dcid cn = ph_dcid h \<and>
        cn_params cn = connection_params D (cn_remote cn) \<and> hs_session (cn_handshake cn) = None)"

definition token_update :: "('b, 't) dispatch_event \<Rightarrow> (string \<times> string) list \<Rightarrow> (string \<times> string) list" where
  "token_update ev t = (case ev of DispInbox (Some (UpdatePeerTokens ts)) \<Rightarrow> ts | _ \<Rightarrow> t)"

lemma tokens_after_snoc: "tokens_after tokens (evs @ [ev]) = token_update ev (tokens_after tokens evs)"
  by (simp add: tokens_after_def token_update_def)

lemma handle_udp_batch_connections:
  assumes "handle_udp_batch D remote batch s = Some t"
  shows "d_tokens t = d_tokens s \<and> (d_connections t = d_connections s \<or>
    (\<exists>h cn. parse_header (dp_buf D) (dp_accept D) batch = Some h \<and> ph_ty h = InitialPacket \<and> d_connections t = d_connections s @ [cn] \<and>
       cn_dcid cn = ph_dcid h \<and> cn_remote cn = remote \<and> cn_tokens cn = d_tokens s \<and>
       cn_params cn = connection_params D remote \<and> hs_session (cn_handshake cn) = None))"
proof (cases "parse_header (dp_buf D) (dp_accept D) batch")
  case (Some h)
  show ?thesis
  proof (cases "d_cid_table s (ph_dcid h)")
    case None
    with Some assms have "accept_and_spawn D remote batch h s = Some t" by (simp add: handle_udp_batch_def)
    note c = accept_and_spawn_cases [OF this]
    from c have "same_routes s t \<or> ph_ty h = InitialPacket \<and> registered D remote h s t" "d_tokens t = d_tokens s" by blast+
    then show ?thesis using Some by (auto simp: same_routes_def registered_def)
  qed (use assms Some in \<open>auto simp: handle_udp_batch_def split: if_splits\<close>)
qed (use assms in \<open>auto simp: handle_udp_batch_def\<close>)

lemma dispatcher_step_connections:
  assumes "dispatcher_step D ev s = Some t" "d_exit s = None"
  shows "d_tokens t = token_update ev (d_tokens s) \<and> (d_connections t = d_connections s \<or>
    (\<exists>remote batch h cn. ev = DispBatch (Some (remote, batch)) \<and> parse_header (dp_buf D) (dp_accept D) batch = Some h \<and>
       ph_ty h = InitialPacket \<and> d_connections t = d_connections s @ [cn] \<and> cn_dcid cn = ph_dcid h \<and> cn_remote cn = remote \<and>
       cn_tokens cn = d_tokens s \<and> cn_params cn = connection_params D remote \<and> hs_session (cn_handshake cn) = None))"
proof (cases "\<exists>remote batch. ev = DispBatch (Some (remote, batch))")
  case True
  then obtain remote batch where ev: "ev = DispBatch (Some (remote, batch))" by blast
  with assms have "handle_udp_batch D remote batch s = Some t" by (simp add: dispatcher_step_def)
  from handle_udp_batch_connections [OF this] show ?thesis unfolding ev by (simp add: token_update_def)
next
  case False
  have "d_tokens t = token_update ev (d_tokens s) \<and> d_connections t = d_connections s"
  proof (cases ev)
    case (DispInbox x)
    show ?thesis
    proof (cases x)
      case (Some m)
      with assms DispInbox show ?thesis by (cases m) (auto simp: dispatcher_step_def token_update_def)
    qed (use assms DispInbox in \<open>auto simp: dispatcher_step_def token_update_def\<close>)
  next
    case (DispWatch now x)
    with assms show ?thesis by (auto simp: dispatcher_step_def token_update_def split: option.splits sum.splits if_splits)
  next
    case (DispDebounce now x)
    with assms show ?thesis
      by (auto simp: dispatcher_step_def token_update_def reload_config_def Let_def split: option.splits sum.splits if_splits)
  next
    case (DispBatch x)
    with False assms show ?thesis by (cases x) (auto simp: dispatcher_step_def token_update_def)
  qed (use assms in \<open>auto simp: dispatcher_step_def token_update_def\<close>)
  then show ?thesis by simp
qed

lemma dispatcher_run_snoc:
  "dispatcher_run D (evs @ [ev]) s = (case dispatcher_run D evs s of None \<Rightarrow> None | Some s' \<Rightarrow> dispatcher_step D ev s')"
  by (induction evs arbitrary: s) (auto split: option.splits)

lemma accepted_at_snoc: "accepted_at D tokens evs cn \<Longrightarrow> accepted_at D tokens (evs @ [ev]) cn"
  unfolding accepted_at_def by (metis append_Cons append_assoc)

lemma dispatcher_run_history:
  assumes "dispatcher_run D evs (dispatcher_init config tokens far b) = Some s"
  shows "(\<forall>cn\<in>set (d_connections s). accepted_at D tokens evs cn) \<and> (d_exit s = None \<longrightarrow> d_tokens s = tokens_after tokens evs)"
  using assms
proof (induction evs arbitrary: s rule: rev_induct)
  case Nil
  then show ?case by (auto simp: dispatcher_init_def tokens_after_def)
next
  case (snoc ev evs)
  then obtain s0 where s0: "dispatcher_run D evs (dispatcher_init config tokens far b) = Some s0" "dispatcher_step D ev s0 = Some s"
    by (auto simp: dispatcher_run_snoc split: option.splits)
  note IH = snoc.IH [OF s0(1)]
  show ?case
  proof (cases "d_exit s0 = None")
    case False
    then have "s = s0" using s0(2) by (simp add: dispatcher_step_def)
    with IH False show ?thesis by (auto intro: accepted_at_snoc)
  next
    case True
    note step = dispatcher_step_connections [OF s0(2) True]
    have tok: "d_tokens s0 = tokens_after tokens evs" using IH True by blast
    have "accepted_at D tokens (evs @ [ev]) cn" if "cn \<in> set (d_connections s)" for cn
    proof (cases "cn \<in> set (d_connections s0)")
      case True
      with IH show ?thesis by (auto intro: accepted_at_snoc)
    next
      case False
      with step that obtain remote batch h where "ev = DispBatch (Some (remote, batch))"
        "parse_header (dp_buf D) (dp_accept D) batch = Some h" "ph_ty h = InitialPacket" "cn_dcid cn = ph_dcid h" "cn_remote cn = remote"
        "cn_tokens cn = d_tokens s0" "cn_params cn = connection_params D remote" "hs_session (cn_handshake cn) = None" by auto
      with tok show ?thesis unfolding accepted_at_def by auto
    qed
    with step tok show ?thesis by (simp add: tokens_after_snoc)
  qed
qed

section \<open>Properties\<close>

text \<open>C36: Packets reach only the connection their identifier belongs to. In every state the dispatcher reaches, each
  routed batch starts with a packet whose destination identifier is the one the client chose or the one
  the server drew for the connection it was routed to; connections have channels of their own; and an identifier
  whose connection is still alive leads to the connection that owns it.\<close>

theorem dispatcher_routes_by_cid:
  assumes "dispatcher_run D evs (dispatcher_init config tokens far b) = Some s"
  shows "(\<forall>(c, remote, batch)\<in>set (d_routed s). \<exists>h. parse_header (dp_buf D) (dp_accept D) batch = Some h \<and>
      (\<exists>cn\<in>set (d_connections s). cn_chan cn = c \<and> ph_dcid h \<in> {cn_dcid cn, cn_scid cn})) \<and>
    distinct (map cn_chan (d_connections s)) \<and>
    (\<forall>cid c. d_cid_table s cid = Some c \<and> c \<notin> d_closed s \<longrightarrow>
      (\<exists>cn\<in>set (d_connections s). cn_chan cn = c \<and> cid \<in> {cn_dcid cn, cn_scid cn}))"
  using dispatcher_run_inv [OF assms] unfolding disp_inv_def owns_cid_def by fast

text \<open>C37: A peer is reported as connected only after it presented a token that was configured when its connection began.
  When the task of an accepted connection reports the peer, the connection started with an Initial packet from the
  reported address, and a valid CONNECT-IP request was received on the stream the connection runs on, whose \<open>Authorization\<close> header is
  \<open>Bearer\<close> with the non-empty token that the token map in force at that packet has for the peer. Later
  changes of the map do not matter.\<close>

theorem connected_peer_had_token:
  assumes "dispatcher_run D evs (dispatcher_init config tokens far b) = Some s" "cn \<in> set (d_connections s)"
    and "connection_task H key cn hevs owner_alive egress_tx = Some (ConnRunning ev eng)"
    and "hmac_ok H" "distinct (map snd (cn_tokens cn))"
    and "\<And>sid hs t. map_option from_utf8_lossy (header_value (\<lambda>n. eq_ignore_ascii_case n ''authorization'') hs) =
        Some (bearer_auth_header t) \<Longrightarrow> collision_free H (key sid hs) (insert t (snd ` set (cn_tokens cn)))"
  shows "\<exists>evs1 batch evs2 h token sid hs q1 q2. evs = evs1 @ DispBatch (Some (ce_remote_addr ev, batch)) # evs2 \<and>
    parse_header (dp_buf D) (dp_accept D) batch = Some h \<and> ph_ty h = InitialPacket \<and>
    connect_stream_id (e_session eng) = Some sid \<and>
    h3_poll (ep_quic (cn_params cn)) q1 = (q2, Ok (sid, Headers hs)) \<and> validate_server_connect_headers hs = Ok () \<and>
    map_option from_utf8_lossy (header_value (\<lambda>n. eq_ignore_ascii_case n ''authorization'') hs) = Some (bearer_auth_header token) \<and>
    token \<noteq> [] \<and> (ce_peer_id ev, token) \<in> set (tokens_after tokens evs1)"
proof -
  have acc: "accepted_at D tokens evs cn" using dispatcher_run_history [OF assms(1)] assms(2) by blast
  obtain hs where hs: "accept (cn_params cn) H key (cn_tokens cn) hevs (cn_handshake cn) = Some (Established hs)"
    "ce_peer_id ev = hs_peer_id hs" "ce_remote_addr ev = cn_remote cn" "e_session eng = the (hs_session hs)"
    using assms(3) by (auto simp: connection_task_def engine_init_def split: option.splits hs_outcome.splits if_splits)
  have "hs_session (cn_handshake cn) = None" using acc by (auto simp: accepted_at_def)
  then have "server_inv (cn_params cn) H key (cn_tokens cn) (cn_handshake cn)" by (simp add: server_inv_def)
  from server_loop.run_ok [OF this] hs(1) have "server_goal (cn_params cn) H key (cn_tokens cn) hs"
    unfolding accept_def by fastforce
  then obtain sid hdrs q1 q2 where v: "h3_poll (ep_quic (cn_params cn)) q1 = (q2, Ok (sid, Headers hdrs))"
      "validate_server_connect_headers hdrs = Ok ()" "validate_server_auth H (key sid hdrs) hdrs (cn_tokens cn) = Ok (hs_peer_id hs)"
      "connect_stream_id (e_session eng) = Some sid"
    unfolding server_goal_def authenticated_request_def hs(4) by auto
  from validate_server_auth_token [where key = key and sid = sid and hs = hdrs, OF assms(4,5,6) v(3)]
  obtain token where t: "map_option from_utf8_lossy (header_value (\<lambda>n. eq_ignore_ascii_case n ''authorization'') hdrs) = Some (bearer_auth_header token)"
      "token \<noteq> []" "(ce_peer_id ev, token) \<in> set (cn_tokens cn)" using hs(2) by auto
  from acc hs(3) obtain evs1 batch evs2 h where e: "evs = evs1 @ DispBatch (Some (ce_remote_addr ev, batch)) # evs2"
      "parse_header (dp_buf D) (dp_accept D) batch = Some h" "ph_ty h = InitialPacket" "cn_tokens cn = tokens_after tokens evs1"
    unfolding accepted_at_def by metis
  show ?thesis by (intro exI conjI) (rule e(1,2,3) v(4) v(1,2) t(1,2) t(3) [unfolded e(4)])+
qed

definition sample_accept_lib :: "ref_conn accept_lib" where
  "sample_accept_lib = \<lparr>
     al_parse = (\<lambda>p. case p of d # t # _ \<Rightarrow>
         Some \<lparr>ph_dcid = [d], ph_ty = (if t = 0 then InitialPacket else OtherPacket), ph_version = 1, ph_scid = [9]\<rparr> | _ \<Rightarrow> None),
     al_version_supported = (\<lambda>_. True), al_negotiate = (\<lambda>_ _ _. None), al_accept = (\<lambda>_ _ _ _. Ok sample_server_conn)\<rparr>"

definition sample_dispatcher :: "(ref_conn, nat \<times> u8 list) dispatcher_params" where
  "sample_dispatcher = \<lparr>dp_accept = sample_accept_lib, dp_octets = octets_ref, dp_buf = buf_ref, dp_quic = quic_ref,
     dp_config_lib = \<lparr>cl_new = Ok (), cl_protos = Ok (), cl_cc = (\<lambda>_. Ok ()), cl_cert = (\<lambda>_. Ok ()), cl_key = (\<lambda>_. Ok ()), cl_ca = (\<lambda>_. Ok ())\<rparr>,
     dp_max_datagram = 1500, dp_try = (\<lambda>_. TryFull), dp_rng = (\<lambda>n. [100 + of_nat n]), dp_show_addr = (\<lambda>_. ''a''),
     dp_bound_addr = sample_addr, dp_max_udp_payload = 1200, dp_cert_path = ''cert'', dp_key_path = ''key'',
     dp_h3 = h3_tuning_default, dp_ctx = 0\<rparr>"

definition sample_server_config :: server_quic_config where
  "sample_server_config = \<lparr>sq_cert = ''cert'', sq_key = ''key'', sq_transport =
     \<lparr>tc_max_recv_payload = 1200, tc_max_send_payload = 1200, tc_max_data = 10000000, tc_max_stream_data = 1000000,
      tc_max_streams = 100, tc_dgram_queues = (1024, 1024), tc_idle_ms = 60000, tc_cc = ''none'', tc_pacing = False\<rparr>\<rparr>"

definition sample_dispatch :: "server_quic_config \<Rightarrow> (ref_conn, nat \<times> u8 list, unit) dispatcher option" where
  "sample_dispatch cfg = dispatcher_run sample_dispatcher
     [DispBatch (Some (sample_addr, [(0, [1, 0])])), DispBatch (Some (sample_addr, [(0, [1, 7])])), DispBatch (Some (sample_addr, [(0, [100, 7])]))]
     (dispatcher_init cfg [(''alice'', ''secret-token'')] 0 bus_new)"

lemma sample_connection_params: "connection_params sample_dispatcher sample_addr = sample_engine"
  by (simp add: connection_params_def sample_dispatcher_def sample_engine_def)

lemma sample_dispatch_value:
  "\<exists>s cn. sample_dispatch cfg = Some s \<and> cn \<in> set (d_connections s) \<and> cn_chan cn = 0 \<and> cn_params cn = sample_engine \<and>
     cn_tokens cn = [(''alice'', ''secret-token'')] \<and> cn_remote cn = sample_addr \<and>
     cn_handshake cn = hs_init (sample_server_conn\<lparr>rc_in := [[1, 0]]\<rparr>) ''a'' \<and>
     d_routed s = [(0, sample_addr, [(0, [1, 7])]), (0, sample_addr, [(0, [100, 7])])]"
proof -
  let ?conn = "sample_server_conn\<lparr>rc_in := [[1, 0]]\<rparr>"
  have recv: "snd (handle_udp_recv buf_ref quic_ref \<lparr>ri_from = sample_addr, ri_to = sample_addr\<rparr> [(0, [1, 0])] (None, sample_server_conn)) = ?conn"
    by (simp add: buf_ref_def quic_ref_def sample_server_conn_def ref_conn_new_def)
  have fl: "flush_send sample_engine (hs_init ?conn ''a'') = Some (hs_init ?conn ''a'', Ok ())"
    by (rule flush_send_ref) (simp add: hs_init_def sample_server_conn_def ref_conn_new_def)
  have D: "dp_accept sample_dispatcher = sample_accept_lib" "dp_buf sample_dispatcher = buf_ref" "dp_quic sample_dispatcher = quic_ref"
      "dp_bound_addr sample_dispatcher = sample_addr" "dp_rng sample_dispatcher 0 = [100]" "dp_show_addr sample_dispatcher x = ''a''" for x
    by (simp_all add: sample_dispatcher_def)
  have A: "al_version_supported sample_accept_lib n" "al_accept sample_accept_lib i l r c = Ok sample_server_conn" for n i l r c
    by (simp_all add: sample_accept_lib_def)
  have ph: "parse_header buf_ref sample_accept_lib [(0, [d, t])] =
      Some \<lparr>ph_dcid = [d], ph_ty = (if t = 0 then InitialPacket else OtherPacket), ph_version = 1, ph_scid = [9]\<rparr>" for d t
    by (simp add: parse_header_def sample_accept_lib_def buf_ref_def)
  have "\<exists>s. dispatcher_step sample_dispatcher (DispBatch (Some (sample_addr, [(0, [1, 0])]))) (dispatcher_init cfg [(''alice'', ''secret-token'')] 0 (bus_new :: unit bus)) = Some s \<and>
      d_connections s = [\<lparr>cn_chan = 0, cn_dcid = [1], cn_scid = [100], cn_remote = sample_addr, cn_tokens = [(''alice'', ''secret-token'')],
        cn_params = sample_engine, cn_handshake = hs_init ?conn ''a''\<rparr>] \<and> d_cid_table s = [[1] \<mapsto> 0, [100] \<mapsto> 0] \<and> d_closed s = {} \<and> d_routed s = [] \<and> d_exit s = None"
    using fl by (simp add: dispatcher_step_def dispatcher_init_def handle_udp_batch_def ph A
        accept_and_spawn_def D recv sample_connection_params hs_init_def Let_def del: handle_udp_recv.simps)
  then show ?thesis
    by (auto simp: sample_dispatch_def dispatcher_step_def handle_udp_batch_def D ph)
qed

theorem dispatcher_routes_by_cid_witness:
  "\<exists>s. sample_dispatch sample_server_config = Some s \<and> length (d_routed s) = 2 \<and>
     (\<forall>(c, remote, batch)\<in>set (d_routed s). \<exists>cn\<in>set (d_connections s). cn_chan cn = c)"
proof -
  obtain s where s: "sample_dispatch sample_server_config = Some s" "length (d_routed s) = 2"
    using sample_dispatch_value [of sample_server_config] by auto
  from dispatcher_routes_by_cid [OF s(1) [unfolded sample_dispatch_def]] s show ?thesis by fast
qed

theorem connected_peer_had_token_witness:
  "\<exists>s cn ev eng token hs. sample_dispatch sample_server_config = Some s \<and> cn \<in> set (d_connections s) \<and>
     connection_task hmac_ref (\<lambda>_ _. ()) cn [HsUdp (Some (sample_addr, []))] True 5 = Some (ConnRunning ev eng) \<and>
     map_option from_utf8_lossy (header_value (\<lambda>n. eq_ignore_ascii_case n ''authorization'') hs) = Some (bearer_auth_header token) \<and>
     token \<noteq> [] \<and> (ce_peer_id ev, token) \<in> set [(''alice'', ''secret-token'')]"
proof -
  obtain s cn where s: "sample_dispatch sample_server_config = Some s" "cn \<in> set (d_connections s)" "cn_params cn = sample_engine"
    "cn_tokens cn = [(''alice'', ''secret-token'')]" "cn_handshake cn = hs_init (sample_server_conn\<lparr>rc_in := [[1, 0]]\<rparr>) ''a''"
    using sample_dispatch_value [of sample_server_config] by auto
  obtain hs where "accept sample_engine hmac_ref (\<lambda>_ _. ()) [(''alice'', ''secret-token'')] [HsUdp (Some (sample_addr, []))]
      (hs_init (sample_server_conn\<lparr>rc_in := [[1, 0]]\<rparr>) ''a'') = Some (Established hs)"
    using sample_accept_any by blast
  then obtain ev eng where t: "connection_task hmac_ref (\<lambda>_ _. ()) cn [HsUdp (Some (sample_addr, []))] True 5 = Some (ConnRunning ev eng)"
    using s by (simp add: connection_task_def)
  have after: "tokens_after [(''alice'', ''secret-token'')] evs1 = [(''alice'', ''secret-token'')]"
    if "[DispBatch (Some (sample_addr, [(0, [1, 0])])), DispBatch (Some (sample_addr, [(0, [1, 7])])), DispBatch (Some (sample_addr, [(0, [100, 7])]))] =
       evs1 @ (x :: (nat \<times> u8 list, unit) dispatch_event) # evs2" for evs1 x evs2
    using that by (auto simp: tokens_after_def Cons_eq_append_conv)
  have cf: "collision_free hmac_ref () (insert t (snd ` set (cn_tokens cn)))" for t by (rule hmac_ref_collision_free)
  have dist: "distinct (map snd (cn_tokens cn))" using s(4) by simp
  from connected_peer_had_token [OF s(1) [unfolded sample_dispatch_def] s(2) t hmac_ref_ok dist cf]
  obtain evs1 x evs2 token hs where c: "[DispBatch (Some (sample_addr, [(0, [1, 0])])), DispBatch (Some (sample_addr, [(0, [1, 7])])), DispBatch (Some (sample_addr, [(0, [100, 7])]))] =
       evs1 @ (x :: (nat \<times> u8 list, unit) dispatch_event) # evs2"
     "map_option from_utf8_lossy (header_value (\<lambda>n. eq_ignore_ascii_case n ''authorization'') hs) = Some (bearer_auth_header token)"
     "token \<noteq> []" "(ce_peer_id ev, token) \<in> set (tokens_after [(''alice'', ''secret-token'')] evs1)" by blast
  with s(1,2) t after [OF c(1)] show ?thesis by metis
qed

end
