(* ===== verification/Dns.thy ===== *)
theory Dns
  imports Bind Actor "HOL-Library.AList" "HOL-Library.List_Lexorder" "HOL-Library.Char_ord"
begin

text \<open>
  The resolver of \<open>dns.rs\<close>. A hash map is the association list of its entries in iteration order; the
  iteration order of a set of hostnames is the parameter \<open>iter\<close>. Instants are times in nanoseconds. The
  crate \<open>hickory_proto\<close> appears as the decoded message: a name is what its \<open>to_ascii\<close> prints. Query
  tasks are listed in the order they were spawned and finish in any order.
\<close>

section \<open>Messages and names\<close>

datatype record_type = TypeA | TypeAAAA | TypeOther nat

datatype rdata = DataA u32 | DataAAAA u128 | DataOther nat

record dns_record =
  rec_data :: rdata
  rec_ttl :: nat

record dns_message =
  msg_id :: u16
  msg_truncated :: bool
  msg_no_error :: bool
  msg_queries :: "(string \<times> record_type) list"
  msg_answers :: "dns_record list"

fun rdata_type :: "rdata \<Rightarrow> record_type" where
  "rdata_type (DataA _) = TypeA"
| "rdata_type (DataAAAA _) = TypeAAAA"
| "rdata_type (DataOther n) = TypeOther n"

definition normalize_dns_name :: "string \<Rightarrow> string" where
  "normalize_dns_name s =
     to_ascii_lowercase (case strip_suffix s ''.'' of Some t \<Rightarrow> t | None \<Rightarrow> s)"

text \<open>The answers of the expected type; the first time to live of an address stays.\<close>

fun extract_records :: "dns_record list \<Rightarrow> record_type \<Rightarrow> (ip_addr \<times> nat) list \<Rightarrow> (ip_addr \<times> nat) list" where
  "extract_records [] expected records = records"
| "extract_records (answer # answers) expected records =
     (let found = (case rec_data answer of
            DataA a \<Rightarrow> if expected = TypeA then Some (V4 a) else None
          | DataAAAA a \<Rightarrow> if expected = TypeAAAA then Some (V6 a) else None
          | DataOther _ \<Rightarrow> None)
      in case found of
           None \<Rightarrow> extract_records answers expected records
         | Some ip \<Rightarrow> extract_records answers expected
             (if map_of records ip = None then records @ [(ip, rec_ttl answer)] else records))"

section \<open>State\<close>

type_synonym time = nat

record hostname_state =
  ips :: "(ip_addr \<times> time) list"
  next_refresh_at :: time

record dns_query =
  dq_hostname :: string
  dq_type :: record_type

record dns_actor =
  dn_tuning :: dns_tuning
  dn_hostnames :: "(string \<times> hostname_state) list"
  dn_queued :: "dns_query set"
  dn_tasks :: "dns_query list"
  dn_pending :: "dns_query set"
  dn_dirty :: bool
  dn_snapshots :: "dns_state list"
  dn_exit :: "(string, unit) result option"

definition dns_new :: "dns_tuning \<Rightarrow> dns_actor" where
  "dns_new t = \<lparr>dn_tuning = t, dn_hostnames = [], dn_queued = {}, dn_tasks = [], dn_pending = {}, dn_dirty = False,
     dn_snapshots = [], dn_exit = None\<rparr>"

section \<open>Operations\<close>

fun register_hosts :: "time \<Rightarrow> string list \<Rightarrow> dns_actor \<Rightarrow> dns_actor" where
  "register_hosts now [] s = s"
| "register_hosts now (host # hosts) s =
     register_hosts now hosts
       (if map_of (dn_hostnames s) host = None
        then s\<lparr>dn_dirty := True, dn_hostnames := dn_hostnames s @ [(host, \<lparr>ips = [], next_refresh_at = now\<rparr>)]\<rparr>
        else s)"

definition set_hostnames :: "(string set \<Rightarrow> string list) \<Rightarrow> time \<Rightarrow> string set \<Rightarrow> dns_actor \<Rightarrow> dns_actor" where
  "set_hostnames iter now hosts s =
     (let removed = filter (\<lambda>(host, _). host \<notin> hosts) (dn_hostnames s);
          s = s\<lparr>dn_hostnames := filter (\<lambda>(host, _). host \<in> hosts) (dn_hostnames s),
                dn_dirty := (dn_dirty s \<or> removed \<noteq> []),
                dn_queued := Set.filter (\<lambda>query. dq_hostname query \<in> hosts) (dn_queued s)\<rparr>
      in register_hosts now (iter hosts) s)"

definition record_ip :: "time \<Rightarrow> string \<Rightarrow> ip_addr \<Rightarrow> nat \<Rightarrow> dns_actor \<Rightarrow> dns_actor" where
  "record_ip now host ip ttl s =
     (case map_of (dn_hostnames s) host of
        None \<Rightarrow> s
      | Some entry \<Rightarrow>
          (let effective_ttl = max (secs ttl) (dns_min_ttl (dn_tuning s));
               expires_at = now + effective_ttl;
               s' = s\<lparr>dn_hostnames := AList.update host (entry\<lparr>ips := AList.update ip expires_at (ips entry)\<rparr>) (dn_hostnames s)\<rparr>
           in if map_of (ips entry) ip = None then s'\<lparr>dn_dirty := True\<rparr> else s'))"

definition expire_stale :: "time \<Rightarrow> dns_actor \<Rightarrow> dns_actor" where
  "expire_stale now s =
     s\<lparr>dn_hostnames := map (\<lambda>(host, entry). (host, entry\<lparr>ips := filter (\<lambda>(_, expires_at). now < expires_at) (ips entry)\<rparr>)) (dn_hostnames s),
       dn_dirty := (dn_dirty s \<or> list_ex (\<lambda>(_, entry). list_ex (\<lambda>(_, expires_at). expires_at \<le> now) (ips entry)) (dn_hostnames s))\<rparr>"

definition dns_view :: "dns_actor \<Rightarrow> dns_state" where
  "dns_view s = map_of (map (\<lambda>(host, entry). (host, set (map fst (ips entry)))) (dn_hostnames s))"

definition emit_snapshot :: "bool \<Rightarrow> dns_actor \<Rightarrow> dns_actor" where
  "emit_snapshot owner_alive s =
     (if \<not> dn_dirty s then s
      else (let s = s\<lparr>dn_dirty := False\<rparr>
            in if owner_alive then s\<lparr>dn_snapshots := dn_snapshots s @ [dns_view s]\<rparr> else s))"

definition refresh_due :: "time \<Rightarrow> string \<times> hostname_state \<Rightarrow> bool" where
  "refresh_due now he = (parse_ip (fst he) = None \<and> next_refresh_at (snd he) \<le> now)"

definition trigger_refresh :: "time \<Rightarrow> dns_actor \<Rightarrow> dns_actor" where
  "trigger_refresh now s =
     (let due = filter (refresh_due now) (dn_hostnames s);
          queries = concat (map (\<lambda>(host, _). [\<lparr>dq_hostname = host, dq_type = TypeA\<rparr>, \<lparr>dq_hostname = host, dq_type = TypeAAAA\<rparr>]) due)
      in s\<lparr>dn_hostnames := map (\<lambda>he. if refresh_due now he
               then (fst he, (snd he)\<lparr>next_refresh_at := now + dns_refresh_interval (dn_tuning s)\<rparr>) else he) (dn_hostnames s),
           dn_queued := dn_queued s \<union> set (filter (\<lambda>query. query \<notin> dn_pending s) queries)\<rparr>)"

fun record_literals :: "time \<Rightarrow> string list \<Rightarrow> dns_actor \<Rightarrow> dns_actor" where
  "record_literals now [] s = s"
| "record_literals now (host # hosts) s =
     record_literals now hosts
       (case parse_ip host of Some ip \<Rightarrow> record_ip now host ip (2 ^ 32 - 1) s | None \<Rightarrow> s)"

definition handle_set_hostnames :: "(string set \<Rightarrow> string list) \<Rightarrow> time \<Rightarrow> string set \<Rightarrow> dns_actor \<Rightarrow> dns_actor" where
  "handle_set_hostnames iter now new_hosts s =
     (let s = set_hostnames iter now new_hosts s;
          s = record_literals now (iter new_hosts) s;
          s = s\<lparr>dn_dirty := True\<rparr>
      in trigger_refresh now s)"

definition spawn_query :: "dns_query \<Rightarrow> dns_actor \<Rightarrow> dns_actor" where
  "spawn_query query s = s\<lparr>dn_tasks := dn_tasks s @ [query], dn_pending := insert query (dn_pending s)\<rparr>"

fun record_all :: "time \<Rightarrow> string \<Rightarrow> (ip_addr \<times> nat) list \<Rightarrow> dns_actor \<Rightarrow> dns_actor" where
  "record_all now host [] s = s"
| "record_all now host ((ip, ttl) # records) s = record_all now host records (record_ip now host ip ttl s)"

definition handle_response :: "time \<Rightarrow> dns_message \<Rightarrow> string \<Rightarrow> record_type \<Rightarrow> dns_actor \<Rightarrow> dns_actor" where
  "handle_response now message host rtype s =
     (let records = extract_records (msg_answers message) rtype [] in
      if msg_no_error message \<and> records = [] \<and> list_ex (\<lambda>r. rdata_type (rec_data r) \<noteq> rtype) (msg_answers message) then s
      else record_all now host records s)"

definition handle_query_result ::
  "time \<Rightarrow> dns_query \<Rightarrow> (string, dns_message) result \<Rightarrow> dns_actor \<Rightarrow> dns_actor" where
  "handle_query_result now query result s =
     (let s = s\<lparr>dn_pending := dn_pending s - {query}\<rparr> in
      if map_of (dn_hostnames s) (dq_hostname query) = None then s
      else case result of
             Ok message \<Rightarrow> handle_response now message (dq_hostname query) (dq_type query) s
           | Err err \<Rightarrow> s\<lparr>dn_queued := insert query (dn_queued s)\<rparr>)"

section \<open>The loop\<close>

text \<open>
  The arms of the loop: a message, a finished task with its outcome, the refresh tick, and the pacing tick
  with the query the set yields first. An arm that is not enabled leaves the state as it is.
\<close>

datatype 't dns_arm =
    DnsInbox "'t event option"
  | DnsJoined dns_query "(string, dns_message) result"
  | DnsPanicked
  | DnsRefresh
  | DnsPace dns_query

definition dns_step ::
  "(string set \<Rightarrow> string list) \<Rightarrow> bool \<Rightarrow> time \<Rightarrow> 't dns_arm \<Rightarrow> dns_actor \<Rightarrow> dns_actor" where
  "dns_step iter owner_alive now arm s =
     (if dn_exit s \<noteq> None then s else
      case arm of
        DnsInbox (Some (SetHostnames hosts)) \<Rightarrow> emit_snapshot owner_alive (handle_set_hostnames iter now hosts s)
      | DnsInbox (Some Stop) \<Rightarrow> s\<lparr>dn_exit := Some (Ok ())\<rparr>
      | DnsInbox None \<Rightarrow> s\<lparr>dn_exit := Some (Ok ())\<rparr>
      | DnsInbox (Some _) \<Rightarrow> emit_snapshot owner_alive s
      | DnsJoined query result \<Rightarrow>
          if query \<in> set (dn_tasks s)
          then emit_snapshot owner_alive (handle_query_result now query result (s\<lparr>dn_tasks := remove1 query (dn_tasks s)\<rparr>))
          else s
      | DnsPanicked \<Rightarrow> if dn_tasks s = [] then s else s\<lparr>dn_exit := Some (Err ''DNS query task panicked'')\<rparr>
      | DnsRefresh \<Rightarrow> emit_snapshot owner_alive (expire_stale now (trigger_refresh now s))
      | DnsPace query \<Rightarrow>
          if query \<in> dn_queued s
          then emit_snapshot owner_alive (spawn_query query (s\<lparr>dn_queued := dn_queued s - {query}\<rparr>))
          else s)"

section \<open>One exchange\<close>

text \<open>The question of a response matches when type and normalised name do, under the same transaction.\<close>

definition answers_query :: "u16 \<Rightarrow> dns_query \<Rightarrow> dns_message \<Rightarrow> bool" where
  "answers_query tid query response =
     (msg_id response = tid \<and>
      (case msg_queries response of
         [] \<Rightarrow> False
       | (qname, qtype) # _ \<Rightarrow> qtype = dq_type query \<and> normalize_dns_name qname = dq_hostname query))"

fun exchange_loop ::
  "(u8 list \<Rightarrow> (string, dns_message) result) \<Rightarrow> u16 \<Rightarrow> dns_query \<Rightarrow> (io_error, u8 list) result list \<Rightarrow>
     (string, dns_message) result option" where
  "exchange_loop decode tid query [] = None"
| "exchange_loop decode tid query (Err e # rs) = Some (Err (''receive DNS response: '' @ ie_text e))"
| "exchange_loop decode tid query (Ok data # rs) =
     (case decode data of
        Err e \<Rightarrow> exchange_loop decode tid query rs
      | Ok response \<Rightarrow>
          if \<not> answers_query tid query response then exchange_loop decode tid query rs
          else if msg_truncated response then exchange_loop decode tid query rs
          else Some (Ok response))"

text \<open>The calls of one exchange that may fail before the answers are awaited, in order.\<close>

record dns_sys =
  dy_socket :: "(udp_error, sock) result"
  dy_from_std :: "io_error option"
  dy_name :: "string \<Rightarrow> string option"
  dy_encode :: "string option"
  dy_send :: "io_error option"

definition exchange ::
  "dns_sys \<Rightarrow> (u8 list \<Rightarrow> (string, dns_message) result) \<Rightarrow> u16 \<Rightarrow> dns_query \<Rightarrow> (io_error, u8 list) result list \<Rightarrow>
     (string, dns_message) result option" where
  "exchange Y decode tid query replies =
     (case dy_socket Y of
        Err (UdpSocketError e) \<Rightarrow> Some (Err (''udp socket setup failed: '' @ e))
      | Ok _ \<Rightarrow>
     (case dy_from_std Y of
        Some e \<Rightarrow> Some (Err (''register DNS socket: '' @ ie_text e))
      | None \<Rightarrow>
     (case dy_name Y (dq_hostname query) of
        Some e \<Rightarrow> Some (Err e)
      | None \<Rightarrow>
     (case dy_encode Y of
        Some e \<Rightarrow> Some (Err e)
      | None \<Rightarrow>
     (case dy_send Y of
        Some e \<Rightarrow> Some (Err (''send DNS query: '' @ ie_text e))
      | None \<Rightarrow> exchange_loop decode tid query replies)))))"

text \<open>\<open>resolve\<close>: when the exchange ends, if it does before the deadline, and the time its result is reported.\<close>

definition resolve ::
  "time \<Rightarrow> duration \<Rightarrow> string \<Rightarrow> (time \<times> (string, dns_message) result) option \<Rightarrow> time \<times> (string, dns_message) result" where
  "resolve start timeout timed_out exchanged =
     (let deadline = start + timeout in
      case exchanged of
        Some (t, r) \<Rightarrow>
          if t \<le> deadline
          then (case r of Ok message \<Rightarrow> (t, Ok message) | Err e \<Rightarrow> (deadline, Err e))
          else (deadline, Err timed_out)
      | None \<Rightarrow> (deadline, Err timed_out))"

definition spawn_dns :: "(socket_addr \<Rightarrow> string) \<Rightarrow> local_dns \<Rightarrow> chan \<Rightarrow> 't bus \<Rightarrow> 't bus \<times> chan" where
  "spawn_dns show_addr cfg ctx b = actor_spawn ctx (''dns-resolver['' @ show_addr (dns_server cfg) @ '']'') Critical b"

section \<open>What the operations leave alone\<close>

definition same_queries :: "dns_actor \<Rightarrow> dns_actor \<Rightarrow> bool" where
  "same_queries s t \<longleftrightarrow> dn_queued t = dn_queued s \<and> dn_pending t = dn_pending s \<and> dn_tasks t = dn_tasks s \<and>
     map fst (dn_hostnames t) = map fst (dn_hostnames s) \<and> dn_snapshots t = dn_snapshots s \<and> dn_exit t = dn_exit s"

lemma same_queries_refl [simp]: "same_queries s s"
  by (simp add: same_queries_def)

lemma same_queries_trans: "same_queries s t \<Longrightarrow> same_queries t u \<Longrightarrow> same_queries s u"
  by (simp add: same_queries_def)

lemma map_fst_update: "map_of xs k \<noteq> None \<Longrightarrow> map fst (AList.update k v xs) = map fst xs"
  by (induction xs) auto

lemma record_ip_same: "same_queries s (record_ip now host ip ttl s)"
  by (auto simp: record_ip_def same_queries_def map_fst_update Let_def split: option.split)

lemma record_literals_same: "same_queries s (record_literals now hosts s)"
  by (induction hosts arbitrary: s) (auto intro: same_queries_trans [OF record_ip_same] split: option.split)

lemma record_all_same: "same_queries s (record_all now host rs s)"
  by (induction now host rs s rule: record_all.induct) (auto intro: same_queries_trans [OF record_ip_same])

lemma handle_response_same: "same_queries s (handle_response now m host rt s)"
  by (simp add: handle_response_def record_all_same Let_def)

lemma expire_stale_same: "same_queries s (expire_stale now s)"
  by (auto simp: expire_stale_def same_queries_def)

section \<open>The bookkeeping of queries\<close>

definition dns_inv :: "dns_actor \<Rightarrow> bool" where
  "dns_inv s \<longleftrightarrow> distinct (map fst (dn_hostnames s)) \<and> dn_queued s \<inter> dn_pending s = {} \<and> distinct (dn_tasks s) \<and>
     set (dn_tasks s) = dn_pending s \<and> dq_hostname ` dn_queued s \<subseteq> set (map fst (dn_hostnames s))"

lemma dns_inv_same: "dns_inv s \<Longrightarrow> same_queries s t \<Longrightarrow> dns_inv t"
  by (simp add: dns_inv_def same_queries_def del: set_map)

lemma map_of_None: "map_of xs k = None \<longleftrightarrow> k \<notin> set (map fst xs)"
  by (simp add: map_of_eq_None_iff)

lemma register_hosts_keys:
  "set (map fst (dn_hostnames (register_hosts now hosts s))) = set (map fst (dn_hostnames s)) \<union> set hosts \<and>
   (distinct (map fst (dn_hostnames s)) \<longrightarrow> distinct (map fst (dn_hostnames (register_hosts now hosts s)))) \<and>
   dn_queued (register_hosts now hosts s) = dn_queued s \<and> dn_pending (register_hosts now hosts s) = dn_pending s \<and>
   dn_tasks (register_hosts now hosts s) = dn_tasks s \<and> dn_snapshots (register_hosts now hosts s) = dn_snapshots s \<and>
   dn_exit (register_hosts now hosts s) = dn_exit s"
proof (induction hosts arbitrary: s)
  case (Cons h hosts)
  let ?s = "if map_of (dn_hostnames s) h = None
    then s\<lparr>dn_dirty := True, dn_hostnames := dn_hostnames s @ [(h, \<lparr>ips = [], next_refresh_at = now\<rparr>)]\<rparr> else s"
  have "set (map fst (dn_hostnames ?s)) = insert h (set (map fst (dn_hostnames s)))"
      "distinct (map fst (dn_hostnames s)) \<longrightarrow> distinct (map fst (dn_hostnames ?s))"
    unfolding map_of_None by auto
  with Cons [of ?s] show ?case by auto
qed simp

lemma set_hostnames_inv:
  assumes "dns_inv s" "set (iter hosts) = hosts"
  shows "dns_inv (set_hostnames iter now hosts s) \<and> set (map fst (dn_hostnames (set_hostnames iter now hosts s))) = hosts"
proof -
  let ?s = "s\<lparr>dn_hostnames := filter (\<lambda>(host, _). host \<in> hosts) (dn_hostnames s),
    dn_dirty := (dn_dirty s \<or> filter (\<lambda>(host, _). host \<notin> hosts) (dn_hostnames s) \<noteq> []),
    dn_queued := Set.filter (\<lambda>query. dq_hostname query \<in> hosts) (dn_queued s)\<rparr>"
  have eq: "set_hostnames iter now hosts s = register_hosts now (iter hosts) ?s"
    by (simp add: set_hostnames_def Let_def)
  have "distinct (map fst (dn_hostnames ?s))" using assms(1) by (auto simp: dns_inv_def intro: distinct_map_filter)
  moreover have "set (map fst (dn_hostnames ?s)) \<subseteq> hosts" by auto
  ultimately show ?thesis
    using register_hosts_keys [of now "iter hosts" ?s] assms unfolding eq dns_inv_def by auto
qed

lemma trigger_refresh_keeps:
  "map fst (dn_hostnames (trigger_refresh now s)) = map fst (dn_hostnames s)"
  "dn_pending (trigger_refresh now s) = dn_pending s" "dn_tasks (trigger_refresh now s) = dn_tasks s"
  "dn_dirty (trigger_refresh now s) = dn_dirty s" "dns_view (trigger_refresh now s) = dns_view s"
  "dn_snapshots (trigger_refresh now s) = dn_snapshots s" "dn_exit (trigger_refresh now s) = dn_exit s"
  by (auto simp: trigger_refresh_def dns_view_def Let_def comp_def case_prod_beta intro!: arg_cong [where f = map_of])

lemma trigger_refresh_queued:
  assumes "q \<in> dn_queued (trigger_refresh now s)"
  shows "q \<in> dn_queued s \<or> q \<notin> dn_pending s \<and> dq_hostname q \<in> set (map fst (dn_hostnames s))"
proof -
  have "q \<in> dn_queued s \<or> q \<notin> dn_pending s \<and>
      (\<exists>he\<in>set (dn_hostnames s). q \<in> {\<lparr>dq_hostname = fst he, dq_type = TypeA\<rparr>, \<lparr>dq_hostname = fst he, dq_type = TypeAAAA\<rparr>})"
    using assms by (simp add: trigger_refresh_def Let_def case_prod_beta) (elim disjE conjE exE; force)
  then show ?thesis by (elim disjE conjE bexE) force+
qed

lemma trigger_refresh_inv:
  assumes "dns_inv s"
  shows "dns_inv (trigger_refresh now s)"
  using assms trigger_refresh_queued unfolding dns_inv_def trigger_refresh_keeps by blast

lemma emit_snapshot_inv: "dns_inv s \<Longrightarrow> dns_inv (emit_snapshot alive s)"
  by (simp add: dns_inv_def emit_snapshot_def Let_def)

lemma handle_set_hostnames_inv:
  assumes "dns_inv s" "set (iter hosts) = hosts"
  shows "dns_inv (handle_set_hostnames iter now hosts s)"
proof -
  have "dns_inv (record_literals now (iter hosts) (set_hostnames iter now hosts s))"
    using set_hostnames_inv [where iter = iter, OF assms] record_literals_same dns_inv_same by blast
  then have "dns_inv ((record_literals now (iter hosts) (set_hostnames iter now hosts s))\<lparr>dn_dirty := True\<rparr>)"
    by (simp add: dns_inv_def)
  then show ?thesis by (simp add: handle_set_hostnames_def Let_def trigger_refresh_inv)
qed

lemma handle_query_result_inv:
  assumes "dns_inv s" "query \<in> set (dn_tasks s)"
  shows "dns_inv (handle_query_result now query result (s\<lparr>dn_tasks := remove1 query (dn_tasks s)\<rparr>))"
proof -
  let ?s = "s\<lparr>dn_tasks := remove1 query (dn_tasks s), dn_pending := dn_pending s - {query}\<rparr>"
  have s: "dns_inv ?s" using assms by (auto simp: dns_inv_def)
  show ?thesis
  proof (cases "map_of (dn_hostnames s) (dq_hostname query)")
    case None
    with s show ?thesis by (simp add: handle_query_result_def Let_def)
  next
    case (Some e)
    then have key: "dq_hostname query \<in> set (map fst (dn_hostnames s))" by (metis map_of_None option.distinct(1))
    show ?thesis
    proof (cases result)
      case (Inl err)
      with s Some key assms show ?thesis by (auto simp: handle_query_result_def Let_def dns_inv_def)
    next
      case (Inr m)
      with Some s handle_response_same show ?thesis by (auto simp: handle_query_result_def Let_def intro: dns_inv_same)
    qed
  qed
qed

lemma dns_step_inv:
  assumes "dns_inv s" "\<forall>hosts. arm = DnsInbox (Some (SetHostnames hosts)) \<longrightarrow> set (iter hosts) = hosts"
  shows "dns_inv (dns_step iter alive now arm s)"
proof (cases "dn_exit s = None")
  case True
  have exit: "dns_inv (s\<lparr>dn_exit := x\<rparr>)" for x using assms(1) by (simp add: dns_inv_def)
  show ?thesis
  proof (cases arm)
    case (DnsInbox x)
    show ?thesis
    proof (cases x)
      case (Some m)
      show ?thesis
      proof (cases "\<exists>hosts. m = SetHostnames hosts")
        case True
        then obtain hosts where hosts: "m = SetHostnames hosts" ..
        with Some DnsInbox assms(2) have "set (iter hosts) = hosts" by simp
        from handle_set_hostnames_inv [where iter = iter, OF assms(1) this] hosts Some DnsInbox \<open>dn_exit s = None\<close>
        show ?thesis by (simp add: dns_step_def emit_snapshot_inv)
      qed (use Some DnsInbox True assms(1) exit in \<open>cases m; simp add: dns_step_def emit_snapshot_inv\<close>)
    qed (use DnsInbox True exit in \<open>simp add: dns_step_def\<close>)
  next
    case (DnsJoined query result)
    with True assms show ?thesis by (simp add: dns_step_def emit_snapshot_inv handle_query_result_inv)
  next
    case DnsRefresh
    have "dns_inv (expire_stale now (trigger_refresh now s))"
      by (rule dns_inv_same [OF trigger_refresh_inv [OF assms(1)] expire_stale_same])
    with DnsRefresh True show ?thesis by (simp add: dns_step_def emit_snapshot_inv)
  next
    case (DnsPace query)
    have "dns_inv (spawn_query query (s\<lparr>dn_queued := dn_queued s - {query}\<rparr>))" if "query \<in> dn_queued s"
      using assms(1) that by (auto simp: dns_inv_def spawn_query_def)
    with DnsPace True assms(1) show ?thesis by (simp add: dns_step_def emit_snapshot_inv)
  next
    case DnsPanicked
    with True assms(1) exit show ?thesis by (simp add: dns_step_def)
  qed
qed (use assms(1) in \<open>simp add: dns_step_def\<close>)

section \<open>Snapshots\<close>

lemma map_of_map_values: "map_of (map (\<lambda>(k, v). (k, f v)) xs) k = map_option f (map_of xs k)"
  by (induction xs) auto

lemma dns_view_eq: "dns_view s h = map_option (\<lambda>e. fst ` set (ips e)) (map_of (dn_hostnames s) h)"
  by (simp add: dns_view_def map_of_map_values)

text \<open>An operation that changes what a snapshot shows marks the state dirty.\<close>

definition tracked :: "dns_actor \<Rightarrow> dns_actor \<Rightarrow> bool" where
  "tracked s t \<longleftrightarrow> dn_snapshots t = dn_snapshots s \<and> (dn_dirty t \<or> dns_view t = dns_view s) \<and> (dn_dirty s \<longrightarrow> dn_dirty t)"

lemma tracked_refl [simp]: "tracked s s"
  by (simp add: tracked_def)

lemma tracked_trans: "tracked s t \<Longrightarrow> tracked t u \<Longrightarrow> tracked s u"
  by (auto simp: tracked_def)

lemma fst_update: "fst ` set (AList.update k v xs) = insert k (fst ` set xs)"
  by (induction xs) auto

lemma record_ip_tracked: "tracked s (record_ip now host ip ttl s)"
proof (cases "map_of (dn_hostnames s) host")
  case (Some entry)
  show ?thesis
  proof (cases "map_of (ips entry) ip")
    case (Some t)
    then have "ip \<in> fst ` set (ips entry)" by (metis map_of_eq_None_iff option.distinct(1))
    then have "fst ` set (AList.update ip x (ips entry)) = fst ` set (ips entry)" for x
      by (auto simp: fst_update)
    then have "dns_view (record_ip now host ip ttl s) = dns_view s"
      using Some \<open>map_of (dn_hostnames s) host = Some entry\<close>
      by (auto simp: fun_eq_iff dns_view_eq record_ip_def Let_def update_conv')
    then show ?thesis using Some \<open>map_of (dn_hostnames s) host = Some entry\<close>
      by (simp add: tracked_def record_ip_def Let_def)
  qed (simp add: tracked_def record_ip_def Let_def Some)
qed (simp add: tracked_def record_ip_def)

lemma record_all_tracked: "tracked s (record_all now host rs s)"
  by (induction now host rs s rule: record_all.induct) (auto intro: tracked_trans [OF record_ip_tracked])

lemma handle_query_result_tracked: "tracked s (handle_query_result now query result (s\<lparr>dn_tasks := ts\<rparr>))"
proof -
  let ?s = "s\<lparr>dn_tasks := ts, dn_pending := dn_pending s - {query}\<rparr>"
  have "tracked s ?s" by (simp add: tracked_def dns_view_def)
  moreover have "tracked ?s (?s\<lparr>dn_queued := x\<rparr>)" for x by (simp add: tracked_def dns_view_def)
  then have "tracked ?s (handle_query_result now query result (s\<lparr>dn_tasks := ts\<rparr>))"
    using record_all_tracked [of ?s]
    by (simp add: handle_query_result_def handle_response_def Let_def split: sum.split)
  ultimately show ?thesis by (rule tracked_trans)
qed

lemma expire_stale_tracked: "tracked s (expire_stale now s)"
proof -
  have "dn_hostnames (expire_stale now s) = dn_hostnames s" if "\<not> dn_dirty (expire_stale now s)"
  proof -
    have "\<forall>he\<in>set (dn_hostnames s). filter (\<lambda>(_, expires_at). now < expires_at) (ips (snd he)) = ips (snd he)"
      using that by (fastforce simp: expire_stale_def list_ex_iff filter_id_conv)
    then show ?thesis by (auto simp: expire_stale_def intro!: map_idI)
  qed
  then have "dn_dirty (expire_stale now s) \<or> dns_view (expire_stale now s) = dns_view s"
    unfolding dns_view_def by metis
  then show ?thesis by (simp add: tracked_def) (simp add: expire_stale_def)
qed

definition snapshot_current :: "dns_actor \<Rightarrow> bool" where
  "snapshot_current s \<longleftrightarrow> \<not> dn_dirty s \<and>
     dns_view s = (if dn_snapshots s = [] then Map.empty else last (dn_snapshots s))"

lemma emit_snapshot_current:
  assumes "snapshot_current s" "tracked s t"
  shows "snapshot_current (emit_snapshot True t)"
  using assms by (auto simp: snapshot_current_def tracked_def emit_snapshot_def dns_view_def Let_def)

lemma handle_set_hostnames_tracked:
  "tracked s (handle_set_hostnames iter now hosts s)"
proof -
  let ?t = "record_literals now (iter hosts) (set_hostnames iter now hosts s)"
  have "dn_snapshots ?t = dn_snapshots s"
    using record_literals_same [of "set_hostnames iter now hosts s" now "iter hosts"] register_hosts_keys
    by (simp add: same_queries_def set_hostnames_def Let_def)
  then show ?thesis by (simp add: tracked_def handle_set_hostnames_def Let_def trigger_refresh_keeps)
qed

lemma dns_step_current:
  assumes "snapshot_current s"
  shows "snapshot_current (dns_step iter True now arm s)"
proof (cases "dn_exit s = None")
  case True
  have exit: "snapshot_current (s\<lparr>dn_exit := x\<rparr>)" for x using assms by (simp add: snapshot_current_def dns_view_def)
  note emit = emit_snapshot_current [OF assms]
  show ?thesis
  proof (cases arm)
    case (DnsInbox x)
    show ?thesis
    proof (cases x)
      case (Some m)
      with DnsInbox True exit emit [OF tracked_refl] emit [OF handle_set_hostnames_tracked] show ?thesis
        by (cases m) (simp_all add: dns_step_def)
    qed (use DnsInbox True exit in \<open>simp add: dns_step_def\<close>)
  next
    case (DnsJoined query result)
    with True assms emit [OF handle_query_result_tracked] show ?thesis by (simp add: dns_step_def)
  next
    case DnsRefresh
    have "tracked s (trigger_refresh now s)" by (simp add: tracked_def trigger_refresh_keeps)
    from emit [OF tracked_trans [OF this expire_stale_tracked]] DnsRefresh True show ?thesis by (simp add: dns_step_def)
  next
    case (DnsPace query)
    have "tracked s (spawn_query query (s\<lparr>dn_queued := dn_queued s - {query}\<rparr>))" by (simp add: tracked_def spawn_query_def dns_view_def)
    from emit [OF this] DnsPace True assms show ?thesis by (simp add: dns_step_def)
  next
    case DnsPanicked
    with True assms exit show ?thesis by (simp add: dns_step_def)
  qed
qed (use assms in \<open>simp add: dns_step_def\<close>)

section \<open>Runs\<close>

definition dns_run ::
  "(string set \<Rightarrow> string list) \<Rightarrow> (bool \<times> time \<times> 't dns_arm) list \<Rightarrow> dns_actor \<Rightarrow> dns_actor" where
  "dns_run iter arms s = fold (\<lambda>(alive, now, arm). dns_step iter alive now arm) arms s"

definition arm_ok :: "(string set \<Rightarrow> string list) \<Rightarrow> 't dns_arm \<Rightarrow> bool" where
  "arm_ok iter arm \<longleftrightarrow> (\<forall>hosts. arm = DnsInbox (Some (SetHostnames hosts)) \<longrightarrow> set (iter hosts) = hosts)"

inductive dns_trans :: "(string set \<Rightarrow> string list) \<Rightarrow> 't itself \<Rightarrow> bool \<Rightarrow> dns_actor \<Rightarrow> dns_actor \<Rightarrow> bool" for iter ty owner where
  dns: "arm_ok iter arm \<Longrightarrow> (owner \<longrightarrow> alive) \<Longrightarrow> dns_trans iter ty owner s (dns_step iter alive now (arm :: 't dns_arm) s)"

definition dns_start :: "dns_actor \<Rightarrow> bool" where
  "dns_start s \<longleftrightarrow> (\<exists>t. s = dns_new t)"

interpretation dns_queries: inductive_invariant dns_start "dns_trans iter ty owner" dns_inv for iter ty owner
proof
  show "dns_start s \<Longrightarrow> dns_inv s" for s by (auto simp: dns_start_def dns_new_def dns_inv_def)
  show "dns_inv s \<Longrightarrow> dns_trans iter ty owner s t \<Longrightarrow> dns_inv t" for s t
    by (auto elim!: dns_trans.cases intro!: dns_step_inv simp: arm_ok_def)
qed

interpretation dns_owner: inductive_invariant dns_start "dns_trans iter ty True" snapshot_current for iter ty
proof
  show "dns_start s \<Longrightarrow> snapshot_current s" for s
    by (auto simp: dns_start_def dns_new_def snapshot_current_def dns_view_def)
  show "snapshot_current s \<Longrightarrow> dns_trans iter ty True s t \<Longrightarrow> snapshot_current t" for s t
    by (auto elim!: dns_trans.cases intro: dns_step_current)
qed

lemma dns_run_steps:
  fixes arms :: "(bool \<times> time \<times> 't dns_arm) list"
  assumes "\<forall>(alive, now, arm)\<in>set arms. arm_ok iter arm \<and> (owner \<longrightarrow> alive)"
  shows "(dns_trans iter TYPE('t) owner)\<^sup>*\<^sup>* s (dns_run iter arms s)"
  using assms
proof (induction arms arbitrary: s)
  case (Cons a arms)
  obtain alive now arm where a: "a = (alive, now, arm)" by (cases a)
  with Cons.prems have "dns_trans iter TYPE('t) owner s (dns_step iter alive now arm s)"
    by (intro dns_trans.dns) auto
  then have "(dns_trans iter TYPE('t) owner)\<^sup>*\<^sup>* s (dns_run iter arms (dns_step iter alive now arm s))"
    using Cons by (auto intro: converse_rtranclp_into_rtranclp)
  then show ?case by (simp add: dns_run_def a)
qed (simp add: dns_run_def)

lemma to_ascii_lowercase_idem: "to_ascii_lowercase (to_ascii_lowercase s) = to_ascii_lowercase s"
  by (auto simp: to_ascii_lowercase_def byte_of_def)

section \<open>Properties\<close>

text \<open>C38: The bookkeeping of queries holds in every state. No query is both waiting and in flight; each query in flight
  has exactly one task; only registered hostnames have queries waiting; and no hostname is registered twice.\<close>

theorem dns_bookkeeping:
  assumes "\<forall>(alive, now, arm)\<in>set arms. arm_ok iter arm"
  shows "dn_queued (dns_run iter arms (dns_new t)) \<inter> dn_pending (dns_run iter arms (dns_new t)) = {} \<and>
    distinct (dn_tasks (dns_run iter arms (dns_new t))) \<and>
    set (dn_tasks (dns_run iter arms (dns_new t))) = dn_pending (dns_run iter arms (dns_new t)) \<and>
    dq_hostname ` dn_queued (dns_run iter arms (dns_new t)) \<subseteq> fst ` set (dn_hostnames (dns_run iter arms (dns_new t))) \<and>
    distinct (map fst (dn_hostnames (dns_run iter arms (dns_new t))))"
proof -
  have "dns_inv (dns_run iter arms (dns_new t))"
  proof (rule dns_queries.steps_inv [OF dns_run_steps])
    show "\<forall>(alive, now, arm)\<in>set arms. arm_ok iter arm \<and> (False \<longrightarrow> alive)" using assms by auto
    show "dns_inv (dns_new t)" by (rule dns_queries.inv_init) (auto simp: dns_start_def)
  qed
  then show ?thesis by (auto simp: dns_inv_def)
qed

text \<open>C39: The orchestrator always knows the current addresses. As long as it takes the snapshots, after every step the
  last one it received shows exactly the registered hostnames with their unexpired addresses; before the
  first one there is nothing to show.\<close>

theorem dns_snapshot_is_current:
  assumes "\<forall>(alive, now, arm)\<in>set arms. arm_ok iter arm \<and> alive"
  shows "dns_view (dns_run iter arms (dns_new t)) =
    (if dn_snapshots (dns_run iter arms (dns_new t)) = [] then Map.empty else last (dn_snapshots (dns_run iter arms (dns_new t))))"
proof -
  have "snapshot_current (dns_run iter arms (dns_new t))"
  proof (rule dns_owner.steps_inv [OF dns_run_steps])
    show "\<forall>(alive, now, arm)\<in>set arms. arm_ok iter arm \<and> (True \<longrightarrow> alive)" using assms by auto
    show "snapshot_current (dns_new t)" by (rule dns_owner.inv_init) (auto simp: dns_start_def)
  qed
  then show ?thesis by (simp add: snapshot_current_def)
qed

text \<open>C40: A hostname with an upper-case letter is never resolved. The name of a response is folded to lower case before
  it is compared with the hostname as configured, so no response is accepted for such a hostname, and the
  exchange ends only in an error or not at all.\<close>

theorem mixed_case_never_resolves:
  assumes "to_ascii_lowercase (dq_hostname query) \<noteq> dq_hostname query"
  shows "exchange Y decode tid query replies \<noteq> Some (Ok m)"
proof -
  have "\<not> answers_query tid query response" for response
    using assms to_ascii_lowercase_idem
    by (auto simp: answers_query_def normalize_dns_name_def split: list.splits) metis
  then have "exchange_loop decode tid query replies \<noteq> Some (Ok m)"
    by (induction decode tid query replies rule: exchange_loop.induct) (auto split: sum.splits)
  then show ?thesis by (auto simp: exchange_def split: sum.splits option.splits udp_error.splits)
qed

definition sample_queries :: "dns_query list" where
  "sample_queries = [\<lparr>dq_hostname = ''peer.example'', dq_type = TypeA\<rparr>, \<lparr>dq_hostname = ''peer.example'', dq_type = TypeAAAA\<rparr>]"

definition sample_answer :: dns_message where
  "sample_answer = \<lparr>msg_id = 7, msg_truncated = False, msg_no_error = True, msg_queries = [(''peer.example.'', TypeA)],
     msg_answers = [\<lparr>rec_data = DataA 0x01020304, rec_ttl = 60\<rparr>]\<rparr>"

definition sample_arms :: "(bool \<times> time \<times> unit dns_arm) list" where
  "sample_arms =
     [(True, 0, DnsInbox (Some (SetHostnames {''peer.example''}))),
      (True, 1, DnsPace (sample_queries ! 0)),
      (True, 2, DnsJoined (sample_queries ! 0) (Ok sample_answer)),
      (True, 3, DnsPace (sample_queries ! 1))]"

definition sample_iter :: "string set \<Rightarrow> string list" where
  "sample_iter hosts = (if hosts = {''peer.example''} then [''peer.example''] else [])"

definition sample_dns :: dns_actor where
  "sample_dns = dns_run sample_iter sample_arms (dns_new dns_tuning_default)"

lemma sample_arms_ok: "\<forall>(alive, now, arm)\<in>set sample_arms. arm_ok sample_iter arm \<and> alive"
  by (simp add: sample_arms_def arm_ok_def sample_iter_def)

theorem dns_bookkeeping_witness:
  "dn_queued sample_dns \<inter> dn_pending sample_dns = {} \<and> set (dn_tasks sample_dns) = dn_pending sample_dns"
  using dns_bookkeeping [of sample_arms sample_iter dns_tuning_default] sample_arms_ok by (simp add: sample_dns_def case_prod_beta)

theorem dns_snapshot_is_current_witness:
  "dns_view sample_dns = (if dn_snapshots sample_dns = [] then Map.empty else last (dn_snapshots sample_dns))"
  using dns_snapshot_is_current [of sample_arms sample_iter dns_tuning_default] sample_arms_ok by (simp add: sample_dns_def)

definition sample_dns_sys :: dns_sys where
  "sample_dns_sys = \<lparr>dy_socket = Ok [], dy_from_std = None, dy_name = (\<lambda>_. None), dy_encode = None, dy_send = None\<rparr>"

theorem mixed_case_never_resolves_witness:
  "exchange sample_dns_sys (\<lambda>_. Ok sample_answer) 7 \<lparr>dq_hostname = ''Peer.example'', dq_type = TypeA\<rparr> [Ok []] \<noteq> Some (Ok sample_answer)"
proof (rule mixed_case_never_resolves)
  show "to_ascii_lowercase (dq_hostname \<lparr>dq_hostname = ''Peer.example'', dq_type = TypeA\<rparr>) \<noteq>
      dq_hostname \<lparr>dq_hostname = ''Peer.example'', dq_type = TypeA\<rparr>"
    by (simp add: to_ascii_lowercase_def byte_of_def char_of_def)
qed

end
