(* ===== verification/Route.thy ===== *)
theory Route
  imports Bind Events
begin

text \<open>
  The synchronisation of the system routes with the tunnel (\<open>route.rs\<close>). The crate \<open>route_manager\<close> is
  the record \<open>route_lib\<close> over the routing state \<open>'k\<close> of the kernel: listing, adding and deleting a
  route, each of which may fail. A hash set of prefixes is the list of its elements without
  duplicates; the order in which it is iterated is the parameter \<open>iter\<close>.
\<close>

unbundle bit_operations_syntax

section \<open>The crate \<open>route_manager\<close>\<close>

record 'k route_lib =
  route_new :: "ip_addr \<Rightarrow> nat \<Rightarrow> sys_route"
  rh_list :: "'k \<Rightarrow> (io_error, sys_route list) result"
  rh_add :: "sys_route \<Rightarrow> 'k \<Rightarrow> io_error option \<times> 'k"
  rh_delete :: "sys_route \<Rightarrow> 'k \<Rightarrow> io_error option \<times> 'k"

definition route_key :: "sys_route \<Rightarrow> ip_addr \<times> nat \<times> nat option" where
  "route_key r = (sr_destination r, sr_prefix r, sr_if_index r)"

text \<open>
  A failing call changes nothing. A successful \<open>delete\<close> removes the route it is given; a successful
  \<open>add\<close> makes a route with the destination, prefix and interface it is given appear in the listing,
  where the kernel chooses the attributes that were left open.
\<close>

definition route_lib_ok :: "'k route_lib \<Rightarrow> bool" where
  "route_lib_ok H \<longleftrightarrow>
     (\<forall>a l. route_key (route_new H a l) = (a, l, None)) \<and>
     (\<forall>r k rs. rh_list H k = Ok rs \<longrightarrow>
        (case rh_add H r k of
           (Some _, k') \<Rightarrow> rh_list H k' = Ok rs
         | (None, k') \<Rightarrow> \<exists>r' rs'. rh_list H k' = Ok rs' \<and> route_key r' = route_key r \<and> set rs' = insert r' (set rs))) \<and>
     (\<forall>r k rs. rh_list H k = Ok rs \<longrightarrow>
        (case rh_delete H r k of
           (Some _, k') \<Rightarrow> rh_list H k' = Ok rs
         | (None, k') \<Rightarrow> \<exists>rs'. rh_list H k' = Ok rs' \<and> set rs' = set rs - {r}))"

definition route_calls_succeed :: "'k route_lib \<Rightarrow> bool" where
  "route_calls_succeed H \<longleftrightarrow> (\<forall>r k. fst (rh_add H r k) = None \<and> fst (rh_delete H r k) = None)"

section \<open>Errors and helpers\<close>

datatype route_sync_error = InterfaceLookup string string | ListFailed string

definition resolve_ifindex :: "(string \<Rightarrow> nat option) \<Rightarrow> string \<Rightarrow> (route_sync_error, nat) result" where
  "resolve_ifindex lookup nm =
     (case lookup nm of Some i \<Rightarrow> Ok i | None \<Rightarrow> Err (InterfaceLookup nm ''interface not found''))"

definition split_default_prefix :: "ipnet_lib \<Rightarrow> ipnet \<Rightarrow> (ipnet \<times> ipnet) option" where
  "split_default_prefix L net =
     (if net_prefix_len net \<noteq> 0 then None
      else case subnets L net 1 of
             Some (a # b # _) \<Rightarrow> Some (a, b)
           | _ \<Rightarrow> None)"

fun expand_allowed_prefixes :: "ipnet_lib \<Rightarrow> ipnet list \<Rightarrow> ipnet list" where
  "expand_allowed_prefixes L [] = []"
| "expand_allowed_prefixes L (net # nets) =
     (let here = (if net_prefix_len net = 0
                  then (case split_default_prefix L net of Some (a, b) \<Rightarrow> [a, b] | None \<Rightarrow> [net])
                  else [net])
      in remdups (here @ expand_allowed_prefixes L nets))"

text \<open>\<open>is_unicast_link_local\<close> and \<open>is_multicast\<close> of the standard library look at the first segment.\<close>

fun is_ipv6_kernel_route :: "ipnet_lib \<Rightarrow> ipnet \<Rightarrow> bool" where
  "is_ipv6_kernel_route L (NetV4 a l) = False"
| "is_ipv6_kernel_route L (NetV6 a l) =
     (case network L (NetV6 a l) of
        V6 addr \<Rightarrow> (drop_bit 112 addr) AND 0xffc0 = 0xfe80 \<or> (drop_bit 112 addr) AND 0xff00 = 0xff00
      | V4 _ \<Rightarrow> False)"

definition ipnet_from_route :: "ipnet_lib \<Rightarrow> sys_route \<Rightarrow> ipnet option" where
  "ipnet_from_route L r = net_new L (sr_destination r) (sr_prefix r)"

section \<open>Synchronisation\<close>

definition desired_routes :: "ipnet_lib \<Rightarrow> ipnet list \<Rightarrow> ipnet list \<Rightarrow> ipnet list" where
  "desired_routes L addrs allowed =
     (let tun_prefixes = map (trunc L) addrs
      in filter (\<lambda>net. \<not> list_ex (\<lambda>prefix. contains_net L prefix net) tun_prefixes) (expand_allowed_prefixes L allowed))"

definition kernel_routes_of :: "ipnet_lib \<Rightarrow> ipnet \<Rightarrow> ipnet list" where
  "kernel_routes_of L addr =
     [trunc L addr, from_addr L (net_addr addr)] @
     (case trunc L addr of
        NetV4 a l \<Rightarrow>
          if l \<le> 30 then [from_addr L (network L (NetV4 a l)), from_addr L (broadcast L (NetV4 a l))] else []
      | NetV6 _ _ \<Rightarrow> [])"

definition tun_v4_kernel_routes :: "ipnet_lib \<Rightarrow> ipnet list \<Rightarrow> ipnet list" where
  "tun_v4_kernel_routes L addrs = from_addr L (V4 0xffffffff) # concat (map (kernel_routes_of L) addrs)"

text \<open>The loop over the listing: it collects the desired prefixes that exist and deletes the stale ones.\<close>

fun sync_scan ::
  "ipnet_lib \<Rightarrow> 'k route_lib \<Rightarrow> nat \<Rightarrow> ipnet list \<Rightarrow> ipnet list \<Rightarrow> sys_route list \<Rightarrow> ipnet set \<Rightarrow> 'k \<Rightarrow> ipnet set \<times> 'k" where
  "sync_scan L H tun_ifindex desired managed [] existing k = (existing, k)"
| "sync_scan L H tun_ifindex desired managed (route # routes) existing k =
     (case ipnet_from_route L route of
        None \<Rightarrow> sync_scan L H tun_ifindex desired managed routes existing k
      | Some net \<Rightarrow>
          if sr_if_index route = Some tun_ifindex
          then if net \<in> set desired then sync_scan L H tun_ifindex desired managed routes (insert net existing) k
               else if net \<in> set managed \<or> is_ipv6_kernel_route L net
               then sync_scan L H tun_ifindex desired managed routes existing k
               else sync_scan L H tun_ifindex desired managed routes existing (snd (rh_delete H route k))
          else sync_scan L H tun_ifindex desired managed routes existing k)"

definition tun_route :: "'k route_lib \<Rightarrow> nat \<Rightarrow> ipnet \<Rightarrow> sys_route" where
  "tun_route H tun_ifindex net = (route_new H (net_addr net) (net_prefix_len net))\<lparr>sr_if_index := Some tun_ifindex\<rparr>"

fun sync_add :: "'k route_lib \<Rightarrow> nat \<Rightarrow> ipnet set \<Rightarrow> ipnet list \<Rightarrow> 'k \<Rightarrow> 'k" where
  "sync_add H tun_ifindex existing [] k = k"
| "sync_add H tun_ifindex existing (net # nets) k =
     (if net \<in> existing then sync_add H tun_ifindex existing nets k
      else sync_add H tun_ifindex existing nets (snd (rh_add H (tun_route H tun_ifindex net) k)))"

definition sync_tun_routes ::
  "ipnet_lib \<Rightarrow> (ipnet list \<Rightarrow> ipnet list) \<Rightarrow> 'k route_lib \<Rightarrow> (string \<Rightarrow> (route_sync_error, nat) result) \<Rightarrow> string \<Rightarrow>
     ipnet list \<Rightarrow> ipnet list \<Rightarrow> 'k \<Rightarrow> (route_sync_error, unit) result \<times> 'k" where
  "sync_tun_routes L iter H resolve tun_if addrs allowed k =
     (case resolve tun_if of
        Err e \<Rightarrow> (Err e, k)
      | Ok tun_ifindex \<Rightarrow>
          (case rh_list H k of
             Err e \<Rightarrow> (Err (ListFailed (ie_text e)), k)
           | Ok routes \<Rightarrow>
               (let desired = desired_routes L addrs allowed;
                    managed = tun_v4_kernel_routes L addrs;
                    (existing, k') = sync_scan L H tun_ifindex desired managed routes {} k
                in (Ok (), sync_add H tun_ifindex existing (iter desired) k'))))"

text \<open>The loop of the actor over its mailbox; the flag tells whether it stopped or still waits.\<close>

fun route_actor ::
  "ipnet_lib \<Rightarrow> (ipnet list \<Rightarrow> ipnet list) \<Rightarrow> 'k route_lib \<Rightarrow> (string \<Rightarrow> nat option) \<Rightarrow> string \<Rightarrow>
     't event list \<Rightarrow> 'k \<Rightarrow> 'k \<times> bool" where
  "route_actor L iter H lookup tun_if [] k = (k, False)"
| "route_actor L iter H lookup tun_if (message # mailbox) k =
     (case message of
        SyncRoutes addrs allowed \<Rightarrow>
          route_actor L iter H lookup tun_if mailbox
            (snd (sync_tun_routes L iter H (resolve_ifindex lookup) tun_if addrs allowed k))
      | Stop \<Rightarrow> (k, True)
      | _ \<Rightarrow> route_actor L iter H lookup tun_if mailbox k)"

section \<open>Expansion of the allowed prefixes\<close>

lemma covers_trans:
  assumes "covers p (net_addr n)" "net_prefix_len p \<le> net_prefix_len n" "covers n a" "net_wf n"
  shows "covers p a"
proof -
  have w: "ip_width (net_addr p) = ip_width (net_addr n)"
    using assms(1) by (intro ip_width_cong) (simp add: covers_def)
  then obtain d where d: "host_bits p = host_bits n + d"
    using assms(2) by (metis diff_le_mono2 host_bits_def le_iff_add)
  have eq: "x div 2 ^ host_bits p = x div 2 ^ host_bits n div 2 ^ d" for x :: nat
    by (simp add: d power_add div_mult2_eq)
  have "ip_bits (net_addr n) div 2 ^ host_bits p = ip_bits a div 2 ^ host_bits p"
    using assms(3) unfolding eq by (simp add: covers_def)
  with assms(1,3) show ?thesis by (simp add: covers_def)
qed

lemma net_wf_truncated: "net_wf n \<Longrightarrow> net_wf (net_truncated n)"
  by (cases n) (simp_all add: net_wf_def net_truncated_def)

lemma unat_bound: "unat w < 2 ^ LENGTH('a)" for w :: "'a::len word"
  by (rule unsigned_less)

lemma halves_wf: "n \<in> set (halves m) \<Longrightarrow> net_wf n"
  by (cases m) (auto simp: net_wf_def)

lemma halves_cover: "is_ipv4 (net_addr m) = is_ipv4 a \<Longrightarrow> \<exists>n\<in>set (halves m). covers n a"
proof (cases a)
  case (V4 w)
  moreover assume "is_ipv4 (net_addr m) = is_ipv4 a"
  ultimately obtain x l where m: "m = NetV4 x l" by (cases m) auto
  have "unat w div 2 ^ 31 < 2" using unat_bound [of w] by (simp add: less_mult_imp_div_less)
  then have "unat w div 2 ^ 31 = 0 \<or> unat w div 2 ^ 31 = 1" by linarith
  then show ?thesis using V4 by (auto simp: m covers_def host_bits_def)
next
  case (V6 w)
  moreover assume "is_ipv4 (net_addr m) = is_ipv4 a"
  ultimately obtain x l where m: "m = NetV6 x l" by (cases m) auto
  have "unat w div 2 ^ 127 < 2" using unat_bound [of w] by (simp add: less_mult_imp_div_less)
  then have "unat w div 2 ^ 127 = 0 \<or> unat w div 2 ^ 127 = 1" by linarith
  then show ?thesis using V6 by (auto simp: m covers_def host_bits_def)
qed

lemma split_default_prefix_ok:
  assumes "ipnet_ok L" "net_prefix_len n = 0"
  obtains a b where "split_default_prefix L n = Some (a, b)" "halves n = [a, b]"
proof -
  obtain a b where h: "halves n = [a, b]" by (cases n) simp_all
  then have "split_default_prefix L n = Some (a, b)"
    using assms by (simp add: split_default_prefix_def ipnet_ok_def)
  with h that show thesis by blast
qed

lemma set_expand_allowed:
  assumes "ipnet_ok L"
  shows "set (expand_allowed_prefixes L allowed) =
    (\<Union>n\<in>set allowed. if net_prefix_len n = 0 then set (halves n) else {n})"
proof (induction allowed)
  case (Cons n allowed)
  show ?case
  proof (cases "net_prefix_len n = 0")
    case True
    from split_default_prefix_ok [OF assms True] obtain a b where
      "split_default_prefix L n = Some (a, b)" "halves n = [a, b]" .
    then have "set (expand_allowed_prefixes L (n # allowed)) = set (halves n) \<union> set (expand_allowed_prefixes L allowed)"
      by (simp only: expand_allowed_prefixes.simps Let_def set_remdups set_append True) simp
    with Cons True show ?thesis by simp
  next
    case False
    then have "set (expand_allowed_prefixes L (n # allowed)) = {n} \<union> set (expand_allowed_prefixes L allowed)"
      by (simp only: expand_allowed_prefixes.simps Let_def set_remdups set_append) simp
    with Cons False show ?thesis by simp
  qed
qed simp

lemma desired_routes_wf:
  assumes "ipnet_ok L" "\<forall>n\<in>set allowed. net_wf n" "n \<in> set (desired_routes L addrs allowed)"
  shows "net_wf n"
  using assms(2,3) halves_wf
  by (auto simp: desired_routes_def set_expand_allowed [OF assms(1)] Let_def split: if_splits)

lemma covers_default:
  assumes "net_prefix_len n = 0" "is_ipv4 (net_addr n) = is_ipv4 a"
  shows "covers n a"
proof -
  have "host_bits n = ip_width a" using assms ip_width_cong [OF assms(2)] by (simp add: host_bits_def)
  moreover have "ip_bits x < 2 ^ ip_width x" for x :: ip_addr
    by (cases x) (use unat_bound [where 'a = 32] unat_bound [where 'a = 128] in simp_all)
  ultimately show ?thesis
    using assms(2) ip_width_cong [OF assms(2)] by (metis covers_def div_less)
qed

lemma expand_covers:
  assumes "ipnet_ok L" "n \<in> set allowed" "covers n a" "net_wf n"
  shows "\<exists>m\<in>set (expand_allowed_prefixes L allowed). covers m a \<and> net_wf m"
proof (cases "net_prefix_len n = 0")
  case True
  have "is_ipv4 (net_addr n) = is_ipv4 a" using assms(3) by (simp add: covers_def)
  from halves_cover [OF this] obtain h where h: "h \<in> set (halves n)" "covers h a" by blast
  then have "h \<in> set (expand_allowed_prefixes L allowed)"
    using True assms(2) by (auto simp: set_expand_allowed [OF assms(1)])
  with h halves_wf show ?thesis by blast
next
  case False
  then have "n \<in> set (expand_allowed_prefixes L allowed)"
    using assms(2) by (auto simp: set_expand_allowed [OF assms(1)])
  with assms(3,4) show ?thesis by blast
qed

section \<open>The loops as folds\<close>

definition on_tun :: "ipnet_lib \<Rightarrow> nat \<Rightarrow> sys_route list \<Rightarrow> ipnet set" where
  "on_tun L idx rs = {net. \<exists>r\<in>set rs. sr_if_index r = Some idx \<and> ipnet_from_route L r = Some net}"

definition protected_net :: "ipnet_lib \<Rightarrow> ipnet list \<Rightarrow> ipnet \<Rightarrow> bool" where
  "protected_net L addrs net \<longleftrightarrow> net \<in> set (tun_v4_kernel_routes L addrs) \<or> is_ipv6_kernel_route L net"

definition stale :: "ipnet_lib \<Rightarrow> nat \<Rightarrow> ipnet list \<Rightarrow> ipnet list \<Rightarrow> sys_route \<Rightarrow> bool" where
  "stale L idx desired managed r \<longleftrightarrow> sr_if_index r = Some idx \<and>
     (case ipnet_from_route L r of
        None \<Rightarrow> False
      | Some net \<Rightarrow> net \<notin> set desired \<and> net \<notin> set managed \<and> \<not> is_ipv6_kernel_route L net)"

lemma sync_scan_eq:
  "sync_scan L H idx desired managed rs existing k =
     (existing \<union> (set desired \<inter> on_tun L idx rs),
      fold (\<lambda>r k. snd (rh_delete H r k)) (filter (stale L idx desired managed) rs) k)"
  by (induction rs arbitrary: existing k) (auto simp: on_tun_def stale_def split: option.split)

lemma sync_add_eq:
  "sync_add H idx existing nets k =
     fold (\<lambda>net k. snd (rh_add H (tun_route H idx net) k)) (filter (\<lambda>net. net \<notin> existing) nets) k"
  by (induction nets arbitrary: k) simp_all

lemma deletes_listed:
  assumes "route_lib_ok H" "rh_list H k = Ok rs"
  shows "\<exists>rs'. rh_list H (fold (\<lambda>r k. snd (rh_delete H r k)) ds k) = Ok rs' \<and>
    set rs - set ds \<subseteq> set rs' \<and> set rs' \<subseteq> set rs \<and> (route_calls_succeed H \<longrightarrow> set rs' = set rs - set ds)"
  using assms(2)
proof (induction ds arbitrary: k rs)
  case (Cons d ds)
  obtain e k1 where d: "rh_delete H d k = (e, k1)" by (cases "rh_delete H d k")
  have "case rh_delete H d k of (Some _, k') \<Rightarrow> rh_list H k' = Ok rs
      | (None, k') \<Rightarrow> \<exists>rs'. rh_list H k' = Ok rs' \<and> set rs' = set rs - {d}"
    using assms(1) Cons.prems by (simp add: route_lib_ok_def)
  then obtain rs1 where rs1: "rh_list H k1 = Ok rs1" "set rs1 = set rs \<or> set rs1 = set rs - {d}"
    "e = None \<longrightarrow> set rs1 = set rs - {d}"
    unfolding d by (cases e) auto
  have e: "route_calls_succeed H \<longrightarrow> e = None" using d by (metis fst_conv route_calls_succeed_def)
  from Cons.IH [OF rs1(1)] obtain rs' where
    "rh_list H (fold (\<lambda>r k. snd (rh_delete H r k)) ds k1) = Ok rs'" "set rs1 - set ds \<subseteq> set rs'"
    "set rs' \<subseteq> set rs1" "route_calls_succeed H \<longrightarrow> set rs' = set rs1 - set ds" by blast
  with rs1 e show ?case by (intro exI [of _ rs']) (auto simp: d)
qed auto

lemma adds_listed:
  assumes "route_lib_ok H" "rh_list H k = Ok rs"
  shows "\<exists>rs'. rh_list H (fold (\<lambda>n k. snd (rh_add H (f n) k)) ns k) = Ok rs' \<and> set rs \<subseteq> set rs' \<and>
    (\<forall>r'\<in>set rs' - set rs. \<exists>n\<in>set ns. route_key r' = route_key (f n)) \<and>
    (route_calls_succeed H \<longrightarrow> (\<forall>n\<in>set ns. \<exists>r'\<in>set rs'. route_key r' = route_key (f n)))"
  using assms(2)
proof (induction ns arbitrary: k rs)
  case (Cons n ns)
  obtain e k1 where d: "rh_add H (f n) k = (e, k1)" by (cases "rh_add H (f n) k")
  have "case rh_add H (f n) k of (Some _, k') \<Rightarrow> rh_list H k' = Ok rs
      | (None, k') \<Rightarrow> \<exists>r' rs'. rh_list H k' = Ok rs' \<and> route_key r' = route_key (f n) \<and> set rs' = insert r' (set rs)"
    using assms(1) Cons.prems by (simp add: route_lib_ok_def)
  then obtain rs1 where rs1: "rh_list H k1 = Ok rs1" "set rs \<subseteq> set rs1"
    "\<forall>r'\<in>set rs1 - set rs. route_key r' = route_key (f n)"
    "e = None \<longrightarrow> (\<exists>r1\<in>set rs1. route_key r1 = route_key (f n))"
    unfolding d by (cases e) force+
  have e: "route_calls_succeed H \<longrightarrow> e = None" using d by (metis fst_conv route_calls_succeed_def)
  from Cons.IH [OF rs1(1)] obtain rs' where
    "rh_list H (fold (\<lambda>n k. snd (rh_add H (f n) k)) ns k1) = Ok rs'" "set rs1 \<subseteq> set rs'"
    "\<forall>r'\<in>set rs' - set rs1. \<exists>n\<in>set ns. route_key r' = route_key (f n)"
    "route_calls_succeed H \<longrightarrow> (\<forall>n\<in>set ns. \<exists>r'\<in>set rs'. route_key r' = route_key (f n))" by blast
  with rs1 e show ?case by (intro exI [of _ rs']) (auto simp: d)
qed auto

lemma sync_tun_routes_eq:
  assumes "resolve tun_if = Ok idx" "rh_list H k = Ok rs" "desired = desired_routes L addrs allowed"
  shows "sync_tun_routes L iter H resolve tun_if addrs allowed k =
    (Ok (), fold (\<lambda>net k. snd (rh_add H (tun_route H idx net) k)) (filter (\<lambda>net. net \<notin> set desired \<inter> on_tun L idx rs) (iter desired))
       (fold (\<lambda>r k. snd (rh_delete H r k)) (filter (stale L idx desired (tun_v4_kernel_routes L addrs)) rs) k))"
  using assms by (simp add: sync_tun_routes_def sync_scan_eq sync_add_eq Let_def)

lemma tun_route_key:
  "route_lib_ok H \<Longrightarrow> route_key (tun_route H idx net) = (net_addr net, net_prefix_len net, Some idx)"
  by (auto simp: route_lib_ok_def tun_route_def route_key_def)

lemma route_key_net:
  assumes "ipnet_ok L" "route_key r = (net_addr net, net_prefix_len net, Some idx)" "net_wf net"
  shows "sr_if_index r = Some idx" "ipnet_from_route L r = Some net"
proof -
  have "mk_net (net_addr net) (net_prefix_len net) = net" by (cases net) simp_all
  with assms show "sr_if_index r = Some idx" "ipnet_from_route L r = Some net"
    by (simp_all add: route_key_def ipnet_from_route_def ipnet_ok_def net_wf_def)
qed

text \<open>
  One synchronisation, whichever of its calls fail: it deletes only stale routes of the tunnel and adds
  only desired ones; when all calls succeed it deletes and adds all of them.
\<close>

lemma sync_listed:
  assumes "ipnet_ok L" "route_lib_ok H" "\<forall>xs. set (iter xs) = set xs" "\<forall>n\<in>set allowed. net_wf n"
    and "resolve tun_if = Ok idx" "rh_list H k = Ok rs"
  shows "\<exists>rs'. rh_list H (snd (sync_tun_routes L iter H resolve tun_if addrs allowed k)) = Ok rs' \<and>
    (\<forall>r\<in>set rs. stale L idx (desired_routes L addrs allowed) (tun_v4_kernel_routes L addrs) r \<or> r \<in> set rs') \<and>
    (\<forall>r\<in>set rs' - set rs. sr_if_index r = Some idx \<and>
       (\<exists>n\<in>set (desired_routes L addrs allowed). ipnet_from_route L r = Some n)) \<and>
    (route_calls_succeed H \<longrightarrow>
       (\<forall>r\<in>set rs'. \<not> stale L idx (desired_routes L addrs allowed) (tun_v4_kernel_routes L addrs) r) \<and>
       set (desired_routes L addrs allowed) \<subseteq> on_tun L idx rs')"
proof -
  let ?D = "desired_routes L addrs allowed"
  let ?stale = "stale L idx ?D (tun_v4_kernel_routes L addrs)"
  let ?new = "filter (\<lambda>net. net \<notin> set ?D \<inter> on_tun L idx rs) (iter ?D)"
  let ?k1 = "fold (\<lambda>r k. snd (rh_delete H r k)) (filter ?stale rs) k"
  have new: "set ?new = set ?D - on_tun L idx rs" using assms(3) by auto
  note wf = desired_routes_wf [OF assms(1,4)]
  from deletes_listed [OF assms(2,6), of "filter ?stale rs"] obtain rs1 where
    rs1: "rh_list H ?k1 = Ok rs1" "set rs - set (filter ?stale rs) \<subseteq> set rs1" "set rs1 \<subseteq> set rs"
      "route_calls_succeed H \<longrightarrow> set rs1 = set rs - set (filter ?stale rs)" by blast
  from adds_listed [OF assms(2) rs1(1), of "tun_route H idx" ?new] obtain rs' where
    rs': "rh_list H (fold (\<lambda>net k. snd (rh_add H (tun_route H idx net) k)) ?new ?k1) = Ok rs'"
      "set rs1 \<subseteq> set rs'"
      "\<forall>r'\<in>set rs' - set rs1. \<exists>n\<in>set ?new. route_key r' = route_key (tun_route H idx n)"
      "route_calls_succeed H \<longrightarrow> (\<forall>n\<in>set ?new. \<exists>r'\<in>set rs'. route_key r' = route_key (tun_route H idx n))" by blast
  have added: "sr_if_index r = Some idx \<and> (\<exists>n\<in>set ?D. ipnet_from_route L r = Some n)" if "r \<in> set rs' - set rs1" for r
  proof -
    from rs'(3) that obtain n where n: "n \<in> set ?new" "route_key r = route_key (tun_route H idx n)" by blast
    then have "n \<in> set ?D" unfolding new by simp
    with n route_key_net [OF assms(1) _ wf [OF this], of r idx] tun_route_key [OF assms(2)] show ?thesis by auto
  qed
  have listed: "set ?D \<subseteq> on_tun L idx rs'" if ok: "route_calls_succeed H"
  proof
    fix n assume n: "n \<in> set ?D"
    show "n \<in> on_tun L idx rs'"
    proof (cases "n \<in> on_tun L idx rs")
      case True
      then obtain r where r: "r \<in> set rs" "sr_if_index r = Some idx" "ipnet_from_route L r = Some n"
        by (auto simp: on_tun_def)
      with n have "\<not> ?stale r" by (simp add: stale_def)
      with r rs1(2) rs'(2) show ?thesis by (auto simp: on_tun_def)
    next
      case False
      with n new rs'(4) ok obtain r' where "r' \<in> set rs'" "route_key r' = route_key (tun_route H idx n)" by blast
      with route_key_net [OF assms(1) _ wf [OF n], of r' idx] tun_route_key [OF assms(2)] show ?thesis
        by (auto simp: on_tun_def)
    qed
  qed
  have "\<forall>r\<in>set rs'. \<not> ?stale r" if "route_calls_succeed H"
    using added rs1(4) that by (fastforce simp: stale_def)
  moreover have "\<forall>r\<in>set rs' - set rs. sr_if_index r = Some idx \<and> (\<exists>n\<in>set ?D. ipnet_from_route L r = Some n)"
    using added rs1(3) by blast
  moreover have "\<forall>r\<in>set rs. ?stale r \<or> r \<in> set rs'" using rs1(2) rs'(2) by auto
  ultimately show ?thesis using listed rs'(1) sync_tun_routes_eq [where resolve = resolve and tun_if = tun_if and idx = idx and desired = ?D, OF assms(5,6) refl]
    by (intro exI [of _ rs']) simp
qed

section \<open>Properties\<close>

text \<open>C29: Route synchronisation converges and touches nothing else. When the route calls succeed, the routes of
  the tunnel afterwards are exactly the desired prefixes and those routes the operating system manages itself.
  The routes of all other interfaces stay as they were. A second synchronisation makes no change.\<close>

theorem route_sync_converges:
  assumes "ipnet_ok L" "route_lib_ok H" "route_calls_succeed H" "\<forall>xs. set (iter xs) = set xs"
    and "\<forall>n\<in>set allowed. net_wf n" "resolve tun_if = Ok idx" "rh_list H k = Ok rs"
  shows "\<exists>k' rs'. sync_tun_routes L iter H resolve tun_if addrs allowed k = (Ok (), k') \<and> rh_list H k' = Ok rs' \<and>
    on_tun L idx rs' = set (desired_routes L addrs allowed) \<union> {n \<in> on_tun L idx rs. protected_net L addrs n} \<and>
    {r \<in> set rs'. sr_if_index r \<noteq> Some idx} = {r \<in> set rs. sr_if_index r \<noteq> Some idx} \<and>
    sync_tun_routes L iter H resolve tun_if addrs allowed k' = (Ok (), k')"
proof -
  let ?D = "desired_routes L addrs allowed"
  let ?stale = "stale L idx ?D (tun_v4_kernel_routes L addrs)"
  define k' where "k' = snd (sync_tun_routes L iter H resolve tun_if addrs allowed k)"
  from sync_listed [OF assms(1,2,4,5) _ assms(7), where resolve = resolve and tun_if = tun_if and idx = idx and addrs = addrs] assms(3,6)
  obtain rs' where rs': "rh_list H k' = Ok rs'" "\<forall>r\<in>set rs. ?stale r \<or> r \<in> set rs'"
    "\<forall>r\<in>set rs' - set rs. sr_if_index r = Some idx \<and> (\<exists>n\<in>set ?D. ipnet_from_route L r = Some n)"
    "\<forall>r\<in>set rs'. \<not> ?stale r" "set ?D \<subseteq> on_tun L idx rs'" unfolding k'_def by blast
  have "n \<in> set ?D \<or> n \<in> on_tun L idx rs \<and> protected_net L addrs n" if "n \<in> on_tun L idx rs'" for n
    using that rs'(3,4) by (fastforce simp: on_tun_def stale_def protected_net_def)
  moreover have "n \<in> on_tun L idx rs'" if "n \<in> on_tun L idx rs" "protected_net L addrs n" for n
    using that rs'(2) by (fastforce simp: on_tun_def stale_def protected_net_def)
  ultimately have tun: "on_tun L idx rs' = set ?D \<union> {n \<in> on_tun L idx rs. protected_net L addrs n}"
    using rs'(5) by blast
  have others: "{r \<in> set rs'. sr_if_index r \<noteq> Some idx} = {r \<in> set rs. sr_if_index r \<noteq> Some idx}"
    using rs'(2,3) by (auto simp: stale_def)
  have "filter ?stale rs' = []" "filter (\<lambda>n. n \<notin> set ?D \<inter> on_tun L idx rs') (iter ?D) = []"
    using rs'(4,5) assms(4) by (auto simp: filter_empty_conv)
  then have "sync_tun_routes L iter H resolve tun_if addrs allowed k' = (Ok (), k')"
    unfolding sync_tun_routes_eq [where resolve = resolve and tun_if = tun_if and idx = idx and desired = ?D, OF assms(6) rs'(1) refl] by simp
  moreover have "sync_tun_routes L iter H resolve tun_if addrs allowed k = (Ok (), k')"
    unfolding k'_def sync_tun_routes_eq [where resolve = resolve and tun_if = tun_if and idx = idx and desired = ?D, OF assms(6,7) refl] by simp
  ultimately show ?thesis using rs'(1) tun others by blast
qed

text \<open>C30: The desired routes carry the allowed traffic and nothing more. An address of an allowed prefix is covered
  by a desired route or by the prefix of a tunnel address, also when the allowed prefix is a default route,
  which is installed as two halves. No desired route covers an address that no allowed prefix covers, and
  none is a default route.\<close>

theorem desired_routes_cover_allowed:
  assumes "ipnet_ok L" "\<forall>n\<in>set allowed \<union> set addrs. net_wf n"
  shows "((\<exists>n\<in>set allowed. covers n a) \<longrightarrow>
      (\<exists>n\<in>set (desired_routes L addrs allowed). covers n a) \<or> (\<exists>p\<in>set addrs. covers (trunc L p) a)) \<and>
    (\<forall>n\<in>set (desired_routes L addrs allowed). covers n a \<longrightarrow> (\<exists>m\<in>set allowed. covers m a)) \<and>
    (\<forall>n\<in>set (desired_routes L addrs allowed). net_prefix_len n \<noteq> 0)"
proof (intro conjI impI ballI)
  assume "\<exists>n\<in>set allowed. covers n a"
  then obtain m where m: "m \<in> set (expand_allowed_prefixes L allowed)" "covers m a" "net_wf m"
    using expand_covers [OF assms(1)] assms(2) by (metis UnI1)
  show "(\<exists>n\<in>set (desired_routes L addrs allowed). covers n a) \<or> (\<exists>p\<in>set addrs. covers (trunc L p) a)"
  proof (cases "\<exists>p\<in>set addrs. contains_net L (trunc L p) m")
    case True
    then obtain p where p: "p \<in> set addrs" "contains_net L (trunc L p) m" by blast
    then have "covers (trunc L p) (net_addr m)" "net_prefix_len (trunc L p) \<le> net_prefix_len m"
      using assms m(3) net_wf_truncated [of p] by (simp_all add: ipnet_ok_def)
    from covers_trans [OF this m(2,3)] p(1) show ?thesis by blast
  next
    case False
    then have "m \<in> set (desired_routes L addrs allowed)"
      using m(1) by (auto simp: desired_routes_def list_ex_iff)
    with m(2) show ?thesis by blast
  qed
next
  fix n assume n: "n \<in> set (desired_routes L addrs allowed)" "covers n a"
  then obtain m where m: "m \<in> set allowed" "n \<in> (if net_prefix_len m = 0 then set (halves m) else {m})"
    by (auto simp: desired_routes_def set_expand_allowed [OF assms(1)])
  have "is_ipv4 (net_addr m) = is_ipv4 (net_addr n)" if "n \<in> set (halves m)"
    using that by (cases m) auto
  moreover have "is_ipv4 (net_addr n) = is_ipv4 a" using n(2) by (simp add: covers_def)
  ultimately have "covers m a" using m(2) n(2) covers_default [of m a] by (auto split: if_splits)
  with m(1) show "\<exists>m\<in>set allowed. covers m a" by blast
next
  fix n assume "n \<in> set (desired_routes L addrs allowed)"
  then have "\<exists>m. n \<in> (if net_prefix_len m = 0 then set (halves m) else {m})"
    unfolding desired_routes_def Let_def set_filter set_expand_allowed [OF assms(1)] by blast
  then obtain m where "n \<in> (if net_prefix_len m = 0 then set (halves m) else {m})" ..
  then show "net_prefix_len n \<noteq> 0" by (cases m) (auto split: if_splits)
qed

definition route_ref :: "sys_route list route_lib" where
  "route_ref = \<lparr>
     route_new = (\<lambda>a l. \<lparr>sr_destination = a, sr_prefix = l, sr_if_index = None, sr_metric = None, sr_table = RT_TABLE_MAIN\<rparr>),
     rh_list = Ok,
     rh_add = (\<lambda>r k. (None, r # k)),
     rh_delete = (\<lambda>r k. (None, removeAll r k))\<rparr>"

lemma route_ref_ok: "route_lib_ok route_ref" "route_calls_succeed route_ref"
  by (auto simp: route_lib_ok_def route_calls_succeed_def route_ref_def route_key_def)

definition sample_tun_addr :: ipnet where "sample_tun_addr = NetV4 0x0a000001 24"

definition sample_sys_table :: "sys_route list" where
  "sample_sys_table =
     [\<lparr>sr_destination = V4 0x0a000000, sr_prefix = 24, sr_if_index = Some 7, sr_metric = None, sr_table = 254\<rparr>,
      \<lparr>sr_destination = V4 0xc0a80000, sr_prefix = 16, sr_if_index = Some 7, sr_metric = None, sr_table = 254\<rparr>,
      \<lparr>sr_destination = V4 0, sr_prefix = 0, sr_if_index = Some 2, sr_metric = Some 100, sr_table = 254\<rparr>]"

lemma sample_desired: "desired_routes ipnet_ref [sample_tun_addr] [NetV4 0 0] = [NetV4 0 1, NetV4 (2 ^ 31) 1]"
  by (simp add: desired_routes_def ipnet_ref_def split_default_prefix_def sample_tun_addr_def net_truncated_def
      covers_def host_bits_def)

theorem route_sync_converges_witness:
  "\<exists>k' rs'. sync_tun_routes ipnet_ref id route_ref (\<lambda>_. Ok 7) ''h3llo0'' [sample_tun_addr] [NetV4 0 0] sample_sys_table = (Ok (), k') \<and>
     rh_list route_ref k' = Ok rs' \<and> {NetV4 0 1, NetV4 (2 ^ 31) 1} \<subseteq> on_tun ipnet_ref 7 rs' \<and>
     sync_tun_routes ipnet_ref id route_ref (\<lambda>_. Ok 7) ''h3llo0'' [sample_tun_addr] [NetV4 0 0] k' = (Ok (), k')"
proof -
  have listing: "rh_list route_ref sample_sys_table = Ok sample_sys_table" by (simp add: route_ref_def)
  have iter: "\<forall>xs. set (id xs) = set xs" and wf: "\<forall>n\<in>set [NetV4 0 0]. net_wf n" by (simp_all add: net_wf_def)
  show ?thesis
    using route_sync_converges [OF ipnet_ref_ok route_ref_ok iter wf, where resolve = "\<lambda>_. Ok 7" and idx = 7
        and tun_if = "''h3llo0''" and addrs = "[sample_tun_addr]", OF refl listing]
    unfolding sample_desired by (elim exE conjE) (intro exI conjI, assumption+, simp, assumption)
qed

theorem desired_routes_cover_allowed_witness:
  "\<exists>n\<in>set (desired_routes ipnet_ref [sample_tun_addr] [NetV4 0 0]). covers n (V4 0x08080808)"
proof -
  have wf: "\<forall>n\<in>set [NetV4 0 0] \<union> set [sample_tun_addr]. net_wf n"
    by (simp add: net_wf_def sample_tun_addr_def)
  have "\<exists>n\<in>set [NetV4 0 0]. covers n (V4 0x08080808)" by (simp add: covers_def host_bits_def)
  moreover have "\<not> (\<exists>p\<in>set [sample_tun_addr]. covers (trunc ipnet_ref p) (V4 0x08080808))"
    by (simp add: ipnet_ref_def sample_tun_addr_def net_truncated_def covers_def host_bits_def)
  ultimately show ?thesis using desired_routes_cover_allowed [OF ipnet_ref_ok wf, of "V4 0x08080808"] by blast
qed

end
