(* ===== verification/Tun.thy ===== *)
theory Tun
  imports Udp Actor "HOL-Library.Sublist"
begin

text \<open>
  The TUN side of \<open>tun.rs\<close>: the packet buffer handed to the device, the construction of the device, and
  the read and write loops. The crate \<open>tun_rs\<close> and the kernel are the outcomes of the device calls; its
  constants \<open>VIRTIO_NET_HDR_LEN\<close> and \<open>IDEAL_BATCH_SIZE\<close> are the parameters \<open>hdr_len\<close> and \<open>ideal\<close>. The first
  is at most \<open>HEADROOM\<close>, which the source asserts at compile time. The growing of a pooled buffer
  beyond its visible length is the parameter \<open>grow\<close>.
\<close>

section \<open>TunBuf\<close>

definition tunbuf_alloc_uninit :: "'b buf_lib \<Rightarrow> nat \<Rightarrow> nat \<Rightarrow> 'b" where
  "tunbuf_alloc_uninit B max_datagram mtu = alloc_uninit_packet_buf B max_datagram mtu"

definition into_pooled :: "'b buf_lib \<Rightarrow> nat \<Rightarrow> 'b \<Rightarrow> 'b" where
  "into_pooled B len b = buf_truncate B len b"

definition buf_extend :: "'b buf_lib \<Rightarrow> nat \<Rightarrow> nat \<Rightarrow> 'b \<Rightarrow> 'b" where
  "buf_extend B max_datagram additional b =
     (let current_len = length (buf_bytes B b) in
      if current_len \<le> max_datagram \<and> current_len + additional > max_datagram
      then buf_copy B (buf_bytes B b) (buf_truncate B current_len (alloc_uninit_packet_buf B max_datagram max_datagram))
      else b)"

definition prepend_hdr :: "'b buf_lib \<Rightarrow> nat \<Rightarrow> nat \<Rightarrow> 'b \<Rightarrow> 'b" where
  "prepend_hdr B max_datagram hdr_len b =
     (let zeroed = replicate hdr_len 0 in
      case buf_add_prefix B zeroed b of
        Some b' \<Rightarrow> b'
      | None \<Rightarrow>
          (let buf = alloc_packet_buf B max_datagram (buf_bytes B b)
           in case buf_add_prefix B zeroed buf of Some b' \<Rightarrow> b' | None \<Rightarrow> buf))"

definition buf_resize :: "'b buf_lib \<Rightarrow> ('b \<Rightarrow> u8 list \<Rightarrow> 'b) \<Rightarrow> nat \<Rightarrow> nat \<Rightarrow> u8 \<Rightarrow> 'b \<Rightarrow> 'b" where
  "buf_resize B grow max_datagram new_len val b =
     (let current = length (buf_bytes B b) in
      if new_len \<le> current then buf_truncate B new_len b
      else grow (buf_extend B max_datagram (new_len - current) b) (replicate (new_len - current) val))"

definition buf_extend_from_slice :: "'b buf_lib \<Rightarrow> ('b \<Rightarrow> u8 list \<Rightarrow> 'b) \<Rightarrow> nat \<Rightarrow> u8 list \<Rightarrow> 'b \<Rightarrow> 'b" where
  "buf_extend_from_slice B grow max_datagram src b = grow (buf_extend B max_datagram (length src) b) src"

section \<open>The device\<close>

definition split_addrs_by_version :: "ipnet list \<Rightarrow> ipnet list \<times> ipnet list" where
  "split_addrs_by_version addrs =
     (filter (\<lambda>n. is_ipv4 (net_addr n)) addrs, filter (\<lambda>n. \<not> is_ipv4 (net_addr n)) addrs)"

record device_builder =
  db_name :: string
  db_mtu :: u16
  db_offload :: bool
  db_tx_queue_len :: "nat option"
  db_ipv4 :: "(ip_addr \<times> nat) option"
  db_ipv6 :: "(ip_addr \<times> nat) list"

record tun_reader =
  trd_mtu :: nat
  trd_name :: string
  trd_offload :: bool

record tun_writer =
  twr_mtu :: nat
  twr_name :: string
  twr_offload :: bool

datatype tun_error = DeviceBuild string

text \<open>The calls on the device: building it, adding an address, and reading its name and MTU back.\<close>

record 'd device_lib =
  dev_build :: "device_builder \<Rightarrow> (string, 'd) result"
  dev_add_v4 :: "ip_addr \<Rightarrow> nat \<Rightarrow> 'd \<Rightarrow> (string, 'd) result"
  dev_name :: "'d \<Rightarrow> string option"
  dev_mtu :: "'d \<Rightarrow> nat option"

fun add_addresses :: "'d device_lib \<Rightarrow> ipnet list \<Rightarrow> 'd \<Rightarrow> (tun_error, 'd) result" where
  "add_addresses D [] d = Ok d"
| "add_addresses D (net # nets) d =
     (case dev_add_v4 D (net_addr net) (net_prefix_len net) d of
        Err e \<Rightarrow> Err (DeviceBuild e)
      | Ok d' \<Rightarrow> add_addresses D nets d')"

definition make_tun ::
  "'d device_lib \<Rightarrow> local_tun \<Rightarrow> nat option \<Rightarrow> bool \<Rightarrow> (tun_error, 'd \<times> tun_reader \<times> tun_writer) result" where
  "make_tun D cfg tx_queue_len enable_offload =
     (let (v4_addrs, v6_addrs) = split_addrs_by_version (tun_addrs cfg);
          builder = \<lparr>db_name = tun_ifname cfg, db_mtu = tun_mtu cfg, db_offload = enable_offload, db_tx_queue_len = tx_queue_len,
            db_ipv4 = (case v4_addrs of [] \<Rightarrow> None | first_v4 # _ \<Rightarrow> Some (net_addr first_v4, net_prefix_len first_v4)),
            db_ipv6 = map (\<lambda>net. (net_addr net, net_prefix_len net)) v6_addrs\<rparr>
      in case dev_build D builder of
           Err e \<Rightarrow> Err (DeviceBuild e)
         | Ok device \<Rightarrow>
             (case add_addresses D (drop 1 v4_addrs) device of
                Err e \<Rightarrow> Err e
              | Ok device \<Rightarrow>
                  (let nm = (case dev_name D device of Some n \<Rightarrow> n | None \<Rightarrow> tun_ifname cfg);
                       mtu = (case dev_mtu D device of Some m \<Rightarrow> m | None \<Rightarrow> unat (tun_mtu cfg))
                   in Ok (device, \<lparr>trd_mtu = mtu, trd_name = nm, trd_offload = enable_offload\<rparr>,
                          \<lparr>twr_mtu = mtu, twr_name = nm, twr_offload = enable_offload\<rparr>))))"

section \<open>Reading\<close>

definition reader_batch_size :: "nat \<Rightarrow> tun_reader \<Rightarrow> nat" where
  "reader_batch_size ideal t = (if trd_offload t then ideal else 1)"

definition reader_scratch_buf_size :: "nat \<Rightarrow> tun_reader \<Rightarrow> nat" where
  "reader_scratch_buf_size hdr_len t = (if trd_offload t then hdr_len + 65535 else trd_mtu t)"

text \<open>
  One read of the device. A plain read leaves the new contents of the first buffer and a length. A
  multiple read leaves the contents and lengths of all buffers and the number of packets.
\<close>

datatype tun_read =
    ReadOne "(io_error, u8 list \<times> nat) result"
  | ReadMany "(io_error, u8 list list \<times> nat list \<times> nat) result"

definition recv_batch ::
  "'b buf_lib \<Rightarrow> tun_read \<Rightarrow> 'b list \<Rightarrow> nat list \<Rightarrow> (io_error, nat) result \<times> 'b list \<times> nat list" where
  "recv_batch B read bufs sizes =
     (case read of
        ReadMany (Err e) \<Rightarrow> (Err e, bufs, sizes)
      | ReadMany (Ok (contents, lens, n)) \<Rightarrow> (Ok n, map2 (buf_copy B) contents bufs, lens)
      | ReadOne (Err e) \<Rightarrow> (Err e, bufs, sizes)
      | ReadOne (Ok (contents, len)) \<Rightarrow> (Ok 1, bufs[0 := buf_copy B contents (bufs ! 0)], sizes[0 := len]))"

datatype tun_rx_event = TunRead tun_read | TunRxStop | TunRxTick bool

record 'b tun_rx_state =
  tx_bufs :: "'b list"
  tx_sizes :: "nat list"
  tx_counters :: counters
  tx_out :: "'b list outbox"
  tx_emitted :: "metrics list"
  tx_exit :: "io_exit option"

definition tun_rx_init :: "'b buf_lib \<Rightarrow> nat \<Rightarrow> nat \<Rightarrow> tun_reader \<Rightarrow> 'b tun_rx_state" where
  "tun_rx_init B max_datagram ideal t =
     \<lparr>tx_bufs = replicate (reader_batch_size ideal t) (tunbuf_alloc_uninit B max_datagram (trd_mtu t)),
      tx_sizes = replicate (reader_batch_size ideal t) 0, tx_counters = counters_new Tun Rx,
      tx_out = \<lparr>sends = 0, delivered = []\<rparr>, tx_emitted = [], tx_exit = None\<rparr>"

text \<open>The loop over the received buffers: a packet is taken out and its slot gets a fresh buffer.\<close>

fun take_packets :: "'b buf_lib \<Rightarrow> 'b \<Rightarrow> nat list \<Rightarrow> 'b list \<Rightarrow> nat list \<Rightarrow> 'b list \<Rightarrow> 'b list \<times> 'b list" where
  "take_packets B fresh [] bufs sizes batch = (batch, bufs)"
| "take_packets B fresh (i # is) bufs sizes batch =
     (if 0 < sizes ! i
      then take_packets B fresh is (bufs[i := fresh]) sizes (batch @ [into_pooled B (sizes ! i) (bufs ! i)])
      else take_packets B fresh is bufs sizes batch)"

definition tun_rx_step ::
  "'b buf_lib \<Rightarrow> nat \<Rightarrow> nat \<Rightarrow> (nat \<Rightarrow> send_env) \<Rightarrow> chan \<Rightarrow> tun_reader \<Rightarrow> tun_rx_event \<Rightarrow> 'b tun_rx_state \<Rightarrow> 'b tun_rx_state" where
  "tun_rx_step B max_datagram ideal env output_tx t ev s =
     (if tx_exit s \<noteq> None then s else
      case ev of
        TunRxStop \<Rightarrow> s\<lparr>tx_exit := Some ExitOk\<rparr>
      | TunRxTick owner_alive \<Rightarrow>
          if owner_alive then s\<lparr>tx_emitted := tx_emitted s @ [snapshot None None (tx_counters s)]\<rparr>
          else s\<lparr>tx_exit := Some ExitOk\<rparr>
      | TunRead read \<Rightarrow>
          (let (r, bufs, sizes) = recv_batch B read (tx_bufs s) (tx_sizes s);
               s = s\<lparr>tx_bufs := bufs, tx_sizes := sizes\<rparr>
           in case r of
                Err e \<Rightarrow> if ie_kind e = Interrupted then s else s\<lparr>tx_exit := Some (ExitErr e)\<rparr>
              | Ok n \<Rightarrow>
                  (let n = min n (reader_batch_size ideal t);
                       (batch, bufs) = take_packets B (tunbuf_alloc_uninit B max_datagram (trd_mtu t)) [0..<n] bufs sizes [];
                       s = s\<lparr>tx_bufs := bufs\<rparr>
                   in if batch = [] then s
                      else let (pkt_count, total_bytes) = batch_stats (map (buf_bytes B) batch);
                               (ok, c, out) = send_and_record env output_tx batch pkt_count total_bytes (tx_counters s, tx_out s)
                           in s\<lparr>tx_counters := c, tx_out := out, tx_exit := (if ok then None else Some ExitOk)\<rparr>)))"

section \<open>Writing\<close>

text \<open>
  One write of a batch: the answer to \<open>send_multiple\<close>, or the timed attempts of each single send. The
  second component of the result is what was handed to the device, the arguments of a failing call included:
  which part of them the device has taken is not known. \<open>None\<close> stands for a send that still retries.
\<close>

record tun_write =
  tw_multiple :: "io_error option"
  tw_single :: "nat \<Rightarrow> (duration \<times> (io_error, unit) result) list"

fun send_each ::
  "'b buf_lib \<Rightarrow> (nat \<Rightarrow> (duration \<times> (io_error, unit) result) list) \<Rightarrow> nat \<Rightarrow> 'b list \<Rightarrow>
     ((io_error, unit) result \<times> packet list) option" where
  "send_each B attempts i [] = Some (Ok (), [])"
| "send_each B attempts i (b # bs) =
     (case retry_on_transient None (attempts i) of
        None \<Rightarrow> None
      | Some (Err e, _) \<Rightarrow> Some (Err e, [buf_bytes B b])
      | Some (Ok _, _) \<Rightarrow>
          map_option (\<lambda>(r, handed). (r, buf_bytes B b # handed)) (send_each B attempts (Suc i) bs))"

definition send_batch ::
  "'b buf_lib \<Rightarrow> nat \<Rightarrow> nat \<Rightarrow> tun_writer \<Rightarrow> tun_write \<Rightarrow> 'b list \<Rightarrow> ((io_error, unit) result \<times> packet list) option" where
  "send_batch B max_datagram hdr_len t w bufs =
     (if twr_offload t
      then (let bufs = map (prepend_hdr B max_datagram hdr_len) bufs
            in Some (case tw_multiple w of Some e \<Rightarrow> Err e | None \<Rightarrow> Ok (), map (buf_bytes B) bufs))
      else send_each B (tw_single w) 0 bufs)"

fun select_mtu ::
  "'b buf_lib \<Rightarrow> nat \<Rightarrow> 'b list \<Rightarrow> 'b list \<times> nat \<times> nat \<times> counters \<Rightarrow> 'b list \<times> nat \<times> nat \<times> counters" where
  "select_mtu B mtu [] st = st"
| "select_mtu B mtu (p # ps) (bufs, ok_count, ok_bytes, c) =
     (let len = length (buf_bytes B p) in
      if len > mtu then select_mtu B mtu ps (bufs, ok_count, ok_bytes, record_drop Oversize 1 len c)
      else select_mtu B mtu ps (bufs @ [p], ok_count + 1, ok_bytes + len, c))"

datatype 'b tun_tx_event = TunBatch "'b list option" tun_write | TunTxStop | TunTxTick bool

record tun_tx_state =
  tt_counters :: counters
  tt_handed :: "packet list"
  tt_emitted :: "metrics list"
  tt_exit :: "io_exit option"

definition tun_tx_init :: tun_tx_state where
  "tun_tx_init = \<lparr>tt_counters = counters_new Tun Tx, tt_handed = [], tt_emitted = [], tt_exit = None\<rparr>"

definition tun_tx_step ::
  "'b buf_lib \<Rightarrow> nat \<Rightarrow> nat \<Rightarrow> tun_writer \<Rightarrow> 'b tun_tx_event \<Rightarrow> tun_tx_state \<Rightarrow> tun_tx_state option" where
  "tun_tx_step B max_datagram hdr_len t ev s =
     (if tt_exit s \<noteq> None then Some s else
      case ev of
        TunTxStop \<Rightarrow> Some (s\<lparr>tt_exit := Some ExitOk\<rparr>)
      | TunTxTick owner_alive \<Rightarrow>
          Some (if owner_alive then s\<lparr>tt_emitted := tt_emitted s @ [snapshot None None (tt_counters s)]\<rparr>
                else s\<lparr>tt_exit := Some ExitOk\<rparr>)
      | TunBatch None _ \<Rightarrow> Some (s\<lparr>tt_exit := Some ExitOk\<rparr>)
      | TunBatch (Some pkts) w \<Rightarrow>
          (let (bufs, ok_count, ok_bytes, c) = select_mtu B (twr_mtu t) pkts ([], 0, 0, tt_counters s)
           in if bufs = [] then Some (s\<lparr>tt_counters := c\<rparr>)
              else (case send_batch B max_datagram hdr_len t w bufs of
                      None \<Rightarrow> None
                    | Some (Ok _, handed) \<Rightarrow>
                        Some (s\<lparr>tt_counters := record_success ok_count ok_bytes c, tt_handed := tt_handed s @ handed\<rparr>)
                    | Some (Err e, handed) \<Rightarrow>
                        Some (s\<lparr>tt_counters := record_drop SendError ok_count ok_bytes c,
                               tt_handed := tt_handed s @ handed, tt_exit := Some (ExitErr e)\<rparr>))))"

section \<open>Buffer contents\<close>

lemma buf_ok_truncate [law_simps]:
  "buf_ok B \<Longrightarrow> buf_bytes B (buf_truncate B n b) = take n (buf_bytes B b)"
  "buf_ok B \<Longrightarrow> buf_headroom B (buf_truncate B n b) = buf_headroom B b"
  by (simp_all add: buf_ok_def)

lemma buf_ok_copy [law_simps]:
  "buf_ok B \<Longrightarrow> length d = length (buf_bytes B b) \<Longrightarrow> buf_bytes B (buf_copy B d b) = d"
  "buf_ok B \<Longrightarrow> length d = length (buf_bytes B b) \<Longrightarrow> buf_headroom B (buf_copy B d b) = buf_headroom B b"
  by (simp_all add: buf_ok_def)

lemma buf_extend_bytes:
  assumes "buf_ok B" "HEADROOM \<le> md" "md + HEADROOM \<le> MAX_PACKET_BUFFER_SIZE"
  shows "buf_bytes B (buf_extend B md n b) = buf_bytes B b"
  using alloc_uninit_packet_buf_shape [OF assms(1,3,2)] assms(1)
  by (auto simp: buf_extend_def Let_def law_simps)

lemma prepend_hdr_bytes:
  assumes "buf_ok B" "HEADROOM \<le> md" "length (buf_bytes B b) + HEADROOM \<le> MAX_PACKET_BUFFER_SIZE" "hdr_len \<le> HEADROOM"
  shows "buf_bytes B (prepend_hdr B md hdr_len b) = replicate hdr_len 0 @ buf_bytes B b"
proof (cases "buf_add_prefix B (replicate hdr_len 0) b")
  case (Some b')
  then show ?thesis using buf_ok_add_prefix [OF assms(1)] by (simp add: prepend_hdr_def)
next
  case None
  have "buf_bytes B (alloc_packet_buf B md (buf_bytes B b)) = buf_bytes B b \<and>
      buf_headroom B (alloc_packet_buf B md (buf_bytes B b)) = HEADROOM"
    using alloc_packet_buf_shape [OF assms(1,3,2)] .
  with buf_ok_add_prefix [OF assms(1), of "replicate hdr_len 0" "alloc_packet_buf B md (buf_bytes B b)"] assms(4)
  obtain b' where "buf_add_prefix B (replicate hdr_len 0) (alloc_packet_buf B md (buf_bytes B b)) = Some b'"
    "buf_bytes B b' = replicate hdr_len 0 @ buf_bytes B b" by auto
  with None show ?thesis by (simp add: prepend_hdr_def Let_def)
qed

section \<open>The read loop\<close>

lemma take_packets_eq:
  assumes "distinct is" "\<forall>i\<in>set is. i < length bufs"
  shows "\<exists>bufs'. take_packets B fresh is bufs sizes batch =
      (batch @ map (\<lambda>i. into_pooled B (sizes ! i) (bufs ! i)) (filter (\<lambda>i. 0 < sizes ! i) is), bufs') \<and>
    length bufs' = length bufs \<and> set bufs' \<subseteq> insert fresh (set bufs)"
  using assms
proof (induction "is" arbitrary: bufs batch)
  case (Cons i "is")
  show ?case
  proof (cases "0 < sizes ! i")
    case True
    from Cons.IH [of "bufs[i := fresh]" "batch @ [into_pooled B (sizes ! i) (bufs ! i)]"] Cons.prems obtain bufs' where b:
      "take_packets B fresh is (bufs[i := fresh]) sizes (batch @ [into_pooled B (sizes ! i) (bufs ! i)]) =
         ((batch @ [into_pooled B (sizes ! i) (bufs ! i)]) @
          map (\<lambda>j. into_pooled B (sizes ! j) (bufs[i := fresh] ! j)) (filter (\<lambda>j. 0 < sizes ! j) is), bufs')"
      "length bufs' = length bufs" "set bufs' \<subseteq> insert fresh (set (bufs[i := fresh]))" by auto
    have "map (\<lambda>j. into_pooled B (sizes ! j) (bufs[i := fresh] ! j)) (filter (\<lambda>j. 0 < sizes ! j) is) =
        map (\<lambda>j. into_pooled B (sizes ! j) (bufs ! j)) (filter (\<lambda>j. 0 < sizes ! j) is)"
      using Cons.prems by (intro map_cong) (auto, metis nth_list_update_neq)
    moreover have "set bufs' \<subseteq> insert fresh (set bufs)"
      using b(3) set_update_subset_insert [of bufs i fresh] by blast
    ultimately show ?thesis using b True by simp
  qed (use Cons in simp)
qed auto

definition rx_inv :: "'b buf_lib \<Rightarrow> nat \<Rightarrow> tun_reader \<Rightarrow> 'b tun_rx_state \<Rightarrow> bool" where
  "rx_inv B ideal t s \<longleftrightarrow> length (tx_bufs s) = reader_batch_size ideal t \<and> length (tx_sizes s) = reader_batch_size ideal t \<and>
     (\<forall>b\<in>set (tx_bufs s). buf_headroom B b = HEADROOM \<and> trd_mtu t \<le> length (buf_bytes B b))"

text \<open>What the device promises of a read: it fills the buffers it is given and reports lengths within them.\<close>

fun read_ok :: "'b buf_lib \<Rightarrow> tun_reader \<Rightarrow> 'b list \<Rightarrow> tun_read \<Rightarrow> bool" where
  "read_ok B t bufs (ReadOne (Ok (contents, len))) \<longleftrightarrow>
     \<not> trd_offload t \<and> length contents = length (buf_bytes B (bufs ! 0)) \<and> len \<le> length contents"
| "read_ok B t bufs (ReadMany (Ok (contents, lens, n))) \<longleftrightarrow>
     trd_offload t \<and> length lens = length bufs \<and>
     map length contents = map (length \<circ> buf_bytes B) bufs \<and> list_all2 (\<le>) lens (map length contents)"
| "read_ok B t bufs _ \<longleftrightarrow> True"

fun read_packets :: "nat \<Rightarrow> tun_read \<Rightarrow> packet list" where
  "read_packets batch_size (ReadOne (Ok (contents, len))) = (if 0 < len then [take len contents] else [])"
| "read_packets batch_size (ReadMany (Ok (contents, lens, n))) =
     map (\<lambda>i. take (lens ! i) (contents ! i)) (filter (\<lambda>i. 0 < lens ! i) [0..<min n batch_size])"
| "read_packets batch_size _ = []"

lemma recv_batch_filled:
  assumes "buf_ok B" "0 < length bufs" "length sizes = length bufs" "read_ok B t bufs read"
    and "recv_batch B read bufs sizes = (Ok n, bufs', sizes')"
  shows "length bufs' = length bufs \<and> length sizes' = length bufs \<and>
    (\<forall>i<length bufs. buf_headroom B (bufs' ! i) = buf_headroom B (bufs ! i) \<and>
       length (buf_bytes B (bufs' ! i)) = length (buf_bytes B (bufs ! i)))"
proof (cases read)
  case (ReadOne r)
  then obtain c len where r: "r = Ok (c, len)" using assms(5) by (auto simp: recv_batch_def split: sum.splits)
  have "length c = length (buf_bytes B (bufs ! 0))" using assms(4) ReadOne r by simp
  with assms ReadOne r show ?thesis by (auto simp: recv_batch_def nth_list_update law_simps)
next
  case (ReadMany r)
  then obtain c lens m where r: "r = Ok (c, lens, m)" using assms(5) by (auto simp: recv_batch_def split: sum.splits)
  have m: "map length c = map (length \<circ> buf_bytes B) bufs" "length lens = length bufs" using assms(4) ReadMany r by simp_all
  have l: "length c = length bufs" using m(1) by (metis length_map)
  have "length (c ! i) = length (buf_bytes B (bufs ! i))" if "i < length bufs" for i
    using arg_cong [OF m(1), of "\<lambda>xs. xs ! i"] that l by simp
  with assms ReadMany r m(2) l show ?thesis by (auto simp: recv_batch_def law_simps)
qed

lemma read_packets_eq:
  assumes "buf_ok B" "0 < bs" "length bufs = bs" "length sizes = bs" "read_ok B t bufs read"
    and "recv_batch B read bufs sizes = (Ok n, bufs', sizes')" "trd_offload t \<or> bs = 1"
  shows "map (\<lambda>i. buf_bytes B (into_pooled B (sizes' ! i) (bufs' ! i))) (filter (\<lambda>i. 0 < sizes' ! i) [0..<min n bs]) =
    read_packets bs read"
proof (cases read)
  case (ReadOne r)
  then obtain c len where r: "r = Ok (c, len)" using assms(6) by (auto simp: recv_batch_def split: sum.splits)
  have len: "length c = length (buf_bytes B (bufs ! 0))" "\<not> trd_offload t" using assms(5) ReadOne r by simp_all
  then obtain b z where "bufs = [b]" "sizes = [z]"
    using assms(3,4,7) by (auto simp: length_Suc_conv)
  with assms ReadOne r len show ?thesis by (auto simp: recv_batch_def into_pooled_def law_simps)
next
  case (ReadMany r)
  then obtain c lens m where r: "r = Ok (c, lens, m)" using assms(6) by (auto simp: recv_batch_def split: sum.splits)
  have m: "map length c = map (length \<circ> buf_bytes B) bufs" using assms(5) ReadMany r by simp
  have l: "length c = length bufs" using m by (metis length_map)
  have "length (c ! i) = length (buf_bytes B (bufs ! i))" if "i < length bufs" for i
    using arg_cong [OF m, of "\<lambda>xs. xs ! i"] that l by simp
  with assms ReadMany r l show ?thesis by (auto simp: recv_batch_def into_pooled_def law_simps)
qed

lemma tun_rx_read:
  assumes "tx_exit s = None" "recv_batch B read (tx_bufs s) (tx_sizes s) = (Ok n, bufs, sizes)"
    and "take_packets B (tunbuf_alloc_uninit B md (trd_mtu t)) [0..<min n (reader_batch_size ideal t)] bufs sizes [] = (batch, bufs')"
  shows "tun_rx_step B md ideal env outp t (TunRead read) s =
    (if batch = [] then s\<lparr>tx_bufs := bufs', tx_sizes := sizes\<rparr>
     else s\<lparr>tx_bufs := bufs', tx_sizes := sizes,
       tx_counters := fold apply_tally (send_tallies (env (sends (tx_out s))) (length batch) (sum_list (map (length \<circ> buf_bytes B) batch))) (tx_counters s),
       tx_out := sent env outp batch (tx_out s),
       tx_exit := (if accepts (env (sends (tx_out s))) then None else Some ExitOk)\<rparr>)"
  using assms by (simp add: tun_rx_step_def Let_def batch_stats_def send_and_record_eq)

lemma tun_rx_read_spec:
  assumes "buf_ok B" "HEADROOM \<le> md" "trd_mtu t + HEADROOM \<le> MAX_PACKET_BUFFER_SIZE" "0 < ideal"
    and "rx_inv B ideal t s" "tx_exit s = None" "read_ok B t (tx_bufs s) read"
  shows "rx_inv B ideal t (tun_rx_step B md ideal env outp t (TunRead read) s) \<and>
    (\<exists>batch. map (buf_bytes B) batch = read_packets (reader_batch_size ideal t) read \<and> (\<forall>b\<in>set batch. buf_headroom B b = HEADROOM) \<and>
       tx_out (tun_rx_step B md ideal env outp t (TunRead read) s) = (if batch = [] then tx_out s else sent env outp batch (tx_out s)))"
proof -
  let ?bs = "reader_batch_size ideal t" and ?fresh = "tunbuf_alloc_uninit B md (trd_mtu t)"
  have bs: "0 < ?bs" "trd_offload t \<or> ?bs = 1" using assms(4) by (simp_all add: reader_batch_size_def)
  have fresh: "buf_headroom B ?fresh = HEADROOM" "trd_mtu t \<le> length (buf_bytes B ?fresh)"
    using alloc_uninit_packet_buf_shape [OF assms(1,3,2)] by (simp_all add: tunbuf_alloc_uninit_def)
  have inv: "length (tx_bufs s) = ?bs" "length (tx_sizes s) = ?bs"
      "\<forall>i<?bs. buf_headroom B (tx_bufs s ! i) = HEADROOM \<and> trd_mtu t \<le> length (buf_bytes B (tx_bufs s ! i))"
    using assms(5) by (auto simp: rx_inv_def)
  obtain r bufs sizes where rb: "recv_batch B read (tx_bufs s) (tx_sizes s) = (r, bufs, sizes)" by (metis prod_cases3)
  show ?thesis
  proof (cases r)
    case (Inl e)
    then have "bufs = tx_bufs s" "sizes = tx_sizes s" "read_packets ?bs read = []"
      using rb by (auto simp: recv_batch_def split: tun_read.splits sum.splits)
    with Inl rb assms(5,6) show ?thesis
      by (auto simp: tun_rx_step_def Let_def rx_inv_def intro: exI [of _ "[]"])
  next
    case (Inr n)
    note rb = rb [unfolded Inr]
    have f: "length bufs = ?bs" "length sizes = ?bs"
      "\<forall>i<?bs. buf_headroom B (bufs ! i) = HEADROOM \<and> trd_mtu t \<le> length (buf_bytes B (bufs ! i))"
      using recv_batch_filled [OF assms(1) _ _ assms(7) rb] inv bs(1) by simp_all
    let ?batch = "map (\<lambda>i. into_pooled B (sizes ! i) (bufs ! i)) (filter (\<lambda>i. 0 < sizes ! i) [0..<min n ?bs])"
    obtain bufs' where tp: "take_packets B ?fresh [0..<min n ?bs] bufs sizes [] = (?batch, bufs')"
      "length bufs' = ?bs" "set bufs' \<subseteq> insert ?fresh (set bufs)"
      using take_packets_eq [of "[0..<min n ?bs]" bufs B ?fresh sizes "[]"] f(1) by auto
    have "\<forall>b\<in>set bufs'. buf_headroom B b = HEADROOM \<and> trd_mtu t \<le> length (buf_bytes B b)"
      using tp(3) fresh f(1,3) by (metis in_set_conv_nth insert_iff subsetD)
    then have "rx_inv B ideal t (tun_rx_step B md ideal env outp t (TunRead read) s)"
      unfolding tun_rx_read [OF assms(6) rb tp(1)] using tp(2) f(2) by (simp add: rx_inv_def)
    moreover have "map (buf_bytes B) ?batch = read_packets ?bs read"
      using read_packets_eq [OF assms(1) bs(1) inv(1,2) assms(7) rb bs(2)] by (simp add: comp_def)
    moreover have "\<forall>b\<in>set ?batch. buf_headroom B b = HEADROOM"
      using f(3) assms(1) by (auto simp: into_pooled_def law_simps)
    moreover have "tx_out (tun_rx_step B md ideal env outp t (TunRead read) s) = (if ?batch = [] then tx_out s else sent env outp ?batch (tx_out s))"
      unfolding tun_rx_read [OF assms(6) rb tp(1)] by simp
    ultimately show ?thesis by (intro conjI exI [of _ ?batch]) assumption+
  qed
qed

section \<open>The write loop\<close>

lemma select_mtu_eq:
  "select_mtu B mtu ps (bufs, n, m, c) =
     (let fit = filter (\<lambda>p. length (buf_bytes B p) \<le> mtu) ps; big = filter (\<lambda>p. mtu < length (buf_bytes B p)) ps
      in (bufs @ fit, n + length fit, m + sum_list (map (length \<circ> buf_bytes B) fit),
          fold apply_tally (map (\<lambda>p. Dropped Oversize 1 (length (buf_bytes B p))) big) c))"
  by (induction ps arbitrary: bufs n m c) (simp_all add: Let_def)

lemma send_each_written:
  "send_each B attempts i bs = Some (r, handed) \<Longrightarrow>
     prefix handed (map (buf_bytes B) bs) \<and> (r = Ok () \<longrightarrow> handed = map (buf_bytes B) bs)"
  by (induction bs arbitrary: i r handed) (auto split: option.splits prod.splits sum.splits)

definition tun_frame :: "nat \<Rightarrow> tun_writer \<Rightarrow> packet \<Rightarrow> packet" where
  "tun_frame hdr_len t p = (if twr_offload t then replicate hdr_len 0 @ p else p)"

lemma send_batch_written:
  assumes "buf_ok B" "HEADROOM \<le> md" "hdr_len \<le> HEADROOM"
    and "\<forall>b\<in>set bufs. length (buf_bytes B b) + HEADROOM \<le> MAX_PACKET_BUFFER_SIZE"
    and "send_batch B md hdr_len t w bufs = Some (r, handed)"
  shows "prefix handed (map (tun_frame hdr_len t \<circ> buf_bytes B) bufs) \<and>
    (r = Ok () \<or> twr_offload t \<longrightarrow> handed = map (tun_frame hdr_len t \<circ> buf_bytes B) bufs)"
proof (cases "twr_offload t")
  case True
  have eq: "map (buf_bytes B \<circ> prepend_hdr B md hdr_len) bufs = map (tun_frame hdr_len t \<circ> buf_bytes B) bufs"
    using prepend_hdr_bytes [OF assms(1,2) _ assms(3)] assms(4) True by (simp add: tun_frame_def)
  have "handed = map (buf_bytes B \<circ> prepend_hdr B md hdr_len) bufs"
    using assms(5) True by (simp add: send_batch_def)
  then show ?thesis unfolding eq by auto
next
  case False
  then have eq: "map (tun_frame hdr_len t \<circ> buf_bytes B) bufs = map (buf_bytes B) bufs" by (simp add: tun_frame_def)
  from False assms(5) have "send_each B (tw_single w) 0 bufs = Some (r, handed)" by (simp add: send_batch_def)
  from send_each_written [OF this] False show ?thesis unfolding eq by simp
qed

section \<open>Properties\<close>

text \<open>C34: The read loop of the tunnel hands on exactly what the device read. From a state whose buffers all have the
  reserved headroom and room for the MTU, one read sends the packets of non-zero length, in order and cut to their
  lengths, as one batch; each packet carries the full headroom that later stages prepend their headers
  in. The invariant on the buffers holds again afterwards.\<close>

theorem tun_rx_exact:
  assumes "buf_ok B" "HEADROOM \<le> md" "trd_mtu t + HEADROOM \<le> MAX_PACKET_BUFFER_SIZE" "0 < ideal"
    and "rx_inv B ideal t s" "tx_exit s = None" "read_ok B t (tx_bufs s) read"
  shows "rx_inv B ideal t (tun_rx_step B md ideal env outp t (TunRead read) s) \<and>
    (\<exists>batch. map (buf_bytes B) batch = read_packets (reader_batch_size ideal t) read \<and> (\<forall>b\<in>set batch. buf_headroom B b = HEADROOM) \<and>
       tx_out (tun_rx_step B md ideal env outp t (TunRead read) s) = (if batch = [] then tx_out s else sent env outp batch (tx_out s)))"
  using assms by (rule tun_rx_read_spec)

text \<open>C35: The write loop of the tunnel hands every packet that fits to the device and accounts for every packet.
  What one batch hands to the device is a prefix of the packets within the MTU, in order, framed with a zero header
  when offload is on; it is all of them when no call fails, and with offload, where they go down in one call,
  in any case. No larger packet is handed over. Each packet of the batch is counted once: as oversize, as a
  success, or as a send error, after which the actor ends.\<close>

theorem tun_tx_exact:
  assumes "buf_ok B" "HEADROOM \<le> md" "hdr_len \<le> HEADROOM" "twr_mtu t + HEADROOM \<le> MAX_PACKET_BUFFER_SIZE"
    and "tt_exit s = None" "tun_tx_step B md hdr_len t (TunBatch (Some pkts) w) s = Some s'"
    and "packets (succeeded (c_stats (tt_counters s))) + length pkts \<le> u64_max"
      "\<forall>r. packets (drop_reasons (c_stats (tt_counters s)) r) + length pkts \<le> u64_max"
  shows "(\<exists>handed. tt_handed s' = tt_handed s @ handed \<and>
      prefix handed (map (tun_frame hdr_len t) (filter (\<lambda>p. length p \<le> twr_mtu t) (map (buf_bytes B) pkts))) \<and>
      (tt_exit s' = None \<or> twr_offload t \<longrightarrow> handed = map (tun_frame hdr_len t) (filter (\<lambda>p. length p \<le> twr_mtu t) (map (buf_bytes B) pkts)))) \<and>
    packets (drop_reasons (c_stats (tt_counters s')) Oversize) = packets (drop_reasons (c_stats (tt_counters s)) Oversize) +
      length (filter (\<lambda>p. twr_mtu t < length p) (map (buf_bytes B) pkts)) \<and>
    (packets (succeeded (c_stats (tt_counters s'))) - packets (succeeded (c_stats (tt_counters s)))) +
      (packets (drop_reasons (c_stats (tt_counters s')) SendError) - packets (drop_reasons (c_stats (tt_counters s)) SendError)) =
      length (filter (\<lambda>p. length p \<le> twr_mtu t) (map (buf_bytes B) pkts)) \<and>
    (tt_exit s' = None \<longleftrightarrow> packets (drop_reasons (c_stats (tt_counters s')) SendError) = packets (drop_reasons (c_stats (tt_counters s)) SendError))"
proof -
  define fit where "fit = filter (\<lambda>p. length (buf_bytes B p) \<le> twr_mtu t) pkts"
  define big where "big = filter (\<lambda>p. twr_mtu t < length (buf_bytes B p)) pkts"
  define ts where "ts = map (\<lambda>p. Dropped Oversize 1 (length (buf_bytes B p))) big"
  define nb where "nb = sum_list (map (length \<circ> buf_bytes B) fit)"
  have lens: "length fit + length big = length pkts"
    unfolding fit_def big_def using sum_length_filter_compl [of "\<lambda>p. length (buf_bytes B p) \<le> twr_mtu t" pkts]
    by (simp add: not_le)
  have fits: "map (tun_frame hdr_len t) (filter (\<lambda>p. length p \<le> twr_mtu t) (map (buf_bytes B) pkts)) = map (tun_frame hdr_len t \<circ> buf_bytes B) fit"
      "length (filter (\<lambda>p. length p \<le> twr_mtu t) (map (buf_bytes B) pkts)) = length fit"
      "length (filter (\<lambda>p. twr_mtu t < length p) (map (buf_bytes B) pkts)) = length big"
    by (simp_all add: fit_def big_def filter_map comp_def)
  have sel: "select_mtu B (twr_mtu t) pkts ([], 0, 0, tt_counters s) = (fit, length fit, nb, fold apply_tally ts (tt_counters s))"
    by (simp add: select_mtu_eq fit_def big_def ts_def nb_def Let_def)
  have sums: "sum_list (map (success_amount (\<lambda>n b. n)) ts) = 0"
      "sum_list (map (drop_amount (\<lambda>n b. n) ((=) r)) ts) = (if r = Oversize then length big else 0)" for r
    unfolding ts_def by (induction big) auto
  have small: "\<forall>b\<in>set fit. length (buf_bytes B b) + HEADROOM \<le> MAX_PACKET_BUFFER_SIZE"
    using assms(4) by (auto simp: fit_def)
  define verdict where "verdict ok = (if fit = [] then [] else [if ok then Succeeded (length fit) nb else Dropped SendError (length fit) nb])" for ok
  have "\<exists>handed. tt_handed s' = tt_handed s @ handed \<and> prefix handed (map (tun_frame hdr_len t \<circ> buf_bytes B) fit) \<and>
      (tt_exit s' = None \<or> twr_offload t \<longrightarrow> handed = map (tun_frame hdr_len t \<circ> buf_bytes B) fit) \<and>
      tt_counters s' = fold apply_tally (ts @ verdict (tt_exit s' = None)) (tt_counters s) \<and> (tt_exit s' = None \<or> fit \<noteq> [])"
  proof (cases "fit = []")
    case True
    with assms(5,6) sel show ?thesis by (intro exI [of _ "[]"]) (auto simp: tun_tx_step_def verdict_def)
  next
    case False
    then obtain r handed where sb: "send_batch B md hdr_len t w fit = Some (r, handed)"
      using assms(5,6) sel by (auto simp: tun_tx_step_def split: option.splits)
    from send_batch_written [OF assms(1,2,3) small this] False sel assms(5,6) sb show ?thesis
      by (intro exI [of _ handed]) (cases r; auto simp: tun_tx_step_def verdict_def)
  qed
  then obtain handed where w: "tt_handed s' = tt_handed s @ handed" "prefix handed (map (tun_frame hdr_len t \<circ> buf_bytes B) fit)"
    "tt_exit s' = None \<or> twr_offload t \<longrightarrow> handed = map (tun_frame hdr_len t \<circ> buf_bytes B) fit"
    "tt_counters s' = fold apply_tally (ts @ verdict (tt_exit s' = None)) (tt_counters s)" "tt_exit s' = None \<or> fit \<noteq> []" by (elim exE conjE, intro that) assumption+
  have room: "packets (succeeded (c_stats (tt_counters s))) + n \<le> u64_max"
      "packets (drop_reasons (c_stats (tt_counters s)) r) + n \<le> u64_max" if "n \<le> length pkts" for n r
    using assms(7,8) that by (meson add_left_mono le_trans)+
  have "packets (succeeded (c_stats (tt_counters s'))) = packets (succeeded (c_stats (tt_counters s))) + (if tt_exit s' = None then length fit else 0)"
    using pkts.succeeded_fold [of "tt_counters s" "ts @ verdict (tt_exit s' = None)"] sums(1) room(1) [of "length fit"] room(1) [of 0] lens w(4)
    by (auto simp: verdict_def)
  moreover have "packets (drop_reasons (c_stats (tt_counters s')) r) = packets (drop_reasons (c_stats (tt_counters s)) r) +
      (if r = Oversize then length big else if r = SendError \<and> tt_exit s' \<noteq> None then length fit else 0)" for r
    using pkts.reason_fold [of "tt_counters s" r "ts @ verdict (tt_exit s' = None)"] sums(2) room(2) [of "length fit" r] room(2) [of "length big" r]
      room(2) [of 0 r] lens w(4) by (auto simp: verdict_def)
  ultimately show ?thesis unfolding fits using w(1,2,3,5) by auto
qed

definition sample_reader :: tun_reader where
  "sample_reader = \<lparr>trd_mtu = 1400, trd_name = ''h3llo0'', trd_offload = False\<rparr>"

definition sample_read :: tun_read where
  "sample_read = ReadOne (Ok (replicate 1490 0x45, 2))"

lemma sample_rx_start:
  "rx_inv buf_ref 128 sample_reader (tun_rx_init buf_ref 1500 128 sample_reader)"
  "read_ok buf_ref sample_reader (tx_bufs (tun_rx_init buf_ref 1500 128 sample_reader)) sample_read"
  by (simp_all add: rx_inv_def tun_rx_init_def reader_batch_size_def sample_reader_def sample_read_def tunbuf_alloc_uninit_def
      alloc_uninit_packet_buf_def buf_ref_def HEADROOM_def)

theorem tun_rx_exact_witness:
  "\<exists>batch. map (buf_bytes buf_ref) batch = [[0x45, 0x45]] \<and>
     delivered (tx_out (tun_rx_step buf_ref 1500 128 (\<lambda>_. \<lparr>try_answer = TrySent, send_answer = None\<rparr>) 3 sample_reader
       (TunRead sample_read) (tun_rx_init buf_ref 1500 128 sample_reader))) = [(3, batch)]"
proof -
  let ?env = "\<lambda>_ :: nat. \<lparr>try_answer = TrySent, send_answer = None\<rparr>"
  have h: "HEADROOM \<le> 1500" "trd_mtu sample_reader + HEADROOM \<le> MAX_PACKET_BUFFER_SIZE" "0 < (128::nat)"
      "tx_exit (tun_rx_init buf_ref 1500 128 sample_reader) = None"
    by (simp_all add: HEADROOM_def MAX_PACKET_BUFFER_SIZE_def sample_reader_def tun_rx_init_def)
  have rp: "read_packets (reader_batch_size 128 sample_reader) sample_read = [[0x45, 0x45]]"
    by (simp add: sample_read_def numeral_2_eq_2)
  from tun_rx_exact [OF buf_ref_ok h(1,2,3) sample_rx_start(1) h(4) sample_rx_start(2), of ?env 3] obtain batch where
    "map (buf_bytes buf_ref) batch = [[0x45, 0x45]]"
    "tx_out (tun_rx_step buf_ref 1500 128 ?env 3 sample_reader (TunRead sample_read) (tun_rx_init buf_ref 1500 128 sample_reader)) =
       (if batch = [] then tx_out (tun_rx_init buf_ref 1500 128 sample_reader) else sent ?env 3 batch (tx_out (tun_rx_init buf_ref 1500 128 sample_reader)))"
    unfolding rp by (elim conjE exE, intro that) assumption+
  then show ?thesis by (intro exI [of _ batch]) (auto simp: sent_def accepts_def tun_rx_init_def)
qed

definition sample_writer :: tun_writer where
  "sample_writer = \<lparr>twr_mtu = 2, twr_name = ''h3llo0'', twr_offload = True\<rparr>"

theorem tun_tx_exact_witness:
  "\<exists>s'. tun_tx_step buf_ref 1500 10 sample_writer
       (TunBatch (Some (map (alloc_packet_buf buf_ref 1500) [[1], [1, 2, 3]])) \<lparr>tw_multiple = None, tw_single = (\<lambda>_. [])\<rparr>) tun_tx_init = Some s' \<and>
     tt_handed s' = [replicate 10 0 @ [1]] \<and> packets (drop_reasons (c_stats (tt_counters s')) Oversize) = 1"
proof -
  let ?pkts = "map (alloc_packet_buf buf_ref 1500) [[1], [1, 2, 3]]"
  let ?w = "\<lparr>tw_multiple = None, tw_single = (\<lambda>_. [])\<rparr>"
  have h: "HEADROOM \<le> 1500" "10 \<le> HEADROOM" "twr_mtu sample_writer + HEADROOM \<le> MAX_PACKET_BUFFER_SIZE" "tt_exit tun_tx_init = None"
    by (simp_all add: HEADROOM_def MAX_PACKET_BUFFER_SIZE_def sample_writer_def tun_tx_init_def)
  have pk: "map (buf_bytes buf_ref) ?pkts = [[1], [1, 2, 3]]"
    using alloc_packet_buf_shape [OF buf_ref_ok _ h(1)] by (simp add: HEADROOM_def MAX_PACKET_BUFFER_SIZE_def)
  then have bs: "buf_bytes buf_ref (alloc_packet_buf buf_ref 1500 [1]) = [1]"
      "buf_bytes buf_ref (alloc_packet_buf buf_ref 1500 [1, 2, 3]) = [1, 2, 3]" by simp_all
  obtain s' where s': "tun_tx_step buf_ref 1500 10 sample_writer (TunBatch (Some ?pkts) ?w) tun_tx_init = Some s'" "tt_exit s' = None"
    by (simp add: tun_tx_step_def send_batch_def sample_writer_def tun_tx_init_def bs)
  have room: "packets (succeeded (c_stats (tt_counters tun_tx_init))) + length ?pkts \<le> u64_max"
      "\<forall>r. packets (drop_reasons (c_stats (tt_counters tun_tx_init)) r) + length ?pkts \<le> u64_max"
    by (simp_all add: tun_tx_init_def stats_default_def zero_pkt_def u64_max_def)
  have zero: "tt_handed tun_tx_init = []" "packets (drop_reasons (c_stats (tt_counters tun_tx_init)) Oversize) = 0"
    by (simp_all add: tun_tx_init_def stats_default_def zero_pkt_def)
  from tun_tx_exact [OF buf_ref_ok h(1,2,3,4) s'(1) room] s' show ?thesis
    unfolding pk zero by (intro exI [of _ s']) (simp add: sample_writer_def tun_frame_def)
qed

section \<open>Growing buffers and building the device\<close>

text \<open>Growing keeps the bytes, also when the buffer moves to the larger pool.\<close>

lemma tunbuf_contents:
  assumes "buf_ok B" "HEADROOM \<le> md" "md + HEADROOM \<le> MAX_PACKET_BUFFER_SIZE"
    and "\<forall>b d. buf_bytes B (grow b d) = buf_bytes B b @ d"
  shows "buf_bytes B (buf_extend_from_slice B grow md src b) = buf_bytes B b @ src"
    and "buf_bytes B (buf_resize B grow md n v b) =
      take n (buf_bytes B b) @ replicate (n - length (buf_bytes B b)) v"
  using buf_extend_bytes [OF assms(1,2,3)] assms(1,4)
  by (simp_all add: buf_extend_from_slice_def buf_resize_def Let_def law_simps)

text \<open>The device ends up with every configured address, the first IPv4 one from its builder.\<close>

definition device_ok :: "'d device_lib \<Rightarrow> ('d \<Rightarrow> (ip_addr \<times> nat) set) \<Rightarrow> bool" where
  "device_ok D addrs \<longleftrightarrow>
     (\<forall>bld d. dev_build D bld = Ok d \<longrightarrow> addrs d = set_option (db_ipv4 bld) \<union> set (db_ipv6 bld)) \<and>
     (\<forall>a l d d'. dev_add_v4 D a l d = Ok d' \<longrightarrow> addrs d' = insert (a, l) (addrs d))"

lemma add_addresses_ok:
  "device_ok D addrs \<Longrightarrow> add_addresses D nets d = Ok d' \<Longrightarrow>
     addrs d' = addrs d \<union> (\<lambda>n. (net_addr n, net_prefix_len n)) ` set nets"
  by (induction nets arbitrary: d) (auto simp: device_ok_def split: sum.splits)

lemma make_tun_addresses:
  assumes "device_ok D addrs" "make_tun D cfg q off = Ok (d, rd, wr)"
  shows "addrs d = (\<lambda>n. (net_addr n, net_prefix_len n)) ` set (tun_addrs cfg) \<and> trd_mtu rd = twr_mtu wr"
proof -
  define v4 where "v4 = filter (\<lambda>n. is_ipv4 (net_addr n)) (tun_addrs cfg)"
  define v6 where "v6 = filter (\<lambda>n. \<not> is_ipv4 (net_addr n)) (tun_addrs cfg)"
  let ?pair = "\<lambda>n. (net_addr n, net_prefix_len n)"
  obtain bld d0 where b: "dev_build D bld = Ok d0" "add_addresses D (drop 1 v4) d0 = Ok d"
    "db_ipv4 bld = (case v4 of [] \<Rightarrow> None | n # _ \<Rightarrow> Some (?pair n))" "db_ipv6 bld = map ?pair v6"
    using assms(2) by (auto simp: make_tun_def split_addrs_by_version_def v4_def v6_def Let_def split: sum.splits)
  have "addrs d = set_option (db_ipv4 bld) \<union> set (db_ipv6 bld) \<union> ?pair ` set (drop 1 v4)"
    using add_addresses_ok [OF assms(1) b(2)] b(1) assms(1) by (simp add: device_ok_def)
  also have "\<dots> = ?pair ` (set v4 \<union> set v6)" unfolding b(3,4) by (cases v4) auto
  also have "set v4 \<union> set v6 = set (tun_addrs cfg)" by (auto simp: v4_def v6_def)
  finally show ?thesis using assms(2)
    by (auto simp: make_tun_def Let_def split: sum.splits prod.splits)
qed

end
