(* ===== verification/Packet.thy ===== *)
theory Packet
  imports Ip
begin

text \<open>
  The packet utilities of \<open>router.rs\<close>: the destination of an IP packet, and the decrement of its TTL
  or hop limit with the incremental checksum of RFC 1624, checked against the full checksum of
  RFC 1071.
\<close>

section \<open>Packets\<close>

definition IPV4_TTL_OFFSET :: nat where "IPV4_TTL_OFFSET = 8"
definition IPV4_CHECKSUM_OFFSET :: nat where "IPV4_CHECKSUM_OFFSET = 10"
definition IPV6_HOP_LIMIT_OFFSET :: nat where "IPV6_HOP_LIMIT_OFFSET = 7"
definition IPV4_MIN_LEN :: nat where "IPV4_MIN_LEN = 20"
definition IPV6_MIN_LEN :: nat where "IPV6_MIN_LEN = 40"

lemmas offset_defs = IPV4_TTL_OFFSET_def IPV4_CHECKSUM_OFFSET_def IPV6_HOP_LIMIT_OFFSET_def
  IPV4_MIN_LEN_def IPV6_MIN_LEN_def

text \<open>The RFC 1624 update of a checksum when the TTL goes down by one, on machine words.\<close>

definition update_checksum :: "u16 \<Rightarrow> u16" where
  "update_checksum old_check =
     (let sum0 = (ucast old_check :: u32) + 0x0100;
          sum1 = (sum0 AND 0xFFFF) + drop_bit 16 sum0;
          sum2 = (sum1 AND 0xFFFF) + drop_bit 16 sum1
      in if (ucast sum2 :: u16) = 0xFFFF then 0 else ucast sum2)"

text \<open>The result of \<open>decrement_ttl\<close> and the packet it leaves behind.\<close>

definition decrement_ttl :: "packet \<Rightarrow> u8 option \<times> packet" where
  "decrement_ttl packet =
     (case packet of
        [] \<Rightarrow> (None, packet)
      | first # _ \<Rightarrow>
          let version = drop_bit 4 first in
          if version = 4 then
            if length packet < IPV4_MIN_LEN then (None, packet)
            else let old_ttl = packet ! IPV4_TTL_OFFSET in
              if old_ttl = 0 then (Some 0, packet)
              else
                let packet1 = packet[IPV4_TTL_OFFSET := old_ttl - 1];
                    old_check = u16_from_be_bytes (packet1 ! IPV4_CHECKSUM_OFFSET)
                                                  (packet1 ! (IPV4_CHECKSUM_OFFSET + 1));
                    (hi, lo) = u16_to_be_bytes (update_checksum old_check)
                in (Some old_ttl, packet1[IPV4_CHECKSUM_OFFSET := hi, IPV4_CHECKSUM_OFFSET + 1 := lo])
          else if version = 6 then
            if length packet < IPV6_MIN_LEN then (None, packet)
            else let old_hl = packet ! IPV6_HOP_LIMIT_OFFSET in
              if old_hl = 0 then (Some 0, packet)
              else (Some old_hl, packet[IPV6_HOP_LIMIT_OFFSET := old_hl - 1])
          else (None, packet))"

definition extract_dst_ip :: "packet \<Rightarrow> ip_addr option" where
  "extract_dst_ip packet =
     (case packet of
        [] \<Rightarrow> None
      | first # _ \<Rightarrow>
          if drop_bit 4 first = 4 then
            if length packet < 20 then None
            else Some (ipv4_from_octets [packet ! 16, packet ! 17, packet ! 18, packet ! 19])
          else if drop_bit 4 first = 6 then
            if length packet < 40 then None
            else Some (ipv6_from_octets (take 16 (drop 24 packet)))
          else None)"
section \<open>The header checksum\<close>

text \<open>The checksum of RFC 1071 over the first \<open>n\<close> 16-bit words of a header.\<close>

definition header_word :: "packet \<Rightarrow> nat \<Rightarrow> nat" where
  "header_word p i = unat (p ! (2 * i)) * 256 + unat (p ! (2 * i + 1))"

definition header_sum :: "nat \<Rightarrow> packet \<Rightarrow> nat" where
  "header_sum n p = sum_list (map (header_word p) [0..<n])"

function fold_carry :: "nat \<Rightarrow> nat" where
  "fold_carry s = (if s div 65536 \<noteq> 0 then fold_carry (s mod 65536 + s div 65536) else s)"
  by pat_completeness auto

termination
proof (relation "measure id")
  fix s :: nat assume "s div 65536 \<noteq> 0"
  then have "s mod 65536 + s div 65536 < s"
    using mult_div_mod_eq [of 65536 s] by linarith
  then show "(s mod 65536 + s div 65536, s) \<in> measure id" by simp
qed simp

declare fold_carry.simps [simp del]

definition ipv4_checksum :: "nat \<Rightarrow> packet \<Rightarrow> u16" where
  "ipv4_checksum n p = NOT (word_of_nat (fold_carry (header_sum n (p[10 := 0, 11 := 0]))))"

definition stored_checksum :: "packet \<Rightarrow> u16" where
  "stored_checksum p = u16_from_be_bytes (p ! 10) (p ! 11)"

lemma fold_carry_mod: "0 < s \<Longrightarrow> fold_carry s = (s - 1) mod 65535 + 1"
proof (induction s rule: fold_carry.induct)
  case (1 s)
  show ?case
  proof (cases "s div 65536 = 0")
    case True
    then have "s < 65536" by (simp add: div_eq_0_iff)
    with True 1(2) show ?thesis by (subst fold_carry.simps) simp
  next
    case False
    let ?s = "s mod 65536 + s div 65536"
    have s: "s = ?s + 65535 * (s div 65536)" using mult_div_mod_eq [of 65536 s] by linarith
    have pos: "0 < ?s" using False by simp
    have "fold_carry s = fold_carry ?s" using False by (subst fold_carry.simps) simp
    also have "\<dots> = (?s - 1) mod 65535 + 1" using 1(1) False pos by blast
    also have "(?s - 1) mod 65535 = (?s - 1 + 65535 * (s div 65536)) mod 65535" by simp
    also have "?s - 1 + 65535 * (s div 65536) = s - 1" using s pos by linarith
    finally show ?thesis .
  qed
qed

lemma unat_fold16:
  fixes x :: u32
  assumes "unat x < 2 ^ 31"
  shows "unat ((x AND 0xFFFF) + drop_bit 16 x) = unat x mod 65536 + unat x div 65536"
proof -
  have m: "x AND 0xFFFF = take_bit 16 x"
    by (simp add: take_bit_eq_mask mask_eq_exp_minus_1)
  have a: "unat (take_bit 16 x) = unat x mod 65536"
    by (simp only: unsigned_take_bit_eq) (simp add: take_bit_nat_def)
  have d: "unat (drop_bit 16 x) = unat x div 65536"
    by (simp only: unat_drop_bit_eq) (simp add: drop_bit_nat_def)
  have "unat x mod 65536 < 65536" "unat x div 65536 \<le> unat x" by simp_all
  then have "unat (take_bit 16 x) + unat (drop_bit 16 x) < 2 ^ LENGTH(32)"
    using assms a d by simp
  then show ?thesis
    unfolding m using unat_add_lem [of "take_bit 16 x" "drop_bit 16 x"] a d by simp
qed

lemma unat_update_checksum:
  "unat (update_checksum c) =
     (if unat c < 65279 then unat c + 256 else unat c - 65279)"
proof -
  let ?s0 = "(ucast c :: u32) + 0x0100"
  let ?s1 = "(?s0 AND 0xFFFF) + drop_bit 16 ?s0"
  let ?s2 = "(?s1 AND 0xFFFF) + drop_bit 16 ?s1"
  have c: "unat c < 65536" by simp
  have uc: "unat (ucast c :: u32) = unat c"
    using c by (simp add: unsigned_ucast_eq take_bit_nat_eq_self_iff del: unat_u16_less)
  have s0: "unat ?s0 = unat c + 256"
    using c uc by (subst unat_add_lem [THEN iffD1]) (simp_all del: unat_u16_less)
  have s1: "unat ?s1 = (if unat c < 65280 then unat c + 256 else unat c - 65279)"
    using c s0 by (subst unat_fold16) (auto simp: mod_if div_if simp del: unat_u16_less)
  have s2: "unat ?s2 = unat ?s1"
    using c s1 by (subst unat_fold16) (auto split: if_splits simp del: unat_u16_less)
  have u16: "unat (ucast ?s2 :: u16) = unat ?s1"
    using c s1 s2
    by (simp add: unsigned_ucast_eq take_bit_nat_eq_self_iff del: unat_u16_less) linarith
  have "(ucast ?s2 :: u16) = 0xFFFF \<longleftrightarrow> unat c = 65279"
    using u16 s1 c by (auto simp: word_unat_eq_iff split: if_splits simp del: unat_u16_less)
  then show ?thesis
    unfolding update_checksum_def Let_def using u16 s1 c by (auto simp del: unat_u16_less)
qed

lemma header_sum_set: "header_sum n p = (\<Sum>i<n. header_word p i)"
  by (simp add: header_sum_def interv_sum_list_conv_sum_set_nat atLeast0LessThan)

lemma header_sum_update_ttl:
  assumes "4 < n" "8 < length q"
  shows "header_sum n (q[8 := x]) + unat (q ! 8) * 256 = header_sum n q + unat x * 256"
proof -
  have w: "header_word (q[8 := x]) i = (if i = 4 then unat x * 256 + unat (q ! 9) else header_word q i)" for i
    using assms(2) by (auto simp: header_word_def nth_list_update)
  have "(\<Sum>i<n. header_word (q[8 := x]) i) = unat x * 256 + unat (q ! 9) + (\<Sum>i\<in>{..<n} - {4}. header_word q i)"
    using assms(1) by (subst sum.remove [of _ 4]) (auto simp: w intro!: sum.cong)
  moreover have "(\<Sum>i<n. header_word q i) = unat (q ! 8) * 256 + unat (q ! 9) + (\<Sum>i\<in>{..<n} - {4}. header_word q i)"
    using assms(1) by (subst sum.remove [of _ 4]) (auto simp: header_word_def)
  ultimately show ?thesis by (simp add: header_sum_set)
qed

lemma header_sum_ge_word: "i < n \<Longrightarrow> header_word q i \<le> header_sum n q"
  unfolding header_sum_set by (rule member_le_sum) auto

lemma version_byte: "drop_bit 4 (b :: u8) = 4 \<Longrightarrow> 64 \<le> unat b"
proof -
  assume "drop_bit 4 b = 4"
  then have "unat (drop_bit 4 b) = 4" by simp
  then have "unat b div 16 = 4" by (simp only: unat_drop_bit_eq) (simp add: drop_bit_nat_def)
  then show ?thesis by linarith
qed

lemma unat_minus_1: "(b :: u8) \<noteq> 0 \<Longrightarrow> unat (b - 1) = unat b - 1"
  by (simp add: unat_minus_one)

text \<open>The cases of \<open>decrement_ttl\<close>.\<close>

lemma decrement_ttl_v4:
  assumes "drop_bit 4 (p ! 0) = 4" "20 \<le> length p" "p ! 8 \<noteq> 0"
  shows "decrement_ttl p = (Some (p ! 8),
     p[8 := p ! 8 - 1, 10 := fst (u16_to_be_bytes (update_checksum (stored_checksum p))),
       11 := snd (u16_to_be_bytes (update_checksum (stored_checksum p)))])"
  using assms
  by (cases p) (simp_all add: decrement_ttl_def offset_defs Let_def stored_checksum_def case_prod_beta)

lemma decrement_ttl_v6:
  assumes "drop_bit 4 (p ! 0) = 6" "40 \<le> length p" "p ! 7 \<noteq> 0"
  shows "decrement_ttl p = (Some (p ! 7), p[7 := p ! 7 - 1])"
  using assms by (cases p) (simp_all add: decrement_ttl_def offset_defs Let_def)

lemma stored_checksum_decrement:
  assumes "drop_bit 4 (p ! 0) = 4" "20 \<le> length p" "p ! 8 \<noteq> 0"
  shows "stored_checksum (snd (decrement_ttl p)) = update_checksum (stored_checksum p)"
  using assms(2) unfolding decrement_ttl_v4 [OF assms]
  by (simp add: stored_checksum_def nth_list_update u16_from_to_be_bytes)

lemma unat_ipv4_checksum:
  assumes "0 < header_sum n (p[10 := 0, 11 := 0])"
  shows "unat (ipv4_checksum n p) = 65535 - ((header_sum n (p[10 := 0, 11 := 0]) - 1) mod 65535 + 1)"
proof -
  let ?f = "(header_sum n (p[10 := 0, 11 := 0]) - 1) mod 65535 + 1"
  have "?f < 2 ^ LENGTH(16)"
    using mod_less_divisor [of 65535 "header_sum n (p[10 := 0, 11 := 0]) - 1"] by simp
  then have "unat (word_of_nat ?f :: u16) = ?f" by (rule unat_of_nat_small)
  moreover have "unat (NOT w) = 65535 - unat w" for w :: u16
  proof -
    have "NOT w = - 1 - w" by (simp add: not_eq_complement)
    moreover have "unat (- 1 :: u16) = 65535"
      by (simp add: unsigned_minus_1_eq_mask mask_eq_exp_minus_1)
    moreover have "w \<le> - 1" by simp
    ultimately show ?thesis by (simp add: unat_sub)
  qed
  ultimately show ?thesis
    using assms by (simp add: ipv4_checksum_def fold_carry_mod)
qed

text \<open>Adding 256 to a one's complement sum, and what it does to the complement.\<close>

lemma carry_around_arith:
  fixes m :: nat
  assumes "m < 65535" "m' = (if m + 256 < 65535 then m + 256 else m + 256 - 65535)"
  shows "m' + 1 = (if m + 1 + 256 \<le> 65535 then m + 1 + 256 else m + 1 + 256 - 65535)"
  using assms by (cases "m + 256 < 65535") auto

lemma complement_arith:
  fixes f :: nat
  assumes "f = (if f' + 256 \<le> 65535 then f' + 256 else f' + 256 - 65535)" "1 \<le> f'" "f' \<le> 65535"
    "c = 65535 - f"
  shows "(if c < 65279 then c + 256 else c - 65279) = 65535 - f'"
  using assms by (cases "f' + 256 \<le> 65535") auto

lemma ones_complement_add_256:
  fixes s :: nat
  assumes "0 < s"
  defines "f \<equiv> \<lambda>s. (s - 1) mod 65535 + 1"
  shows "f (s + 256) = (if f s + 256 \<le> 65535 then f s + 256 else f s + 256 - 65535)"
    and "1 \<le> f s" and "f s \<le> 65535"
proof -
  let ?m = "(s - 1) mod 65535"
  have m: "?m < 65535" by simp
  have "s + 256 - 1 = s - 1 + 256" using assms(1) by simp
  then have "(s + 256 - 1) mod 65535 = (?m + 256) mod 65535"
    by (simp only: mod_add_left_eq)
  also have "\<dots> = (if ?m + 256 < 65535 then ?m + 256 else ?m + 256 - 65535)"
    using m by (cases "?m + 256 < 65535") (simp_all add: le_mod_geq)
  finally show "f (s + 256) = (if f s + 256 \<le> 65535 then f s + 256 else f s + 256 - 65535)"
    unfolding f_def by (rule carry_around_arith [OF m])
  show "1 \<le> f s" "f s \<le> 65535" using m unfolding f_def by linarith+
qed

lemma update_checksum_correct:
  assumes p: "drop_bit 4 (p ! 0) = 4" "20 \<le> length p" "p ! 8 \<noteq> 0" and n: "10 \<le> n"
    and ok: "stored_checksum p = ipv4_checksum n p"
  shows "update_checksum (stored_checksum p) = ipv4_checksum n (snd (decrement_ttl p))"
proof -
  let ?q = "p[10 := 0, 11 := 0]"
  let ?q' = "(snd (decrement_ttl p))[10 := 0, 11 := 0]"
  let ?S = "header_sum n ?q"
  have q': "?q' = ?q[8 := p ! 8 - 1]"
    using p(2) unfolding decrement_ttl_v4 [OF p] by (intro nth_equalityI) (auto simp: nth_list_update)
  have ttl: "1 \<le> unat (p ! 8)"
    using p(3) by (simp add: Suc_le_eq unat_gt_0)
  have sum: "header_sum n ?q' + 256 = ?S"
    using header_sum_update_ttl [of n ?q "p ! 8 - 1"] n p(2) ttl
    unfolding q' unat_minus_1 [OF p(3)] by (simp add: diff_mult_distrib)
  have "256 * 64 \<le> header_word ?q' 0"
    using version_byte [OF p(1)] p(2) by (simp add: header_word_def q')
  also have "\<dots> \<le> header_sum n ?q'" using n by (intro header_sum_ge_word) simp
  finally have pos: "0 < header_sum n ?q'" by simp
  let ?f = "(?S - 1) mod 65535 + 1" and ?f' = "(header_sum n ?q' - 1) mod 65535 + 1"
  note oc = ones_complement_add_256 [OF pos, unfolded sum]
  have "unat (stored_checksum p) = 65535 - ?f"
    using unat_ipv4_checksum [of n p] sum pos unfolding ok by simp
  then have "unat (update_checksum (stored_checksum p)) = 65535 - ?f'"
    unfolding unat_update_checksum by (rule complement_arith [OF oc])
  also have "\<dots> = unat (ipv4_checksum n (snd (decrement_ttl p)))"
    using unat_ipv4_checksum [of n "snd (decrement_ttl p)"] pos by simp
  finally show ?thesis by (simp only: word_unat_eq_iff)
qed
section \<open>Destination and length\<close>

text \<open>
  A packet whose destination can be read can also be decremented, and the decrement keeps its
  destination and its length.
\<close>

lemma extract_dst_ip_alt:
  "extract_dst_ip p =
     (if p = [] then None
      else if drop_bit 4 (p ! 0) = 4 then
        (if length p < 20 then None else Some (ipv4_from_octets [p ! 16, p ! 17, p ! 18, p ! 19]))
      else if drop_bit 4 (p ! 0) = 6 then
        (if length p < 40 then None else Some (ipv6_from_octets (take 16 (drop 24 p))))
      else None)"
  by (cases p) (simp_all add: extract_dst_ip_def)

lemma decrement_ttl_short: "extract_dst_ip p = None \<Longrightarrow> decrement_ttl p = (None, p)"
  by (cases p) (simp_all add: decrement_ttl_def extract_dst_ip_def offset_defs Let_def split: if_splits)

lemma decrement_ttl_zero:
  "drop_bit 4 (p ! 0) = 4 \<Longrightarrow> 20 \<le> length p \<Longrightarrow> p ! 8 = 0 \<Longrightarrow> decrement_ttl p = (Some 0, p)"
  "drop_bit 4 (p ! 0) = 6 \<Longrightarrow> 40 \<le> length p \<Longrightarrow> p ! 7 = 0 \<Longrightarrow> decrement_ttl p = (Some 0, p)"
  by (cases p; simp add: decrement_ttl_def offset_defs Let_def)+

lemma decrement_ttl_cases:
  obtains (short) "extract_dst_ip p = None" "decrement_ttl p = (None, p)"
  | (zero) "extract_dst_ip p \<noteq> None" "decrement_ttl p = (Some 0, p)"
  | (v4) "drop_bit 4 (p ! 0) = 4" "20 \<le> length p" "p ! 8 \<noteq> 0"
  | (v6) "drop_bit 4 (p ! 0) = 6" "40 \<le> length p" "p ! 7 \<noteq> 0"
proof (cases "extract_dst_ip p")
  case None
  then show thesis by (rule short) (rule decrement_ttl_short [OF None])
next
  case (Some d)
  then consider "drop_bit 4 (p ! 0) = 4" "20 \<le> length p" | "drop_bit 4 (p ! 0) = 6" "40 \<le> length p"
    by (auto simp: extract_dst_ip_alt split: if_splits)
  then show thesis
  proof cases
    case 1
    with Some show thesis by (cases "p ! 8 = 0") (auto intro: v4 zero simp: decrement_ttl_zero)
  next
    case 2
    with Some show thesis by (cases "p ! 7 = 0") (auto intro: v6 zero simp: decrement_ttl_zero)
  qed
qed

lemma decrement_ttl_None_iff: "fst (decrement_ttl p) = None \<longleftrightarrow> extract_dst_ip p = None"
proof (cases p rule: decrement_ttl_cases)
  case v4
  then show ?thesis unfolding decrement_ttl_v4 [OF v4] by (auto simp: extract_dst_ip_alt)
next
  case v6
  then show ?thesis unfolding decrement_ttl_v6 [OF v6] by (auto simp: extract_dst_ip_alt)
qed simp_all

lemma decrement_ttl_length [simp]: "length (snd (decrement_ttl p)) = length p"
  by (cases p rule: decrement_ttl_cases) (simp_all add: decrement_ttl_v4 decrement_ttl_v6)

lemma decrement_ttl_dst: "extract_dst_ip (snd (decrement_ttl p)) = extract_dst_ip p"
proof (cases p rule: decrement_ttl_cases)
  case v4
  then show ?thesis
    unfolding decrement_ttl_v4 [OF v4] by (auto simp: extract_dst_ip_alt nth_list_update)
next
  case v6
  then have "drop 24 (p[7 := p ! 7 - 1]) = drop 24 p" by simp
  with v6 show ?thesis
    unfolding decrement_ttl_v6 [OF v6] by (auto simp: extract_dst_ip_alt nth_list_update)
qed simp_all
section \<open>Properties\<close>

text \<open>C1: Forwarding an IPv4 packet keeps its header checksum valid. For a header of any number \<open>n\<close> of
  16-bit words (options included) whose stored checksum is the RFC 1071 checksum, the incremental
  update of \<open>decrement_ttl\<close> stores the RFC 1071 checksum of the new header. The TTL goes down by one,
  the old TTL is returned, and no byte other than the TTL and the checksum changes.\<close>

theorem decrement_ttl_ipv4_checksum:
  assumes "drop_bit 4 (p ! 0) = 4" "20 \<le> length p" "p ! 8 \<noteq> 0"
    and "10 \<le> n" "2 * n \<le> length p" "stored_checksum p = ipv4_checksum n p"
  shows "stored_checksum (snd (decrement_ttl p)) = ipv4_checksum n (snd (decrement_ttl p)) \<and>
    fst (decrement_ttl p) = Some (p ! 8) \<and>
    unat (snd (decrement_ttl p) ! 8) = unat (p ! 8) - 1 \<and>
    length (snd (decrement_ttl p)) = length p \<and>
    (\<forall>i. i \<noteq> 8 \<and> i \<noteq> 10 \<and> i \<noteq> 11 \<longrightarrow> snd (decrement_ttl p) ! i = p ! i)"
proof (rule conjI)
  show "stored_checksum (snd (decrement_ttl p)) = ipv4_checksum n (snd (decrement_ttl p))"
    using stored_checksum_decrement [OF assms(1-3)] update_checksum_correct [OF assms(1-4,6)] by (rule trans)
qed (use assms(2) in \<open>simp add: unat_minus_1 [OF assms(3)] decrement_ttl_v4 [OF assms(1-3)]\<close>)

definition sample_ipv4 :: packet where
  "sample_ipv4 = [0x45, 0, 0, 20, 0x67, 0xD7, 0, 0, 64, 17, 0xFE, 0xFF, 10, 0, 0, 1, 10, 0, 0, 2]"

theorem decrement_ttl_ipv4_checksum_witness:
  "stored_checksum sample_ipv4 = 0xFEFF \<and>
   stored_checksum (snd (decrement_ttl sample_ipv4)) = ipv4_checksum 10 (snd (decrement_ttl sample_ipv4))"
proof -
  have "stored_checksum sample_ipv4 = 0xFEFF"
    by (simp add: sample_ipv4_def stored_checksum_def u16_from_be_bytes_def)
  moreover have "ipv4_checksum 10 sample_ipv4 = 0xFEFF"
    by (simp add: sample_ipv4_def ipv4_checksum_def header_sum_def header_word_def upt_rec fold_carry.simps)
  moreover have "drop_bit 4 (sample_ipv4 ! 0) = 4" "length sample_ipv4 = 20" "sample_ipv4 ! 8 \<noteq> 0"
    by (simp_all add: sample_ipv4_def)
  ultimately show ?thesis
    using decrement_ttl_ipv4_checksum [of sample_ipv4 10] by simp
qed

text \<open>The router never loses the route of a packet by rewriting it, and it never drops one after
  routing it: \<open>decrement_ttl\<close> refuses a packet exactly when no destination can be read from it, and
  it leaves the destination and the length as they were, for both IP versions and every TTL.\<close>

theorem decrement_ttl_keeps_destination:
  "(fst (decrement_ttl p) = None \<longleftrightarrow> extract_dst_ip p = None) \<and>
   extract_dst_ip (snd (decrement_ttl p)) = extract_dst_ip p \<and>
   length (snd (decrement_ttl p)) = length p"
  by (simp add: decrement_ttl_None_iff decrement_ttl_dst)

lemma extract_dst_ip_Nil: "extract_dst_ip [] = None"
  by (simp add: extract_dst_ip_def)

lemma sample_dst: "extract_dst_ip sample_ipv4 = Some (V4 0x0A000002)"
  by (simp add: sample_ipv4_def extract_dst_ip_alt ipv4_from_octets_def be_nat_def)

lemma sample_ttl: "fst (decrement_ttl sample_ipv4) = Some 64"
  by (subst decrement_ttl_v4) (simp_all add: sample_ipv4_def)

end
