(* ===== verification/Router.thy ===== *)
theory Router
  imports Packet Events
begin

text \<open>
  The router actor of \<open>router.rs\<close>: the two batch handlers and the select loop. A packet buffer is the
  list of its bytes and a handler threads the counters and the outbox of delivered batches. The
  ingress handler is compared with a reference that treats each packet on its own.
\<close>

section \<open>Batch handlers\<close>

type_synonym send_state = "counters \<times> packet list outbox"

definition handle_output_batch ::
  "(nat \<Rightarrow> send_env) \<Rightarrow> ipnet_lib \<Rightarrow> 't route_trie \<Rightarrow> packet list \<Rightarrow> 't routing_table \<Rightarrow>
     send_state \<Rightarrow> send_state" where
  "handle_output_batch env L T batch routing st =
     (let (pkt_count, total_bytes) = batch_stats batch; (c, out) = st in
      case batch of
        [] \<Rightarrow> st
      | first # _ \<Rightarrow>
          (case extract_dst_ip first of
             None \<Rightarrow> (record_drop InvalidIpVersion pkt_count total_bytes c, out)
           | Some dest \<Rightarrow>
               (case rt_lookup L T routing dest of
                  None \<Rightarrow> (record_drop NoRoute pkt_count total_bytes c, out)
                | Some route \<Rightarrow> snd (send_and_record env (rm_tx route) batch pkt_count total_bytes (c, out)))))"

text \<open>The scan for the end of the run of packets with the same destination.\<close>

function find_group_end :: "ip_addr \<Rightarrow> packet list \<Rightarrow> nat \<Rightarrow> nat" where
  "find_group_end dst batch group_end =
     (if group_end < length batch then
        if extract_dst_ip (batch ! group_end) \<noteq> Some dst then group_end
        else find_group_end dst batch (group_end + 1)
      else group_end)"
  by pat_completeness auto

termination
  by (relation "measure (\<lambda>(dst, batch, group_end). length batch - group_end)") auto

declare find_group_end.simps [simp del]

text \<open>The single pass over a forwarded group: decrement, then expired, forward or drop.\<close>

fun partition_ttl ::
  "packet list \<Rightarrow> packet list \<Rightarrow> packet list \<Rightarrow> counters \<Rightarrow> packet list \<times> packet list \<times> counters" where
  "partition_ttl [] forward expired c = (forward, expired, c)"
| "partition_ttl (pkt # grp) forward expired c =
     (case decrement_ttl pkt of
        (Some old, pkt') \<Rightarrow>
          if old = 0 \<or> old = 1 then partition_ttl grp forward (expired @ [pkt']) c
          else partition_ttl grp (forward @ [pkt']) expired c
      | (None, pkt') \<Rightarrow>
          partition_ttl grp forward expired (record_drop InvalidIpVersion 1 (length pkt') c))"

definition send_expired ::
  "(nat \<Rightarrow> send_env) \<Rightarrow> chan \<Rightarrow> packet list \<Rightarrow> send_state \<Rightarrow> send_state" where
  "send_expired env input_tx expired st =
     (let (c, out) = st;
          (exp_count, exp_bytes) = batch_stats expired;
          c = record_drop TtlExpired exp_count exp_bytes c;
          (ok, evs, out) = send_with_backpressure env input_tx expired out;
          c = fold on_send_event evs c
      in (if \<not> ok then record_drop ChannelClosed exp_count exp_bytes c else c, out))"

definition process_group ::
  "(nat \<Rightarrow> send_env) \<Rightarrow> ipnet_lib \<Rightarrow> 't route_trie \<Rightarrow> 't routing_table \<Rightarrow> chan \<Rightarrow> ip_addr \<Rightarrow>
     packet list \<Rightarrow> send_state \<Rightarrow> send_state" where
  "process_group env L T routing input_tx dst grp st =
     (let (group_count, group_bytes) = batch_stats grp; (c, out) = st in
      case rt_lookup L T routing dst of
        None \<Rightarrow> (record_drop NoRoute group_count group_bytes c, out)
      | Some route \<Rightarrow>
          if rm_tx route = input_tx
          then snd (send_and_record env (rm_tx route) grp group_count group_bytes (c, out))
          else
            let (forward, expired, c) = partition_ttl grp [] [] c;
                st = (c, out);
                st = (if forward \<noteq> []
                      then let (fwd_count, fwd_bytes) = batch_stats forward
                           in snd (send_and_record env (rm_tx route) forward fwd_count fwd_bytes st)
                      else st)
            in if expired \<noteq> [] then send_expired env input_tx expired st else st)"

lemma find_group_end_ge: "group_end \<le> find_group_end dst batch group_end"
proof (induction dst batch group_end rule: find_group_end.induct)
  case (1 dst batch group_end)
  then show ?case
    by (subst find_group_end.simps) (auto intro: Suc_leD)
qed

function handle_ingress_batch ::
  "(nat \<Rightarrow> send_env) \<Rightarrow> ipnet_lib \<Rightarrow> 't route_trie \<Rightarrow> packet list \<Rightarrow> 't routing_table \<Rightarrow> chan \<Rightarrow>
     send_state \<Rightarrow> send_state" where
  "handle_ingress_batch env L T batch routing input_tx st =
     (if batch = [] then st
      else case extract_dst_ip (batch ! 0) of
        None \<Rightarrow>
          let pkt = batch ! 0; (c, out) = st in
          handle_ingress_batch env L T (drop 1 batch) routing input_tx
            (record_drop InvalidIpVersion 1 (length pkt) c, out)
      | Some dst \<Rightarrow>
          let group_end = find_group_end dst batch 1;
              grp = take group_end batch
          in handle_ingress_batch env L T (drop group_end batch) routing input_tx
               (process_group env L T routing input_tx dst grp st))"
  by pat_completeness auto

termination
proof (relation "measure (\<lambda>(env, L, T, batch, routing, input_tx, st). length batch)", goal_cases)
  case (3 env L T batch routing input_tx st dst group_end grp)
  then show ?case using find_group_end_ge [of 1 dst batch] by (cases batch) auto
qed auto

declare handle_ingress_batch.simps [simp del]

section \<open>Actor loop\<close>

text \<open>
  The arms of the \<open>select!\<close>: a batch or the closing of a data channel, a control message or the
  closing of the inbox, and a tick together with whether the owner still receives.
\<close>

datatype 't router_event =
    OutputBatch "packet list option"
  | IngressBatch "packet list option"
  | RouterInbox "'t event option"
  | RouterTick bool

record 't router_state =
  r_routing :: "'t routing_table"
  r_counters :: counters
  r_out :: "packet list outbox"
  r_emitted :: "metrics list"
  r_exited :: bool

definition router_init :: "'t routing_table \<Rightarrow> 't router_state" where
  "router_init routing =
     \<lparr>r_routing = routing, r_counters = counters_new Router Rx,
      r_out = \<lparr>sends = 0, delivered = []\<rparr>, r_emitted = [], r_exited = False\<rparr>"

definition router_step ::
  "(nat \<Rightarrow> send_env) \<Rightarrow> ipnet_lib \<Rightarrow> 't route_trie \<Rightarrow> chan \<Rightarrow> 't router_event \<Rightarrow>
     't router_state \<Rightarrow> 't router_state" where
  "router_step env L T input_tx ev s =
     (if r_exited s then s else
      case ev of
        OutputBatch None \<Rightarrow> s\<lparr>r_exited := True\<rparr>
      | OutputBatch (Some batch) \<Rightarrow>
          let (c, out) = handle_output_batch env L T batch (r_routing s) (r_counters s, r_out s)
          in s\<lparr>r_counters := c, r_out := out\<rparr>
      | IngressBatch None \<Rightarrow> s\<lparr>r_exited := True\<rparr>
      | IngressBatch (Some batch) \<Rightarrow>
          let (c, out) = handle_ingress_batch env L T batch (r_routing s) input_tx (r_counters s, r_out s)
          in s\<lparr>r_counters := c, r_out := out\<rparr>
      | RouterInbox (Some (UpdateRouting routing)) \<Rightarrow> s\<lparr>r_routing := routing\<rparr>
      | RouterInbox (Some Stop) \<Rightarrow> s\<lparr>r_exited := True\<rparr>
      | RouterInbox None \<Rightarrow> s\<lparr>r_exited := True\<rparr>
      | RouterInbox (Some _) \<Rightarrow> s
      | RouterTick owner_alive \<Rightarrow>
          if owner_alive then s\<lparr>r_emitted := r_emitted s @ [snapshot None None (r_counters s)]\<rparr>
          else s\<lparr>r_exited := True\<rparr>)"

section \<open>Handlers in closed form\<close>

definition fwd_of :: "packet \<Rightarrow> packet list" where
  "fwd_of p = (case decrement_ttl p of
     (Some old, p') \<Rightarrow> if old = 0 \<or> old = 1 then [] else [p'] | (None, _) \<Rightarrow> [])"

definition exp_of :: "packet \<Rightarrow> packet list" where
  "exp_of p = (case decrement_ttl p of
     (Some old, p') \<Rightarrow> if old = 0 \<or> old = 1 then [p'] else [] | (None, _) \<Rightarrow> [])"

lemma partition_ttl_eq:
  "\<forall>p\<in>set grp. extract_dst_ip p \<noteq> None \<Longrightarrow>
   partition_ttl grp f e c = (f @ concat (map fwd_of grp), e @ concat (map exp_of grp), c)"
proof (induction grp arbitrary: f e)
  case (Cons p grp)
  then obtain old p' where "decrement_ttl p = (Some old, p')"
    using decrement_ttl_None_iff [of p] by (cases "decrement_ttl p") auto
  with Cons show ?case by (simp add: fwd_of_def exp_of_def)
qed simp

lemma find_group_end_eq:
  "i \<le> length batch \<Longrightarrow>
   find_group_end dst batch i = i + length (takeWhile (\<lambda>p. extract_dst_ip p = Some dst) (drop i batch))"
proof (induction dst batch i rule: find_group_end.induct)
  case (1 dst batch i)
  show ?case
  proof (cases "i < length batch \<and> extract_dst_ip (batch ! i) = Some dst")
    case True
    then have "drop i batch = batch ! i # drop (Suc i) batch" by (simp add: Cons_nth_drop_Suc)
    with True 1 show ?thesis by (subst find_group_end.simps) simp
  next
    case False
    have "takeWhile (\<lambda>p. extract_dst_ip p = Some dst) (drop i batch) = []"
    proof (cases "i < length batch")
      case True
      with False have "drop i batch = batch ! i # drop (Suc i) batch" by (simp add: Cons_nth_drop_Suc)
      with False True show ?thesis by simp
    qed simp
    with False show ?thesis by (subst find_group_end.simps) simp
  qed
qed

lemma ingress_Nil: "handle_ingress_batch env L T [] routing input_tx st = st"
  by (simp add: handle_ingress_batch.simps)

lemma ingress_invalid:
  "extract_dst_ip p = None \<Longrightarrow>
   handle_ingress_batch env L T (p # ps) routing input_tx (c, out) =
     handle_ingress_batch env L T ps routing input_tx (record_drop InvalidIpVersion 1 (length p) c, out)"
  by (subst handle_ingress_batch.simps) simp

lemma ingress_group:
  assumes "extract_dst_ip p = Some dst"
  defines "same \<equiv> \<lambda>q. extract_dst_ip q = Some dst"
  shows "handle_ingress_batch env L T (p # ps) routing input_tx st =
     handle_ingress_batch env L T (dropWhile same ps) routing input_tx
       (process_group env L T routing input_tx dst (p # takeWhile same ps) st)"
  using assms find_group_end_eq [of 1 "p # ps" dst]
  by (subst handle_ingress_batch.simps)
    (simp add: same_def takeWhile_eq_take [symmetric] dropWhile_eq_drop [symmetric] Let_def)

text \<open>
  The reference for ingress: what happens to one packet on its own, independent of its batch.
\<close>

datatype verdict = Discard drop_reason | Deliver chan packet | Expire packet

definition ingress_verdict :: "(ip_addr \<Rightarrow> route_match option) \<Rightarrow> chan \<Rightarrow> packet \<Rightarrow> verdict" where
  "ingress_verdict lookup input_tx p =
     (case extract_dst_ip p of
        None \<Rightarrow> Discard InvalidIpVersion
      | Some dst \<Rightarrow>
          (case lookup dst of
             None \<Rightarrow> Discard NoRoute
           | Some r \<Rightarrow>
               if rm_tx r = input_tx then Deliver input_tx p
               else (let (old, p') = decrement_ttl p in
                     if old = Some 0 \<or> old = Some 1 then Expire p' else Deliver (rm_tx r) p')))"

fun verdict_on :: "chan \<Rightarrow> chan \<Rightarrow> verdict \<Rightarrow> packet list" where
  "verdict_on input_tx ch (Discard r) = []"
| "verdict_on input_tx ch (Deliver tx p) = (if tx = ch then [p] else [])"
| "verdict_on input_tx ch (Expire p) = (if input_tx = ch then [p] else [])"

definition delivered_on :: "chan \<Rightarrow> packet list outbox \<Rightarrow> packet list" where
  "delivered_on ch out = concat (map snd (filter (\<lambda>(tx, b). tx = ch) (delivered out)))"

lemma delivered_on_sent:
  "delivered_on ch (sent env tx v out) =
     delivered_on ch out @ (if accepts (env (sends out)) \<and> tx = ch then v else [])"
  by (simp add: delivered_on_def sent_def)

definition size_of :: "packet list \<Rightarrow> nat" where
  "size_of b = sum_list (map length b)"

definition forward_tallies :: "(nat \<Rightarrow> send_env) \<Rightarrow> nat \<Rightarrow> packet list \<Rightarrow> tally list" where
  "forward_tallies env k fwd = (if fwd = [] then [] else send_tallies (env k) (length fwd) (size_of fwd))"

definition expired_tallies :: "(nat \<Rightarrow> send_env) \<Rightarrow> nat \<Rightarrow> packet list \<Rightarrow> tally list" where
  "expired_tallies env k ex =
     (if ex = [] then [] else
      Dropped TtlExpired (length ex) (size_of ex) # wait_tallies (env k) @
      (if accepts (env k) then [] else [Dropped ChannelClosed (length ex) (size_of ex)]))"

definition maybe_sent :: "(nat \<Rightarrow> send_env) \<Rightarrow> chan \<Rightarrow> packet list \<Rightarrow> packet list outbox \<Rightarrow> packet list outbox" where
  "maybe_sent env tx v out = (if v = [] then out else sent env tx v out)"

lemma delivered_on_maybe_sent:
  "delivered_on ch (maybe_sent env tx v out) =
     delivered_on ch out @ (if accepts (env (sends out)) \<and> tx = ch then v else [])"
  by (simp add: maybe_sent_def delivered_on_sent)

lemma send_expired_eq:
  "ex \<noteq> [] \<Longrightarrow> send_expired env input_tx ex (c, out) =
     (fold apply_tally (expired_tallies env (sends out) ex) c, sent env input_tx ex out)"
  unfolding send_expired_def
  by (subst send_with_backpressure_eq)
    (simp add: Let_def case_prod_beta expired_tallies_def send_events_fold size_of_def)

lemma process_group_no_route:
  "rt_lookup L T routing dst = None \<Longrightarrow>
   process_group env L T routing input_tx dst grp (c, out) =
     (fold apply_tally [Dropped NoRoute (length grp) (size_of grp)] c, out)"
  by (simp add: process_group_def Let_def case_prod_beta size_of_def)

lemma process_group_local:
  "rt_lookup L T routing dst = Some r \<Longrightarrow> rm_tx r = input_tx \<Longrightarrow>
   process_group env L T routing input_tx dst grp (c, out) =
     (fold apply_tally (send_tallies (env (sends out)) (length grp) (size_of grp)) c, sent env input_tx grp out)"
  by (simp add: process_group_def Let_def case_prod_beta send_and_record_eq size_of_def)

lemma process_group_forward:
  assumes "rt_lookup L T routing dst = Some r" "rm_tx r \<noteq> input_tx"
    "\<forall>p\<in>set grp. extract_dst_ip p \<noteq> None"
  defines "fwd \<equiv> concat (map fwd_of grp)" and "ex \<equiv> concat (map exp_of grp)"
  shows "process_group env L T routing input_tx dst grp (c, out) =
     (fold apply_tally (forward_tallies env (sends out) fwd @
        expired_tallies env (sends (maybe_sent env (rm_tx r) fwd out)) ex) c,
      maybe_sent env input_tx ex (maybe_sent env (rm_tx r) fwd out))"
proof -
  have eq: "process_group env L T routing input_tx dst grp (c, out) =
      (let st = (if fwd \<noteq> [] then snd (send_and_record env (rm_tx r) fwd (length fwd) (size_of fwd) (c, out))
                 else (c, out))
       in if ex \<noteq> [] then send_expired env input_tx ex st else st)"
    using assms(1,2) partition_ttl_eq [OF assms(3)]
    by (simp add: process_group_def Let_def case_prod_beta fwd_def ex_def size_of_def)
  show ?thesis
    unfolding eq by (cases "fwd = []"; cases "ex = []")
      (simp_all add: send_and_record_eq send_expired_eq maybe_sent_def forward_tallies_def expired_tallies_def)
qed

lemmas process_group_eqs = process_group_no_route process_group_local process_group_forward

lemma verdict_forward:
  assumes "extract_dst_ip p = Some dst" "lookup dst = Some r" "rm_tx r \<noteq> input_tx"
  shows "verdict_on input_tx ch (ingress_verdict lookup input_tx p) =
     (if ch = rm_tx r then fwd_of p else if ch = input_tx then exp_of p else [])"
proof -
  obtain old p' where p: "decrement_ttl p = (Some old, p')"
    using decrement_ttl_None_iff [of p] assms(1) by (cases "decrement_ttl p") auto
  show ?thesis
    using assms by (simp add: ingress_verdict_def fwd_of_def exp_of_def p)
qed

lemma concat_map_if: "concat (map (\<lambda>x. if b then f x else g x) xs) =
    (if b then concat (map f xs) else concat (map g xs))"
  by simp

lemma process_group_delivers:
  assumes acc: "\<forall>k. accepts (env k)" and grp: "\<forall>p\<in>set grp. extract_dst_ip p = Some dst"
  shows "delivered_on ch (snd (process_group env L T routing input_tx dst grp (c, out))) =
    delivered_on ch out @
      concat (map (\<lambda>p. verdict_on input_tx ch (ingress_verdict (rt_lookup L T routing) input_tx p)) grp)"
proof (cases "rt_lookup L T routing dst")
  case None
  with grp have "concat (map (\<lambda>p. verdict_on input_tx ch (ingress_verdict (rt_lookup L T routing) input_tx p)) grp) = []"
    by (intro concat_map_filter_Nil) (simp add: ingress_verdict_def)
  with None show ?thesis by (simp only: process_group_no_route snd_conv append_Nil2)
next
  case (Some r)
  show ?thesis
  proof (cases "rm_tx r = input_tx")
    case True
    have "concat (map (\<lambda>p. verdict_on input_tx ch (ingress_verdict (rt_lookup L T routing) input_tx p)) grp) =
        (if input_tx = ch then grp else [])"
      using grp Some True by (induction grp) (auto simp: ingress_verdict_def)
    with Some True acc show ?thesis by (simp add: process_group_local delivered_on_sent)
  next
    case False
    have "map (\<lambda>p. verdict_on input_tx ch (ingress_verdict (rt_lookup L T routing) input_tx p)) grp =
        map (\<lambda>p. if ch = rm_tx r then fwd_of p else if ch = input_tx then exp_of p else []) grp"
      using grp Some False by (intro map_cong refl verdict_forward) auto
    then have "concat (map (\<lambda>p. verdict_on input_tx ch (ingress_verdict (rt_lookup L T routing) input_tx p)) grp) =
        (if ch = rm_tx r then concat (map fwd_of grp) else if ch = input_tx then concat (map exp_of grp) else [])"
      by (simp only: concat_map_if) simp
    then show ?thesis
      using grp Some False acc
      by (subst process_group_forward) (auto simp: delivered_on_maybe_sent)
  qed
qed

text \<open>Induction over the groups of a batch.\<close>

lemma ingress_induct [case_names Nil invalid grp]:
  assumes "P []"
    and "\<And>p ps. extract_dst_ip p = None \<Longrightarrow> P ps \<Longrightarrow> P (p # ps)"
    and "\<And>p ps dst. extract_dst_ip p = Some dst \<Longrightarrow>
      P (dropWhile (\<lambda>q. extract_dst_ip q = Some dst) ps) \<Longrightarrow> P (p # ps)"
  shows "P batch"
proof (induction batch rule: length_induct)
  case (1 batch)
  show ?case
  proof (cases batch)
    case (Cons p ps)
    have "length (dropWhile Q ps) < length batch" for Q
      using length_dropWhile_le [of Q ps] Cons by simp
    with 1 Cons assms show ?thesis by (cases "extract_dst_ip p") auto
  qed (simp add: assms(1))
qed

lemma ingress_delivers:
  assumes "\<forall>k. accepts (env k)"
  shows "delivered_on ch (snd (handle_ingress_batch env L T batch routing input_tx (c, out))) =
    delivered_on ch out @
      concat (map (\<lambda>p. verdict_on input_tx ch (ingress_verdict (rt_lookup L T routing) input_tx p)) batch)"
proof (induction batch arbitrary: c out rule: ingress_induct)
  case (invalid p ps)
  then show ?case by (simp add: ingress_invalid ingress_verdict_def)
next
  case (grp p ps dst)
  let ?same = "\<lambda>q. extract_dst_ip q = Some dst"
  let ?g = "p # takeWhile ?same ps"
  obtain c' out' where st: "process_group env L T routing input_tx dst ?g (c, out) = (c', out')"
    by (cases "process_group env L T routing input_tx dst ?g (c, out)")
  have "\<forall>q\<in>set ?g. extract_dst_ip q = Some dst"
    using grp(1) by (auto dest: set_takeWhileD)
  from process_group_delivers [OF assms this, of ch L T routing input_tx c out]
  show ?case
    unfolding ingress_group [OF grp(1)] st grp(2)
    by (simp flip: concat_append map_append)
qed (simp add: ingress_Nil)

section \<open>Accounting\<close>

text \<open>Packets recorded as successful and as dropped for a reason by a sequence of tallies.\<close>

definition succ_pkts :: "tally list \<Rightarrow> nat" where
  "succ_pkts ts = sum_list (map (success_amount (\<lambda>n b. n)) ts)"

definition drop_pkts :: "drop_reason \<Rightarrow> tally list \<Rightarrow> nat" where
  "drop_pkts r ts = sum_list (map (drop_amount (\<lambda>n b. n) ((=) r)) ts)"

definition n_discard :: "drop_reason \<Rightarrow> verdict list \<Rightarrow> nat" where
  "n_discard r vs = length (filter (\<lambda>v. v = Discard r) vs)"

definition n_expire :: "verdict list \<Rightarrow> nat" where
  "n_expire vs = length (filter (\<lambda>v. \<exists>p. v = Expire p) vs)"

definition n_deliver :: "verdict list \<Rightarrow> nat" where
  "n_deliver vs = length (filter (\<lambda>v. \<exists>tx p. v = Deliver tx p) vs)"

lemmas verdict_counts = n_discard_def n_expire_def n_deliver_def

text \<open>
  The tallies of a batch match the verdicts on its packets. Expired packets that cannot be handed
  to the TUN side are recorded twice, hence the upper bound.
\<close>

definition tallies_match :: "bool \<Rightarrow> tally list \<Rightarrow> verdict list \<Rightarrow> bool" where
  "tallies_match acc ts vs \<longleftrightarrow>
     drop_pkts InvalidIpVersion ts = n_discard InvalidIpVersion vs \<and>
     drop_pkts NoRoute ts = n_discard NoRoute vs \<and>
     drop_pkts TtlExpired ts = n_expire vs \<and>
     n_deliver vs \<le> succ_pkts ts + drop_pkts ChannelClosed ts \<and>
     succ_pkts ts + drop_pkts ChannelClosed ts \<le> n_deliver vs + n_expire vs \<and>
     (acc \<longrightarrow> succ_pkts ts = n_deliver vs)"

lemma tallies_match_Nil: "tallies_match acc [] []"
  by (simp add: tallies_match_def verdict_counts succ_pkts_def drop_pkts_def)

lemma tallies_match_append:
  "tallies_match acc ts vs \<Longrightarrow> tallies_match acc us ws \<Longrightarrow> tallies_match acc (ts @ us) (vs @ ws)"
  by (auto simp: tallies_match_def verdict_counts succ_pkts_def drop_pkts_def)

lemma count_Cons:
  "n_discard r (v # vs) = (if v = Discard r then 1 else 0) + n_discard r vs"
  "n_expire (v # vs) = (case v of Expire p \<Rightarrow> 1 | _ \<Rightarrow> 0) + n_expire vs"
  "n_deliver (v # vs) = (case v of Deliver tx p \<Rightarrow> 1 | _ \<Rightarrow> 0) + n_deliver vs"
  by (cases v; simp add: verdict_counts)+

lemma n_total: "n_expire vs + n_deliver vs \<le> length vs"
proof (induction vs)
  case (Cons v vs)
  then show ?case by (cases v) (simp_all add: verdict_counts)
qed (simp add: verdict_counts)

lemma pkts_append:
  "succ_pkts (ts @ us) = succ_pkts ts + succ_pkts us"
  "drop_pkts r (ts @ us) = drop_pkts r ts + drop_pkts r us"
  by (simp_all add: succ_pkts_def drop_pkts_def)

lemma forward_tallies_pkts:
  "succ_pkts (forward_tallies env k fwd) = (if accepts (env k) then length fwd else 0)"
  "drop_pkts r (forward_tallies env k fwd) = (if \<not> accepts (env k) \<and> r = ChannelClosed then length fwd else 0)"
  by (simp_all only: forward_tallies_def succ_pkts_def drop_pkts_def)
    (cases "fwd = []"; simp only: if_True if_False send_tallies_amounts; simp)+

lemma expired_tallies_pkts:
  "succ_pkts (expired_tallies env k ex) = 0"
  "drop_pkts r (expired_tallies env k ex) =
     (if r = TtlExpired \<or> r = ChannelClosed \<and> \<not> accepts (env k) then length ex else 0)"
  unfolding expired_tallies_def succ_pkts_def drop_pkts_def
  by (cases "ex = []"; simp only: if_True if_False list.map map_append sum_list.append sum_list.Cons
      wait_tallies_amounts; simp)+

lemma forward_verdict_counts:
  assumes "\<forall>p\<in>set grp. extract_dst_ip p = Some dst" "lookup dst = Some r" "rm_tx r \<noteq> input_tx"
  defines "vs \<equiv> map (ingress_verdict lookup input_tx) grp"
  shows "n_deliver vs = length (concat (map fwd_of grp)) \<and> n_expire vs = length (concat (map exp_of grp)) \<and>
    n_discard InvalidIpVersion vs = 0 \<and> n_discard NoRoute vs = 0"
  using assms(1) unfolding vs_def
proof (induction grp)
  case (Cons p grp)
  obtain old p' where p: "decrement_ttl p = (Some old, p')"
    using decrement_ttl_None_iff [of p] Cons.prems by (cases "decrement_ttl p") auto
  have "ingress_verdict lookup input_tx p = (if old = 0 \<or> old = 1 then Expire p' else Deliver (rm_tx r) p')"
    "fwd_of p = (if old = 0 \<or> old = 1 then [] else [p'])" "exp_of p = (if old = 0 \<or> old = 1 then [p'] else [])"
    using p Cons.prems assms(2,3) by (simp_all add: ingress_verdict_def fwd_of_def exp_of_def)
  with Cons show ?case by (simp add: count_Cons)
qed (simp add: verdict_counts)

lemma process_group_tallies:
  assumes grp: "\<forall>p\<in>set grp. extract_dst_ip p = Some dst"
  shows "\<exists>ts. fst (process_group env L T routing input_tx dst grp (c, out)) = fold apply_tally ts c \<and>
    tallies_match (\<forall>k. accepts (env k)) ts (map (ingress_verdict (rt_lookup L T routing) input_tx) grp)"
proof (cases "rt_lookup L T routing dst")
  case None
  have v: "map (ingress_verdict (rt_lookup L T routing) input_tx) grp = map (\<lambda>_. Discard NoRoute) grp"
    using grp None by (auto simp: ingress_verdict_def)
  show ?thesis
    unfolding process_group_no_route [OF None] v
    by (intro exI conjI, rule fst_conv)
      (simp add: tallies_match_def verdict_counts succ_pkts_def drop_pkts_def filter_map comp_def)
next
  case (Some r)
  show ?thesis
  proof (cases "rm_tx r = input_tx")
    case True
    have v: "map (ingress_verdict (rt_lookup L T routing) input_tx) grp = map (Deliver input_tx) grp"
      using grp Some True by (auto simp: ingress_verdict_def)
    show ?thesis
      unfolding process_group_local [OF Some True] v
      by (intro exI conjI, rule fst_conv)
        (simp add: tallies_match_def verdict_counts succ_pkts_def drop_pkts_def filter_map comp_def)
  next
    case False
    let ?fwd = "concat (map fwd_of grp)" and ?ex = "concat (map exp_of grp)"
    let ?vs = "map (ingress_verdict (rt_lookup L T routing) input_tx) grp"
    have n: "n_deliver ?vs = length ?fwd" "n_expire ?vs = length ?ex"
      "n_discard InvalidIpVersion ?vs = 0" "n_discard NoRoute ?vs = 0"
      using forward_verdict_counts [of grp dst "rt_lookup L T routing" r input_tx] grp Some False by simp_all
    have grp': "\<forall>p\<in>set grp. extract_dst_ip p \<noteq> None" using grp by simp
    show ?thesis
      unfolding process_group_forward [OF Some False grp']
      by (intro exI conjI, rule fst_conv)
        (simp add: tallies_match_def n pkts_append forward_tallies_pkts expired_tallies_pkts)
  qed
qed

lemma ingress_tallies:
  "\<exists>ts. fst (handle_ingress_batch env L T batch routing input_tx (c, out)) = fold apply_tally ts c \<and>
    tallies_match (\<forall>k. accepts (env k)) ts (map (ingress_verdict (rt_lookup L T routing) input_tx) batch)"
proof (induction batch arbitrary: c out rule: ingress_induct)
  case Nil
  then show ?case by (intro exI [of _ "[]"]) (simp add: ingress_Nil tallies_match_Nil)
next
  case (invalid p ps)
  let ?t = "[Dropped InvalidIpVersion 1 (length p)]"
  have v: "ingress_verdict (rt_lookup L T routing) input_tx p = Discard InvalidIpVersion"
    using invalid(1) by (simp add: ingress_verdict_def)
  have m: "tallies_match acc ?t [Discard InvalidIpVersion]" for acc
    by (simp add: tallies_match_def verdict_counts succ_pkts_def drop_pkts_def)
  from invalid(2) [of "fold apply_tally ?t c" out] obtain ts
    where "fst (handle_ingress_batch env L T ps routing input_tx (fold apply_tally ?t c, out)) =
        fold apply_tally (?t @ ts) c"
      "tallies_match (\<forall>k. accepts (env k)) ts (map (ingress_verdict (rt_lookup L T routing) input_tx) ps)"
    by auto
  with tallies_match_append [OF m] show ?case
    unfolding ingress_invalid [OF invalid(1)] list.map v by (intro exI [of _ "?t @ ts"]) simp
next
  case (grp p ps dst)
  let ?same = "\<lambda>q. extract_dst_ip q = Some dst" and ?v = "ingress_verdict (rt_lookup L T routing) input_tx"
  let ?g = "p # takeWhile ?same ps"
  obtain c' out' where st: "process_group env L T routing input_tx dst ?g (c, out) = (c', out')"
    by (cases "process_group env L T routing input_tx dst ?g (c, out)")
  have "\<forall>q\<in>set ?g. extract_dst_ip q = Some dst"
    using grp(1) by (auto dest: set_takeWhileD)
  from process_group_tallies [OF this, of env L T routing input_tx c out] st
  obtain ts where ts: "c' = fold apply_tally ts c" "tallies_match (\<forall>k. accepts (env k)) ts (map ?v ?g)"
    by auto
  from grp(2) [of c' out'] obtain us
    where us: "fst (handle_ingress_batch env L T (dropWhile ?same ps) routing input_tx (c', out')) = fold apply_tally us c'"
      "tallies_match (\<forall>k. accepts (env k)) us (map ?v (dropWhile ?same ps))"
    by auto
  from tallies_match_append [OF ts(2) us(2)] us(1) ts(1)
  show ?case
    unfolding ingress_group [OF grp(1)] st by (intro exI [of _ "ts @ us"]) (simp flip: map_append)
qed
section \<open>The actor loop as a transition system\<close>

lemma handle_output_batch_tallies:
  "\<exists>ts. fst (handle_output_batch env L T batch routing (c, out)) = fold apply_tally ts c"
proof (cases batch)
  case Nil
  then show ?thesis by (intro exI [of _ "[]"]) (simp add: handle_output_batch_def Let_def case_prod_beta)
next
  case (Cons p ps)
  show ?thesis
  proof (cases "extract_dst_ip p")
    case None
    with Cons show ?thesis
      by (intro exI [of _ "[Dropped InvalidIpVersion (length batch) (size_of batch)]"])
        (simp add: handle_output_batch_def Let_def case_prod_beta size_of_def)
  next
    case (Some dst)
    show ?thesis
    proof (cases "rt_lookup L T routing dst")
      case None
      with Cons Some show ?thesis
        by (intro exI [of _ "[Dropped NoRoute (length batch) (size_of batch)]"])
          (simp add: handle_output_batch_def Let_def case_prod_beta size_of_def)
    next
      case route: (Some r)
      with Cons Some show ?thesis
        by (intro exI [of _ "send_tallies (env (sends out)) (length batch) (size_of batch)"])
          (simp add: handle_output_batch_def Let_def case_prod_beta send_and_record_eq size_of_def)
    qed
  qed
qed

lemma drops_balanced_fold: "drops_balanced c \<Longrightarrow> drops_balanced (fold apply_tally ts c)"
  by (induction ts arbitrary: c) (auto intro: drops_balanced_apply)

inductive router_trans ::
  "(nat \<Rightarrow> send_env) \<Rightarrow> ipnet_lib \<Rightarrow> 't route_trie \<Rightarrow> chan \<Rightarrow> 't router_state \<Rightarrow> 't router_state \<Rightarrow> bool"
  for env L T input_tx where
  "router_trans env L T input_tx s (router_step env L T input_tx ev s)"

definition router_start :: "'t router_state \<Rightarrow> bool" where
  "router_start s = (s = router_init (r_routing s))"

definition router_inv :: "'t router_state \<Rightarrow> bool" where
  "router_inv s =
     (drops_balanced (r_counters s) \<and>
      (\<forall>m\<in>set (r_emitted s). packets (dropped (m_stats m)) = min u64_max (reason_total packets (m_stats m))))"

lemma router_step_counters:
  "\<exists>ts. r_counters (router_step env L T input_tx ev s) = fold apply_tally ts (r_counters s)"
proof (cases "r_exited s")
  case True
  then show ?thesis by (intro exI [of _ "[]"]) (simp add: router_step_def)
next
  case False
  then show ?thesis
  proof (cases ev)
    case (OutputBatch b)
    with False handle_output_batch_tallies [of env L T "the b" "r_routing s" "r_counters s" "r_out s"]
    show ?thesis by (cases b) (auto simp: router_step_def Let_def case_prod_beta intro: exI [of _ "[]"])
  next
    case (IngressBatch b)
    with False ingress_tallies [of env L T "the b" "r_routing s" input_tx "r_counters s" "r_out s"]
    show ?thesis by (cases b) (auto simp: router_step_def Let_def case_prod_beta intro: exI [of _ "[]"])
  next
    case (RouterInbox m)
    with False show ?thesis
      by (intro exI [of _ "[]"]) (auto simp: router_step_def split: option.split event.split)
  next
    case (RouterTick alive)
    with False show ?thesis by (intro exI [of _ "[]"]) (auto simp: router_step_def)
  qed
qed

lemma router_step_emitted:
  "set (r_emitted (router_step env L T input_tx ev s)) \<subseteq>
     insert (snapshot None None (r_counters s)) (set (r_emitted s))"
  by (auto simp: router_step_def Let_def case_prod_beta
      split: router_event.splits option.splits event.splits if_splits)

interpretation router_loop: inductive_invariant router_start "router_trans env L T input_tx" router_inv
  for env L T input_tx
proof
  show "router_start s \<Longrightarrow> router_inv s" for s :: "'a router_state"
    unfolding router_start_def
    by (metis drops_balanced_new empty_iff empty_set router_init_def router_inv_def router_state.select_convs(2,4))
  show "router_inv t" if inv: "router_inv s" and step: "router_trans env L T input_tx s t" for s t :: "'a router_state"
  proof -
    obtain ev where t: "t = router_step env L T input_tx ev s"
      using step by (auto elim: router_trans.cases)
    have "packets (dropped (m_stats (snapshot None None (r_counters s)))) =
        min u64_max (reason_total packets (m_stats (snapshot None None (r_counters s))))"
      using inv by (simp add: router_inv_def drops_balanced_def snapshot_def)
    with inv router_step_emitted [of env L T input_tx ev s]
      router_step_counters [of env L T input_tx ev s]
    show ?thesis
      unfolding t router_inv_def by (auto simp: drops_balanced_fold)
  qed
qed
section \<open>Properties\<close>

text \<open>C3: Splitting an ingress batch into runs of equal destinations is not observable. While the
  channels accept, each channel receives, in order, exactly the packets that the per-packet
  reference sends to it: local packets unchanged to the TUN side, packets with a TTL above one
  rewritten to the channel of their longest prefix match, expired ones rewritten to the TUN side,
  nothing else.\<close>

theorem ingress_batch_refines_per_packet:
  assumes "\<forall>k. accepts (env k)"
  shows "delivered_on ch (snd (handle_ingress_batch env L T batch routing input_tx (c, out))) =
    delivered_on ch out @
      concat (map (\<lambda>p. verdict_on input_tx ch (ingress_verdict (rt_lookup L T routing) input_tx p)) batch)"
  using assms by (rule ingress_delivers)

definition open_env :: "nat \<Rightarrow> send_env" where
  "open_env k = \<lparr>try_answer = TrySent, send_answer = None\<rparr>"

definition empty_outbox :: "packet list outbox" where
  "empty_outbox = \<lparr>sends = 0, delivered = []\<rparr>"

lemma open_env_accepts [simp]: "accepts (open_env k)"
  by (simp add: open_env_def accepts_def)

theorem ingress_batch_refines_per_packet_witness:
  "delivered_on 7 (snd (handle_ingress_batch open_env ipnet_ref trie_ref
     [sample_ipv4, sample_ipv4] sample_table 1 (counters_new Router Rx, empty_outbox))) =
   [snd (decrement_ttl sample_ipv4), snd (decrement_ttl sample_ipv4)]"
proof -
  have "verdict_on 1 7 (ingress_verdict (rt_lookup ipnet_ref trie_ref sample_table) 1 sample_ipv4) =
      [snd (decrement_ttl sample_ipv4)]"
    by (simp add: ingress_verdict_def sample_dst sample_lookup sample_ttl case_prod_beta)
  with ingress_batch_refines_per_packet
    [of open_env 7 ipnet_ref trie_ref "[sample_ipv4, sample_ipv4]" sample_table 1 "counters_new Router Rx" empty_outbox]
  show ?thesis by (simp add: delivered_on_def empty_outbox_def)
qed

lemma counters_room:
  assumes "fst (handle_ingress_batch env L T batch routing input_tx (c, out)) = fold apply_tally ts c"
    "drop_pkts r ts \<le> n" "packets (drop_reasons (c_stats c) r) + n \<le> u64_max"
  shows "packets (drop_reasons (c_stats (fst (handle_ingress_batch env L T batch routing input_tx (c, out)))) r) =
    packets (drop_reasons (c_stats c) r) + drop_pkts r ts"
  unfolding assms(1) using pkts.reason_fold [of c r ts] assms(2,3) by (simp add: drop_pkts_def)

text \<open>C18: Every packet of an ingress batch is accounted for. While the counters do not saturate, the
  packets dropped as invalid, without a route and with an expired TTL are exactly those the
  per-packet reference names; successes and closed-channel drops together cover every packet that
  was to be delivered and exceed it by at most the expired packets, which are counted a second time
  when the TUN side is gone; and when all sends are accepted the successes are exactly the
  deliveries.\<close>

theorem ingress_accounting:
  fixes T :: "'t route_trie" and c :: counters and env L batch routing input_tx out
  assumes room: "packets (succeeded (c_stats c)) + length batch \<le> u64_max"
    "\<forall>r. packets (drop_reasons (c_stats c) r) + length batch \<le> u64_max"
  defines "c' \<equiv> fst (handle_ingress_batch env L T batch routing input_tx (c, out))"
    and "vs \<equiv> map (ingress_verdict (rt_lookup L T routing) input_tx) batch"
    and "delta \<equiv> \<lambda>c c' r. packets (drop_reasons (c_stats c') r) - packets (drop_reasons (c_stats c) r)"
    and "ok \<equiv> \<lambda>c c'. packets (succeeded (c_stats c')) - packets (succeeded (c_stats c))"
  shows "delta c c' InvalidIpVersion = n_discard InvalidIpVersion vs \<and>
    delta c c' NoRoute = n_discard NoRoute vs \<and> delta c c' TtlExpired = n_expire vs \<and>
    n_deliver vs \<le> ok c c' + delta c c' ChannelClosed \<and>
    ok c c' + delta c c' ChannelClosed \<le> n_deliver vs + n_expire vs \<and>
    ((\<forall>k. accepts (env k)) \<longrightarrow> ok c c' = n_deliver vs)"
proof -
  obtain ts where ts: "c' = fold apply_tally ts c" and m: "tallies_match (\<forall>k. accepts (env k)) ts vs"
    using ingress_tallies [of env L T batch routing input_tx c out] unfolding c'_def vs_def by blast
  have len: "length vs = length batch" by (simp add: vs_def)
  have "n_discard r vs \<le> length batch" for r
    unfolding n_discard_def using length_filter_le [of _ vs] len by simp
  then have "drop_pkts r ts \<le> length batch" if "r \<in> {InvalidIpVersion, NoRoute, TtlExpired, ChannelClosed}" for r
    using m n_total [of vs] len that unfolding tallies_match_def by (auto intro: le_trans)
  then have d: "delta c c' r = drop_pkts r ts"
    if "r \<in> {InvalidIpVersion, NoRoute, TtlExpired, ChannelClosed}" for r
    using counters_room [OF ts [unfolded c'_def], of r "length batch"] room(2) that
    unfolding delta_def c'_def by simp
  have "succ_pkts ts \<le> length batch"
    using m n_total [of vs] len unfolding tallies_match_def by linarith
  then have s: "ok c c' = succ_pkts ts"
    using pkts.succeeded_fold [of c ts] room(1) unfolding ok_def ts by (simp add: succ_pkts_def)
  show ?thesis
    using m d s unfolding tallies_match_def by simp
qed

theorem ingress_accounting_witness:
  "packets (succeeded (c_stats (fst (handle_ingress_batch open_env ipnet_ref trie_ref
     [sample_ipv4, []] sample_table 1 (counters_new Router Rx, empty_outbox))))) = 1"
proof -
  have "n_deliver (map (ingress_verdict (rt_lookup ipnet_ref trie_ref sample_table) 1) [sample_ipv4, []]) = 1"
    by (simp add: ingress_verdict_def sample_dst sample_lookup sample_ttl case_prod_beta n_deliver_def
        extract_dst_ip_Nil)
  moreover have "packets (succeeded stats_default) = 0" "\<forall>r. packets (drop_reasons stats_default r) = 0"
    by (simp_all add: stats_default_def zero_pkt_def)
  ultimately show ?thesis
    using ingress_accounting [of "counters_new Router Rx" "[sample_ipv4, []]" open_env ipnet_ref trie_ref
        sample_table 1 empty_outbox] by (simp add: u64_max_def)
qed

end
