(* ===== verification/Orch.thy ===== *)
theory Orch
  imports Bare Dispatcher Dns Route Tun Router
begin

text \<open>
  The orchestrator of \<open>orch.rs\<close>: the connections and dials of each peer, the fan-out of the peer set to the
  other actors, supervision, construction and the main loop. The peer table is the association list of its
  entries in iteration order. The bus is part of the state: the inbox of the orchestrator is that of its own
  mailbox, a dial is an actor of the bus with the context it was started with, and a data channel is named
  by the address of the actor that reads it. An environment gives each step the time, the closed channels
  and the iteration order of a set of addresses.
\<close>

section \<open>Peers\<close>

record active_conn =
  an_endpoint :: "endpoint option"
  an_dest :: socket_addr
  an_tx :: chan
  an_rx_metrics :: "metrics option"
  an_tx_metrics :: "metrics option"

record dial_state =
  dl_attempt :: nat
  dl_next_allowed_at :: time
  dl_in_flight :: bool

record peer_entry =
  pe_config :: peer
  pe_bounds :: "active_conn list"
  pe_resolved_ips :: "ip_addr set"
  pe_dials :: "ip_addr \<rightharpoonup> dial_state"

type_synonym peer_table = "(string \<times> peer_entry) list"

record 't orch_env =
  oe_net :: ipnet_lib
  oe_trie :: "'t route_trie"
  oe_order :: "ip_addr set \<Rightarrow> ip_addr list"
  oe_closed :: "chan \<Rightarrow> bool"
  oe_now :: time
  oe_show_ip :: "ip_addr \<Rightarrow> string"

definition new_in_flight :: "time \<Rightarrow> dial_state" where
  "new_in_flight now = \<lparr>dl_attempt = 0, dl_next_allowed_at = now, dl_in_flight = True\<rparr>"

definition u32_max :: nat where
  "u32_max = 2 ^ 32 - 1"

text \<open>The shift by at most 30 always succeeds, so the multiplier is a power of two.\<close>

definition record_failure :: "time \<Rightarrow> duration \<Rightarrow> duration \<Rightarrow> dial_state \<Rightarrow> dial_state" where
  "record_failure now backoff_min backoff_max st =
     (let multiplier = (let shift = min (dl_attempt st) 30 in if shift < 32 then 2 ^ shift else u32_max);
          delay = min backoff_max (dur_sat_mul backoff_min multiplier)
      in \<lparr>dl_attempt = min u32_max (dl_attempt st + 1), dl_next_allowed_at = now + delay, dl_in_flight = False\<rparr>)"

definition peer_entry_new :: "peer \<Rightarrow> peer_entry" where
  "peer_entry_new cfg = \<lparr>pe_config = cfg, pe_bounds = [], pe_resolved_ips = {}, pe_dials = Map.empty\<rparr>"

definition preferred_tx :: "peer_entry \<Rightarrow> chan option" where
  "preferred_tx e = (case pe_bounds e of [] \<Rightarrow> None | b # _ \<Rightarrow> Some (an_tx b))"

definition config_endpoint :: "peer_entry \<Rightarrow> endpoint option" where
  "config_endpoint e =
     (case peer_transport (pe_config e) of
        Bare bare \<Rightarrow> Some (UdpEp (pbare_endpoint bare))
      | H3 h3 \<Rightarrow> map_option H3Ep (ph3_endpoint h3))"

definition bound_valid :: "(chan \<Rightarrow> bool) \<Rightarrow> peer_entry \<Rightarrow> active_conn \<Rightarrow> bool" where
  "bound_valid is_closed e bound =
     (if is_closed (an_tx bound) then False
      else case an_endpoint bound of
             None \<Rightarrow> True
           | Some bound_ep \<Rightarrow>
               if config_endpoint e \<noteq> Some bound_ep then False
               else fst (an_dest bound) \<in> pe_resolved_ips e)"

definition prune :: "(chan \<Rightarrow> bool) \<Rightarrow> peer_entry \<Rightarrow> peer_entry \<times> bool" where
  "prune is_closed e =
     (let e' = e\<lparr>pe_bounds := filter (bound_valid is_closed e) (pe_bounds e), pe_dials := pe_dials e |` pe_resolved_ips e\<rparr>
      in (e', case (preferred_tx e, preferred_tx e') of
                (Some old, Some new) \<Rightarrow> old \<noteq> new
              | (None, None) \<Rightarrow> False
              | _ \<Rightarrow> True))"

section \<open>Dials\<close>

record dial_task =
  dt_ref :: chan
  dt_transport :: peer_transport
  dt_context :: dial_context

text \<open>What the orchestrator passes to \<open>try_connect\<close>.\<close>

record dial_args =
  da_tun_if :: string
  da_tun_mtu :: u16
  da_tuning :: tuning
  da_ctx :: chan

definition dialable :: "time \<Rightarrow> peer_entry \<Rightarrow> ip_addr \<Rightarrow> bool" where
  "dialable now e ip =
     (case pe_dials e ip of
        Some st \<Rightarrow> if dl_in_flight st then False else \<not> now < dl_next_allowed_at st
      | None \<Rightarrow> True)"

definition uncovered :: "'t orch_env \<Rightarrow> peer_entry \<Rightarrow> ip_addr list" where
  "uncovered E e =
     (let covered_ips = set (map (\<lambda>b. fst (an_dest b)) (pe_bounds e))
      in filter (dialable (oe_now E) e) (oe_order E (pe_resolved_ips e - covered_ips)))"

definition dial_name :: "'t orch_env \<Rightarrow> peer_transport \<Rightarrow> dial_context \<Rightarrow> string" where
  "dial_name E transport dial =
     (case transport of Bare _ \<Rightarrow> ''bare-dial['' | H3 _ \<Rightarrow> ''h3-dial['') @ dc_peer_id dial @ ''@'' @ oe_show_ip E (dc_dial_ip dial) @ '']''"

definition start_dial ::
  "'t orch_env \<Rightarrow> dial_args \<Rightarrow> ip_addr \<Rightarrow> peer_entry \<times> 't bus \<times> dial_task list \<Rightarrow> peer_entry \<times> 't bus \<times> dial_task list" where
  "start_dial E A ip st =
     (let (e, b, tasks) = st;
          e = e\<lparr>pe_dials := (pe_dials e)(ip \<mapsto> (case pe_dials e ip of
                  Some st \<Rightarrow> st\<lparr>dl_in_flight := True\<rparr> | None \<Rightarrow> new_in_flight (oe_now E)))\<rparr>;
          transport = peer_transport (pe_config e);
          dial = \<lparr>dc_peer_id = peer_id (pe_config e), dc_dial_ip = ip, dc_tun_if = da_tun_if A, dc_tun_mtu = da_tun_mtu A,
                  dc_tuning = da_tuning A\<rparr>;
          (b, r) = actor_spawn (da_ctx A) (dial_name E transport dial) Detached b
      in (e, b, tasks @ [\<lparr>dt_ref = r, dt_transport = transport, dt_context = dial\<rparr>]))"

definition try_connect ::
  "'t orch_env \<Rightarrow> dial_args \<Rightarrow> peer_entry \<times> 't bus \<times> dial_task list \<Rightarrow> peer_entry \<times> 't bus \<times> dial_task list" where
  "try_connect E A st =
     (if pe_resolved_ips (fst st) = {} then st else fold (start_dial E A) (uncovered E (fst st)) st)"

text \<open>The loop that prunes and reconnects every peer, after an update of each entry.\<close>

fun maintain ::
  "'t orch_env \<Rightarrow> dial_args \<Rightarrow> (peer_entry \<Rightarrow> peer_entry) \<Rightarrow> peer_table \<Rightarrow> 't bus \<times> dial_task list \<Rightarrow>
     peer_table \<times> bool \<times> 't bus \<times> dial_task list" where
  "maintain E A upd [] sink = ([], False, sink)"
| "maintain E A upd ((pid, e) # es) sink =
     (let (e, changed) = prune (oe_closed E) (upd e);
          (e, sink) = try_connect E A (e, sink);
          (es, more, sink) = maintain E A upd es sink
      in ((pid, e) # es, changed \<or> more, sink))"

definition report_dial :: "chan \<Rightarrow> ('e, connected_event) result \<Rightarrow> dial_context \<Rightarrow> 't bus \<Rightarrow> 't bus" where
  "report_dial ctx result dial b =
     (case result of
        Ok event \<Rightarrow> fst (actor_notify_owner ctx (Connected event) b)
      | Err err \<Rightarrow> fst (actor_notify_owner ctx (DialFailed \<lparr>df_peer_id = dc_peer_id dial, df_ip = dc_dial_ip dial\<rparr>) b))"

section \<open>Hostnames and addresses\<close>

definition strip_ipv6_brackets :: "string \<Rightarrow> string" where
  "strip_ipv6_brackets host = rev (dropWhile (\<lambda>c. c = CHR '']'') (rev (dropWhile (\<lambda>c. c = CHR ''['') host)))"

definition peer_dns_hostname :: "peer \<Rightarrow> string option" where
  "peer_dns_hostname p =
     (case peer_transport p of
        Bare bare \<Rightarrow> Some (udp_host (pbare_endpoint bare))
      | H3 h3 \<Rightarrow> map_option (\<lambda>ep. strip_ipv6_brackets (h3e_host ep)) (ph3_endpoint h3))"

definition collect_hostnames :: "peer list \<Rightarrow> string set" where
  "collect_hostnames peers = set (List.map_filter peer_dns_hostname peers)"

definition collect_allowed_ips :: "peer list \<Rightarrow> ipnet list" where
  "collect_allowed_ips peers = concat (map (\<lambda>p. allowed_ips (peer_tun p)) peers)"

text \<open>\<open>lookup\<close> is the resolver of the system behind \<open>to_socket_addrs\<close>; errors are chains, outermost first.\<close>

type_synonym error_chain = "string list"

definition resolve_listen_addr ::
  "(string \<Rightarrow> (string, socket_addr list) result) \<Rightarrow> string \<Rightarrow> u16 \<Rightarrow> (error_chain, socket_addr) result" where
  "resolve_listen_addr lookup host port =
     (let host = strip_ipv6_brackets host in
      case parse_ip host of
        Some ip \<Rightarrow> Ok (ip, port)
      | None \<Rightarrow>
          (let addr_str = host @ '':'' @ decimal (unat port) in
           case lookup addr_str of
             Err e \<Rightarrow> Err [''resolve listen address `'' @ addr_str @ ''`'', e]
           | Ok [] \<Rightarrow> Err [''listen address `'' @ addr_str @ ''` resolved to no addresses'']
           | Ok (first # _) \<Rightarrow> Ok first))"

section \<open>The orchestrator\<close>

datatype orch_reply =
    ConfigReply config
  | PeersReply "(config_error, config) result"
  | MetricsReply "labels \<rightharpoonup> metrics"

text \<open>
  Next to the fields of the code: the dials that have not reported yet, the replies sent, the arguments of
  the routing tables built so far, and the result once the loop has ended.
\<close>

record 't orch =
  or_ctx :: chan
  or_bus :: "'t bus"
  or_tun_if :: string
  or_tun_mtu :: u16
  or_tuning :: tuning
  or_peers :: peer_table
  or_router :: chan
  or_ingress_tx :: chan
  or_bare_rx :: "chan option"
  or_h3_listener :: "chan option"
  or_dns :: chan
  or_route :: "chan option"
  or_input_tx :: chan
  or_local :: local_cfg
  or_non_peer_metrics :: "labels \<rightharpoonup> metrics"
  or_dialing :: "dial_task list"
  or_replies :: "(chan \<times> orch_reply) list"
  or_built :: "(peer list \<times> (string \<rightharpoonup> chan)) list"
  or_exit :: "(error_chain, unit) result option"

definition or_send :: "chan \<Rightarrow> 't event \<Rightarrow> 't orch \<Rightarrow> 't orch" where
  "or_send r ev s = s\<lparr>or_bus := fst (actor_send r ev (or_bus s))\<rparr>"

definition or_reply :: "chan \<Rightarrow> orch_reply \<Rightarrow> 't orch \<Rightarrow> 't orch" where
  "or_reply reply_tx reply s = s\<lparr>or_replies := or_replies s @ [(reply_tx, reply)]\<rparr>"

definition peer_configs :: "'t orch \<Rightarrow> peer list" where
  "peer_configs s = map (\<lambda>(_, e). pe_config e) (or_peers s)"

definition config_snapshot :: "'t orch \<Rightarrow> config" where
  "config_snapshot s = \<lparr>cfg_local = or_local s, cfg_tuning = or_tuning s, cfg_peers = peer_configs s\<rparr>"

definition update_accepted_sources :: "'t orch \<Rightarrow> 't orch" where
  "update_accepted_sources s =
     (case or_bare_rx s of
        None \<Rightarrow> s
      | Some r \<Rightarrow>
          or_send r (UpdateAcceptedSources
            (\<Union>(_, e)\<in>set (or_peers s). case peer_transport (pe_config e) of Bare _ \<Rightarrow> pe_resolved_ips e | H3 _ \<Rightarrow> {})) s)"

definition listener_tokens :: "'t orch \<Rightarrow> (string \<times> string) list" where
  "listener_tokens s =
     List.map_filter (\<lambda>(_, e). case peer_transport (pe_config e) of
         H3 h3 \<Rightarrow> Some (peer_id (pe_config e), ph3_token h3) | Bare _ \<Rightarrow> None) (or_peers s)"

definition sync_peers_to_actors :: "'t orch \<Rightarrow> 't orch" where
  "sync_peers_to_actors s =
     (let s = (case or_h3_listener s of
                 Some r \<Rightarrow> or_send r (UpdatePeerTokens (listener_tokens s)) s
               | None \<Rightarrow> s)
      in or_send (or_dns s) (SetHostnames (collect_hostnames (peer_configs s))) s)"

definition preferred_txs :: "peer_table \<Rightarrow> string \<rightharpoonup> chan" where
  "preferred_txs ps = map_of (List.map_filter (\<lambda>(pid, e). map_option (Pair pid) (preferred_tx e)) ps)"

definition update_routing :: "'t orch_env \<Rightarrow> 't orch \<Rightarrow> 't orch" where
  "update_routing E s =
     (let configs = peer_configs s;
          peer_txs = preferred_txs (or_peers s);
          s = s\<lparr>or_built := or_built s @ [(configs, peer_txs)]\<rparr>;
          s = (case rt_make (oe_net E) (oe_trie E) configs peer_txs (lc_tun (or_local s)) (or_input_tx s) of
                 Ok routing \<Rightarrow> or_send (or_router s) (UpdateRouting routing) s
               | Err e \<Rightarrow> s)
      in case or_route s of
           Some r \<Rightarrow> or_send r (SyncRoutes (tun_addrs (lc_tun (or_local s))) (collect_allowed_ips configs)) s
         | None \<Rightarrow> s)"

definition dial_args_of :: "'t orch \<Rightarrow> dial_args" where
  "dial_args_of s = \<lparr>da_tun_if = or_tun_if s, da_tun_mtu = or_tun_mtu s, da_tuning = or_tuning s, da_ctx = or_ctx s\<rparr>"

definition maintain_all :: "'t orch_env \<Rightarrow> (peer_entry \<Rightarrow> peer_entry) \<Rightarrow> 't orch \<Rightarrow> 't orch \<times> bool" where
  "maintain_all E upd s =
     (let (ps, changed, b, tasks) = maintain E (dial_args_of s) upd (or_peers s) (or_bus s, or_dialing s)
      in (s\<lparr>or_peers := ps, or_bus := b, or_dialing := tasks\<rparr>, changed))"

definition reconcile :: "'t orch_env \<Rightarrow> 't orch \<Rightarrow> 't orch" where
  "reconcile E s =
     (let (s, routing_changed) = maintain_all E id s
      in if routing_changed then update_routing E s else s)"

definition set_resolved :: "dns_state \<Rightarrow> peer_entry \<Rightarrow> peer_entry" where
  "set_resolved state e =
     e\<lparr>pe_resolved_ips := (case peer_dns_hostname (pe_config e) of
          None \<Rightarrow> {}
        | Some h \<Rightarrow> (case state h of Some found \<Rightarrow> found | None \<Rightarrow> {}))\<rparr>"

definition handle_dns_snapshot :: "'t orch_env \<Rightarrow> dns_state \<Rightarrow> 't orch \<Rightarrow> 't orch" where
  "handle_dns_snapshot E state s =
     update_routing E (update_accepted_sources (fst (maintain_all E (set_resolved state) s)))"

definition update_bound ::
  "'t orch_env \<Rightarrow> string \<Rightarrow> endpoint option \<Rightarrow> socket_addr \<Rightarrow> chan \<Rightarrow> 't orch \<Rightarrow> 't orch" where
  "update_bound E pid ep dest tx s =
     (case map_of (or_peers s) pid of
        None \<Rightarrow> s
      | Some e \<Rightarrow>
          (let e = (if ep = None then e else e\<lparr>pe_dials := (pe_dials e)(fst dest := None)\<rparr>);
               was_empty = (pe_bounds e = []);
               e = e\<lparr>pe_bounds := pe_bounds e @ [\<lparr>an_endpoint = ep, an_dest = dest, an_tx = tx, an_rx_metrics = None, an_tx_metrics = None\<rparr>]\<rparr>;
               (e, first_changed) = prune (oe_closed E) e;
               s = s\<lparr>or_peers := AList.update pid e (or_peers s)\<rparr>
           in if was_empty \<or> first_changed then update_routing E s else s))"

definition handle_connected :: "'t orch_env \<Rightarrow> connected_event \<Rightarrow> 't orch \<Rightarrow> 't orch" where
  "handle_connected E event s = update_bound E (ce_peer_id event) (ce_endpoint event) (ce_remote_addr event) (ce_tx event) s"

definition handle_dial_failed :: "'t orch_env \<Rightarrow> dial_failed_event \<Rightarrow> 't orch \<Rightarrow> 't orch" where
  "handle_dial_failed E event s =
     (case map_of (or_peers s) (df_peer_id event) of
        None \<Rightarrow> s
      | Some e \<Rightarrow>
          (case pe_dials e (df_ip event) of
             None \<Rightarrow> s
           | Some st \<Rightarrow>
               s\<lparr>or_peers := AList.update (df_peer_id event)
                   (e\<lparr>pe_dials := (pe_dials e)(df_ip event \<mapsto>
                        record_failure (oe_now E) (reconnect_backoff_min (or_tuning s)) (reconnect_backoff_max (or_tuning s)) st)\<rparr>)
                   (or_peers s)\<rparr>))"

section \<open>Requests and metrics\<close>

definition merge_peers :: "peer list \<Rightarrow> (string \<times> peer) list \<Rightarrow> (string \<times> peer) list" where
  "merge_peers new_peers merged = fold (\<lambda>p m. AList.update (peer_id p) p m) new_peers merged"

definition upsert_peer :: "peer \<Rightarrow> peer_table \<Rightarrow> peer_table" where
  "upsert_peer p ps =
     (case map_of ps (peer_id p) of
        Some existing \<Rightarrow> AList.update (peer_id p) (existing\<lparr>pe_config := p\<rparr>) ps
      | None \<Rightarrow> AList.update (peer_id p) (peer_entry_new p) ps)"

definition handle_post_config :: "peer list \<Rightarrow> 't orch \<Rightarrow> (config_error, unit) result \<times> 't orch" where
  "handle_post_config new_peers s =
     (let merged = merge_peers new_peers (map (\<lambda>(pid, e). (pid, pe_config e)) (or_peers s)) in
      case validate_peers (map snd merged) of
        Err e \<Rightarrow> (Err (Validation e), s)
      | Ok _ \<Rightarrow> (Ok (), sync_peers_to_actors (s\<lparr>or_peers := fold upsert_peer new_peers (or_peers s)\<rparr>)))"

definition handle_delete_config :: "string list \<Rightarrow> 't orch \<Rightarrow> 't orch" where
  "handle_delete_config ids s =
     (let before = length (or_peers s);
          s = s\<lparr>or_peers := fold AList.delete ids (or_peers s)\<rparr>
      in if length (or_peers s) < before then sync_peers_to_actors s else s)"

definition conn_metrics :: "active_conn \<Rightarrow> metrics list" where
  "conn_metrics b = List.map_filter id [an_rx_metrics b, an_tx_metrics b]"

definition collect_metrics_snapshot :: "'t orch \<Rightarrow> labels \<rightharpoonup> metrics" where
  "collect_metrics_snapshot s =
     fold (\<lambda>m snap. snap(m_labels m \<mapsto> m))
       (concat (map (\<lambda>(_, e). concat (map conn_metrics (pe_bounds e))) (or_peers s))) (or_non_peer_metrics s)"

fun store_metrics :: "metrics \<Rightarrow> socket_addr \<Rightarrow> active_conn list \<Rightarrow> active_conn list" where
  "store_metrics m addr [] = []"
| "store_metrics m addr (b # bs) =
     (if an_dest b = addr
      then (case l_direction (m_labels m) of
              Rx \<Rightarrow> b\<lparr>an_rx_metrics := Some m\<rparr>
            | Tx \<Rightarrow> b\<lparr>an_tx_metrics := Some m\<rparr>) # bs
      else b # store_metrics m addr bs)"

definition handle_metrics :: "metrics \<Rightarrow> 't orch \<Rightarrow> 't orch" where
  "handle_metrics m s =
     (case (l_peer_id (m_labels m), l_remote_addr (m_labels m)) of
        (Some pid, Some addr) \<Rightarrow>
          (case map_of (or_peers s) pid of
             None \<Rightarrow> s
           | Some e \<Rightarrow> s\<lparr>or_peers := AList.update pid (e\<lparr>pe_bounds := store_metrics m addr (pe_bounds e)\<rparr>) (or_peers s)\<rparr>)
      | _ \<Rightarrow> s\<lparr>or_non_peer_metrics := (or_non_peer_metrics s)(m_labels m \<mapsto> m)\<rparr>)"

section \<open>Supervision and events\<close>

definition handle_actor_exit :: "'t orch_env \<Rightarrow> actor_exit \<Rightarrow> 't orch \<Rightarrow> (error_chain, 't orch) result" where
  "handle_actor_exit E exit s =
     (case x_policy exit of
        Critical \<Rightarrow>
          Err (case x_result exit of
                 Ok (Err actor_error) \<Rightarrow> [''critical actor `'' @ x_name exit @ ''` failed'', actor_error]
               | Ok (Ok _) \<Rightarrow> [''critical actor `'' @ x_name exit @ ''` exited unexpectedly'']
               | Err error \<Rightarrow> [''join critical actor `'' @ x_name exit @ ''`'', error])
      | Restartable \<Rightarrow> Ok (reconcile E s)
      | Detached \<Rightarrow> Ok s)"

text \<open>\<open>Stop\<close> never reaches \<open>handle_event\<close>; the loop below handles it.\<close>

definition handle_event :: "'t orch_env \<Rightarrow> 't event \<Rightarrow> 't orch \<Rightarrow> (error_chain, 't orch) result" where
  "handle_event E message s =
     (case message of
        ActorExited exit \<Rightarrow> handle_actor_exit E exit s
      | DnsSnapshot state \<Rightarrow> Ok (handle_dns_snapshot E state s)
      | GetConfig reply_tx \<Rightarrow> Ok (or_reply reply_tx (ConfigReply (config_snapshot s)) s)
      | PostConfig peers reply_tx \<Rightarrow>
          (let (result, s) = handle_post_config peers s
           in Ok (or_reply reply_tx (PeersReply (case result of Ok _ \<Rightarrow> Ok (config_snapshot s) | Err e \<Rightarrow> Err e)) s))
      | DeleteConfig ids reply_tx \<Rightarrow>
          (let s = handle_delete_config ids s
           in Ok (or_reply reply_tx (PeersReply (Ok (config_snapshot s))) s))
      | GetMetricsSnapshot reply_tx \<Rightarrow> Ok (or_reply reply_tx (MetricsReply (collect_metrics_snapshot s)) s)
      | MetricsEvent m \<Rightarrow> Ok (handle_metrics m s)
      | Connected event \<Rightarrow> Ok (handle_connected E event s)
      | DialFailed event \<Rightarrow> Ok (handle_dial_failed E event s)
      | _ \<Rightarrow> Ok s)"

section \<open>The loop\<close>

text \<open>
  The arms of the loop: the next message of the inbox, the two tickers, the result of driving the bus, and
  the shutdown signal. An arm that is not ready leaves the state as it is.
\<close>

datatype orch_arm = OrInbox | OrReconcile | OrMetricsLog | OrDrive "string option" | OrSignal

definition or_inbox :: "'t orch \<Rightarrow> 't event list" where
  "or_inbox s = (case b_actors (or_bus s) (or_ctx s) of Some a \<Rightarrow> ac_inbox a | None \<Rightarrow> [])"

definition or_pop :: "'t orch \<Rightarrow> 't orch" where
  "or_pop s = s\<lparr>or_bus := upd_actor (or_ctx s) (\<lambda>a. a\<lparr>ac_inbox := drop 1 (ac_inbox a)\<rparr>) (or_bus s)\<rparr>"

definition orch_step :: "'t orch_env \<Rightarrow> orch_arm \<Rightarrow> 't orch \<Rightarrow> 't orch" where
  "orch_step E arm s =
     (if or_exit s \<noteq> None then s else
      case arm of
        OrInbox \<Rightarrow>
          (case or_inbox s of
             [] \<Rightarrow> s
           | Stop # _ \<Rightarrow> (or_pop s)\<lparr>or_exit := Some (Ok ())\<rparr>
           | message # _ \<Rightarrow>
               (case handle_event E message (or_pop s) of
                  Ok s' \<Rightarrow> s'
                | Err e \<Rightarrow> (or_pop s)\<lparr>or_exit := Some (Err e)\<rparr>))
      | OrReconcile \<Rightarrow> reconcile E s
      | OrMetricsLog \<Rightarrow> s
      | OrDrive None \<Rightarrow> s
      | OrDrive (Some e) \<Rightarrow> s\<lparr>or_exit := Some (Err [''drive actor bus'', e])\<rparr>
      | OrSignal \<Rightarrow> s\<lparr>or_exit := Some (Ok ())\<rparr>)"

section \<open>Construction\<close>

definition spawn_tun_tx :: "chan \<Rightarrow> tun_writer \<Rightarrow> 't bus \<Rightarrow> 't bus \<times> chan" where
  "spawn_tun_tx ctx w b = actor_spawn ctx (''tun-tx['' @ twr_name w @ '']'') Critical b"

definition spawn_tun_rx :: "chan \<Rightarrow> tun_reader \<Rightarrow> 't bus \<Rightarrow> 't bus \<times> chan" where
  "spawn_tun_rx ctx r b = actor_spawn ctx (''tun-rx['' @ trd_name r @ '']'') Critical b"

definition spawn_router :: "chan \<Rightarrow> 't bus \<Rightarrow> 't bus \<times> chan" where
  "spawn_router ctx b = actor_spawn ctx ''router'' Critical b"

definition spawn_route :: "chan \<Rightarrow> 't bus \<Rightarrow> 't bus \<times> chan" where
  "spawn_route ctx b = actor_spawn ctx ''route-sync'' Critical b"

definition spawn_api :: "(socket_addr \<Rightarrow> string) \<Rightarrow> chan \<Rightarrow> socket_addr \<Rightarrow> 't bus \<Rightarrow> 't bus \<times> chan" where
  "spawn_api show_addr ctx addr b = actor_spawn ctx (''api['' @ show_addr addr @ '']'') Critical b"

text \<open>The calls of the set-up that may fail; \<open>None\<close> stands for success.\<close>

record 'd new_sys =
  ns_runtimes :: "string option"
  ns_tun_join :: "string option"
  ns_device :: "'d device_lib"
  ns_sys :: sys_calls
  ns_udp_init :: "sock \<Rightarrow> nat \<Rightarrow> bool \<Rightarrow> (udp_error, udp_rx \<times> udp_tx) result"
  ns_udp_join :: "string option"
  ns_listener :: listener_sys
  ns_config :: config_lib
  ns_lookup :: "string \<Rightarrow> (string, socket_addr list) result"
  ns_make_route :: "string option"
  ns_make_api :: "socket_addr \<Rightarrow> string option"
  ns_show_addr :: "socket_addr \<Rightarrow> string"
  ns_local_name :: "sock \<Rightarrow> string"

definition new_bare_rx ::
  "'d new_sys \<Rightarrow> config \<Rightarrow> chan \<Rightarrow> chan \<Rightarrow> 't bus \<Rightarrow> (error_chain, 't bus \<times> chan option) result" where
  "new_bare_rx S cfg ctx ingress_tx b =
     (case lc_bare (cfg_local cfg) of
        None \<Rightarrow> Ok (b, None)
      | Some local_bare \<Rightarrow>
          (case resolve_listen_addr (ns_lookup S) (udp_host (lbare_listen local_bare)) (udp_port (lbare_listen local_bare)) of
             Err e \<Rightarrow> Err e
           | Ok listen_addr \<Rightarrow>
               (case make_bare_rx (ns_sys S) (ns_udp_init S) (ns_udp_join S) listen_addr (tun_mtu (lc_tun (cfg_local cfg))) {}
                       ingress_tx (cfg_tuning cfg) of
                  Err e \<Rightarrow> Err [''set up BareUDP listener on '' @ ns_show_addr S listen_addr, show_udp_error e]
                | Ok grp \<Rightarrow>
                    let (b, r) = spawn_bare_rx (ns_local_name S) ctx grp b in Ok (b, Some r))))"

fun show_server_error :: "server_error \<Rightarrow> string" where
  "show_server_error (ServerSocket e) = ''socket: '' @ e"
| "show_server_error (ServerConfig e) = ''config: '' @ e"
| "show_server_error (ServerWatcher e) = ''certificate watcher: '' @ e"
| "show_server_error (ServerAccept e) = ''accept: '' @ e"

definition new_h3_listener ::
  "'d new_sys \<Rightarrow> config \<Rightarrow> chan \<Rightarrow> 't bus \<Rightarrow> (error_chain, 't bus \<times> chan option) result" where
  "new_h3_listener S cfg ctx b =
     (case lc_h3 (cfg_local cfg) of
        None \<Rightarrow> Ok (b, None)
      | Some h3_cfg \<Rightarrow>
          (case resolve_listen_addr (ns_lookup S) (h3e_host (lh3_listen h3_cfg)) (h3e_port (lh3_listen h3_cfg)) of
             Err e \<Rightarrow> Err e
           | Ok listen_addr \<Rightarrow>
               (case make_h3_dispatcher (ns_sys S) (ns_listener S) (ns_config S) (ns_udp_init S) (ns_udp_join S) listen_addr
                       (lh3_cert h3_cfg) (lh3_key h3_cfg) (tun_mtu (lc_tun (cfg_local cfg))) (t_io (cfg_tuning cfg)) (t_h3 (cfg_tuning cfg)) of
                  Err e \<Rightarrow> Err [''set up HTTP/3 listener on '' @ ns_show_addr S listen_addr, show_server_error e]
                | Ok grp \<Rightarrow>
                    let (b, r) = spawn_h3_dispatcher (ns_show_addr S) (ns_local_name S) ctx grp b in Ok (b, Some r))))"

definition new_api :: "'d new_sys \<Rightarrow> config \<Rightarrow> chan \<Rightarrow> 't bus \<Rightarrow> (error_chain, 't bus) result" where
  "new_api S cfg ctx b =
     (case lc_api (cfg_local cfg) of
        None \<Rightarrow> Ok b
      | Some api \<Rightarrow>
          (case resolve_listen_addr (ns_lookup S) (api_host (lapi_listen api)) (api_port (lapi_listen api)) of
             Err e \<Rightarrow> Err e
           | Ok addr \<Rightarrow>
               (case ns_make_api S addr of
                  Some e \<Rightarrow> Err [''bind management API to '' @ ns_show_addr S addr, e]
                | None \<Rightarrow> Ok (fst (spawn_api (ns_show_addr S) ctx addr b)))))"

definition new_peers :: "peer list \<Rightarrow> peer_table" where
  "new_peers peers = fold (\<lambda>p ps. AList.update (peer_id p) (peer_entry_new p) ps) peers []"

definition new_tun :: "'d new_sys \<Rightarrow> config \<Rightarrow> (error_chain, 't bus \<times> chan \<times> chan \<times> chan) result" where
  "new_tun S cfg =
     (case ns_runtimes S of
        Some e \<Rightarrow> Err [''initialize actor runtimes'', e]
      | None \<Rightarrow>
     (case ns_tun_join S of
        Some e \<Rightarrow> Err [''join TUN setup task'', e]
      | None \<Rightarrow>
     (case make_tun (ns_device S) (lc_tun (cfg_local cfg)) (tun_tx_queue_len (t_io (cfg_tuning cfg))) (tun_enable_offload (t_io (cfg_tuning cfg))) of
        Err (DeviceBuild e) \<Rightarrow> Err [''set up TUN device'', ''failed to build TUN device: '' @ e]
      | Ok (_, tun_reader, tun_writer) \<Rightarrow>
          (let (b, ctx) = bus_mailbox ''orchestrator'' bus_new;
               (b, input_tx) = spawn_tun_tx ctx tun_writer b;
               (b, router) = spawn_router ctx b;
               (b, _) = spawn_tun_rx ctx tun_reader b
           in Ok (b, ctx, input_tx, router)))))"

definition new_route :: "'d new_sys \<Rightarrow> config \<Rightarrow> chan \<Rightarrow> 't bus \<Rightarrow> 't bus \<times> chan option" where
  "new_route S cfg ctx b =
     (if lc_table (cfg_local cfg)
      then (case ns_make_route S of
              None \<Rightarrow> (let (b, r) = spawn_route ctx b in (b, Some r))
            | Some err \<Rightarrow> (b, None))
      else (b, None))"

definition orch_new :: "'d new_sys \<Rightarrow> config \<Rightarrow> (error_chain, 't orch) result" where
  "orch_new S cfg =
     (case new_tun S cfg of
        Err e \<Rightarrow> Err e
      | Ok (b, ctx, input_tx, router) \<Rightarrow>
     (case new_bare_rx S cfg ctx router b of
        Err e \<Rightarrow> Err e
      | Ok (b, bare_rx) \<Rightarrow>
     (case new_h3_listener S cfg ctx b of
        Err e \<Rightarrow> Err e
      | Ok (b, h3_listener) \<Rightarrow>
     (let (b, dns) = spawn_dns (ns_show_addr S) (lc_dns (cfg_local cfg)) ctx b;
          (b, route) = new_route S cfg ctx b
      in case new_api S cfg ctx b of
        Err e \<Rightarrow> Err e
      | Ok b \<Rightarrow>
          Ok (sync_peers_to_actors
            \<lparr>or_ctx = ctx, or_bus = b, or_tun_if = tun_ifname (lc_tun (cfg_local cfg)), or_tun_mtu = tun_mtu (lc_tun (cfg_local cfg)),
             or_tuning = cfg_tuning cfg, or_peers = new_peers (cfg_peers cfg), or_router = router, or_ingress_tx = router,
             or_bare_rx = bare_rx, or_h3_listener = h3_listener, or_dns = dns, or_route = route, or_input_tx = input_tx,
             or_local = cfg_local cfg, or_non_peer_metrics = Map.empty, or_dialing = [], or_replies = [], or_built = [],
             or_exit = None\<rparr>)))))"

section \<open>Pruning and dialling\<close>

lemma prune_entry [simp]:
  "pe_config (fst (prune c e)) = pe_config e" "pe_resolved_ips (fst (prune c e)) = pe_resolved_ips e"
  "pe_bounds (fst (prune c e)) = filter (bound_valid c e) (pe_bounds e)"
  "pe_dials (fst (prune c e)) = pe_dials e |` pe_resolved_ips e"
  by (simp_all add: prune_def Let_def)

lemma prune_changed: "snd (prune c e) \<longleftrightarrow> preferred_tx (fst (prune c e)) \<noteq> preferred_tx e"
  by (auto simp: prune_def Let_def split: option.split)

definition order_ok :: "'t orch_env \<Rightarrow> bool" where
  "order_ok E \<longleftrightarrow> (\<forall>S. finite S \<longrightarrow> set (oe_order E S) = S \<and> distinct (oe_order E S))"

definition dial_marked :: "time \<Rightarrow> dial_state option \<Rightarrow> dial_state" where
  "dial_marked now d = (case d of Some st \<Rightarrow> st\<lparr>dl_in_flight := True\<rparr> | None \<Rightarrow> new_in_flight now)"

lemma dial_marked_in_flight [simp]: "dl_in_flight (dial_marked now d)"
  by (simp add: dial_marked_def new_in_flight_def split: option.split)

lemma dial_marked_again [simp]: "dial_marked now (Some (dial_marked now d)) = dial_marked now d"
  by (simp add: dial_marked_def new_in_flight_def split: option.split)

text \<open>Spawning an actor adds one at a fresh address, owned by the orchestrator, and leaves every other alone.\<close>

definition bus_extends :: "chan \<Rightarrow> 't bus \<Rightarrow> 't bus \<Rightarrow> bool" where
  "bus_extends ctx b b' \<longleftrightarrow> fresh_inv b' \<and> (\<forall>r. b_actors b r \<noteq> None \<longrightarrow> b_actors b' r = b_actors b r) \<and>
     (\<forall>r a. b_actors b r = None \<longrightarrow> b_actors b' r = Some a \<longrightarrow> ac_owner a = ctx)"

definition owned :: "chan \<Rightarrow> 't bus \<Rightarrow> chan \<Rightarrow> bool" where
  "owned ctx b r \<longleftrightarrow> (\<exists>a. b_actors b r = Some a \<and> ac_owner a = ctx)"

lemma bus_extends_refl: "fresh_inv b \<Longrightarrow> bus_extends ctx b b"
  by (simp add: bus_extends_def)

lemma bus_extends_trans: "bus_extends ctx b c \<Longrightarrow> bus_extends ctx c d \<Longrightarrow> bus_extends ctx b d"
  unfolding bus_extends_def by (metis option.exhaust)

lemma owned_extends: "owned ctx b r \<Longrightarrow> bus_extends x b b' \<Longrightarrow> owned ctx b' r"
  unfolding owned_def bus_extends_def by (metis option.distinct(1))

lemma actor_spawn_extends:
  assumes "owned ctx b ctx" "fresh_inv b"
  shows "bus_extends ctx b (fst (actor_spawn ctx nm policy b))"
proof -
  have "b_actors b (b_next b) = None" using assms(2) unfolding fresh_inv_def by (metis less_irrefl option.exhaust)
  then show ?thesis
    using assms by (auto simp: actor_spawn_def bus_extends_def owned_def fresh_inv_def less_Suc_eq)
qed

text \<open>
  A dial that has not reported belongs to the orchestrator, and it is running or its task has crashed: the
  body of the task reports before it returns, so without a report it can only fail to join.
\<close>

definition dial_pending :: "chan \<Rightarrow> 't bus \<Rightarrow> dial_task \<Rightarrow> bool" where
  "dial_pending ctx b t \<longleftrightarrow> (\<exists>a. b_actors b (dt_ref t) = Some a \<and> ac_owner a = ctx \<and>
     (ac_result a = None \<or> (\<exists>x. ac_result a = Some (Err x))))"

lemma dial_pending_extends: "dial_pending ctx b t \<Longrightarrow> bus_extends x b b' \<Longrightarrow> dial_pending ctx b' t"
  unfolding dial_pending_def bus_extends_def by (metis option.distinct(1))

lemma dial_pending_send: "dial_pending ctx b t \<Longrightarrow> dial_pending ctx (fst (actor_send r ev b)) t"
  by (cases "b_actors b (dt_ref t)"; cases "r = dt_ref t") (auto simp: dial_pending_def deliver_event_def)

lemma actor_spawn_pending:
  "owned ctx b ctx \<Longrightarrow> snd (actor_spawn ctx nm policy b) = dt_ref t \<Longrightarrow> dial_pending ctx (fst (actor_spawn ctx nm policy b)) t"
  by (auto simp: actor_spawn_def owned_def dial_pending_def)

lemma actor_spawn_owned: "owned ctx b ctx \<Longrightarrow> owned ctx (fst (actor_spawn ctx nm policy b)) (snd (actor_spawn ctx nm policy b))"
  by (auto simp: actor_spawn_def owned_def)

definition task_about :: "peer_entry \<Rightarrow> ip_addr \<Rightarrow> dial_task \<Rightarrow> bool" where
  "task_about e ip t \<longleftrightarrow> dc_peer_id (dt_context t) = peer_id (pe_config e) \<and> dc_dial_ip (dt_context t) = ip \<and>
     dt_transport t = peer_transport (pe_config e)"

text \<open>What a run of \<open>start_dial\<close> leaves: the entry marked, the tasks appended, the bus extended.\<close>

definition dials_started ::
  "time \<Rightarrow> chan \<Rightarrow> ip_addr list \<Rightarrow> peer_entry \<times> 't bus \<times> dial_task list \<Rightarrow> peer_entry \<times> 't bus \<times> dial_task list \<Rightarrow> bool" where
  "dials_started now ctx targets st st' \<longleftrightarrow>
     (\<exists>new. snd (snd st') = snd (snd st) @ new \<and> list_all2 (task_about (fst st)) targets new \<and>
        (\<forall>t\<in>set new. dial_pending ctx (fst (snd st')) t)) \<and>
     fst st' = (fst st)\<lparr>pe_dials := (\<lambda>ip. if ip \<in> set targets then Some (dial_marked now (pe_dials (fst st) ip)) else pe_dials (fst st) ip)\<rparr> \<and>
     bus_extends ctx (fst (snd st)) (fst (snd st'))"

lemma start_dial_started:
  assumes "owned (da_ctx A) b (da_ctx A)" "fresh_inv b"
  shows "dials_started (oe_now E) (da_ctx A) [ip] (e, b, tasks) (start_dial E A ip (e, b, tasks))"
proof -
  let ?e = "e\<lparr>pe_dials := (pe_dials e)(ip \<mapsto> dial_marked (oe_now E) (pe_dials e ip))\<rparr>"
  let ?d = "\<lparr>dc_peer_id = peer_id (pe_config e), dc_dial_ip = ip, dc_tun_if = da_tun_if A, dc_tun_mtu = da_tun_mtu A, dc_tuning = da_tuning A\<rparr>"
  let ?sp = "actor_spawn (da_ctx A) (dial_name E (peer_transport (pe_config e)) ?d) Detached b"
  have eq: "start_dial E A ip (e, b, tasks) =
      (?e, fst ?sp, tasks @ [\<lparr>dt_ref = snd ?sp, dt_transport = peer_transport (pe_config e), dt_context = ?d\<rparr>])"
    by (simp add: start_dial_def dial_marked_def Let_def case_prod_beta)
  have "?e = e\<lparr>pe_dials := (\<lambda>x. if x \<in> set [ip] then Some (dial_marked (oe_now E) (pe_dials e x)) else pe_dials e x)\<rparr>"
    by (auto intro!: arg_cong [where f = "\<lambda>d. e\<lparr>pe_dials := d\<rparr>"])
  then show ?thesis
    unfolding eq dials_started_def fst_conv snd_conv
    using actor_spawn_extends [OF assms] actor_spawn_pending [OF assms(1)] by (simp add: task_about_def)
qed

lemma dials_started_trans:
  assumes "dials_started now ctx [ip] st st1" "dials_started now ctx targets st1 st2"
  shows "dials_started now ctx (ip # targets) st st2"
proof -
  obtain new1 where 1: "snd (snd st1) = snd (snd st) @ new1" "list_all2 (task_about (fst st)) [ip] new1"
      "\<forall>t\<in>set new1. dial_pending ctx (fst (snd st1)) t"
    using assms(1) unfolding dials_started_def by blast
  obtain new2 where 2: "snd (snd st2) = snd (snd st1) @ new2" "list_all2 (task_about (fst st1)) targets new2"
      "\<forall>t\<in>set new2. dial_pending ctx (fst (snd st2)) t"
    using assms(2) unfolding dials_started_def by blast
  have e1: "fst st1 = (fst st)\<lparr>pe_dials := (\<lambda>x. if x \<in> set [ip] then Some (dial_marked now (pe_dials (fst st) x)) else pe_dials (fst st) x)\<rparr>"
    and x1: "bus_extends ctx (fst (snd st)) (fst (snd st1))"
    using assms(1) unfolding dials_started_def by blast+
  have e2: "fst st2 = (fst st1)\<lparr>pe_dials := (\<lambda>x. if x \<in> set targets then Some (dial_marked now (pe_dials (fst st1) x)) else pe_dials (fst st1) x)\<rparr>"
    and x2: "bus_extends ctx (fst (snd st1)) (fst (snd st2))"
    using assms(2) unfolding dials_started_def by blast+
  have "task_about (fst st1) = task_about (fst st)" unfolding e1 task_about_def by (simp add: fun_eq_iff)
  with 1 2 have "list_all2 (task_about (fst st)) (ip # targets) (new1 @ new2)"
    by (metis append_Cons append_Nil list_all2_appendI)
  moreover have "\<forall>t\<in>set (new1 @ new2). dial_pending ctx (fst (snd st2)) t"
    using 1(3) 2(3) dial_pending_extends [OF _ x2] by auto
  moreover have "fst st2 = (fst st)\<lparr>pe_dials := (\<lambda>x. if x \<in> set (ip # targets) then Some (dial_marked now (pe_dials (fst st) x)) else pe_dials (fst st) x)\<rparr>"
    unfolding e2 e1 by (auto intro!: arg_cong [where f = "\<lambda>d. (fst st)\<lparr>pe_dials := d\<rparr>"])
  ultimately show ?thesis
    unfolding dials_started_def using bus_extends_trans [OF x1 x2] 1(1) 2(1) by auto
qed

lemma start_dials_started:
  assumes "owned (da_ctx A) b (da_ctx A)" "fresh_inv b"
  shows "dials_started (oe_now E) (da_ctx A) targets (e, b, tasks) (fold (start_dial E A) targets (e, b, tasks))"
  using assms
proof (induction targets arbitrary: e b tasks)
  case Nil
  then show ?case by (simp add: dials_started_def bus_extends_refl)
next
  case (Cons ip targets)
  obtain e1 b1 t1 where s: "start_dial E A ip (e, b, tasks) = (e1, b1, t1)" by (metis prod_cases3)
  have st: "dials_started (oe_now E) (da_ctx A) [ip] (e, b, tasks) (e1, b1, t1)"
    using start_dial_started [OF Cons.prems] unfolding s [symmetric] .
  then have x: "bus_extends (da_ctx A) b b1" by (simp add: dials_started_def)
  then have "owned (da_ctx A) b1 (da_ctx A)" "fresh_inv b1"
    using owned_extends [OF Cons.prems(1)] by (simp_all add: bus_extends_def)
  from dials_started_trans [OF st Cons.IH [OF this]] show ?case by (simp add: s)
qed

lemma try_connect_started:
  assumes "owned (da_ctx A) b (da_ctx A)" "fresh_inv b"
  shows "dials_started (oe_now E) (da_ctx A) (if pe_resolved_ips e = {} then [] else uncovered E e) (e, b, tasks) (try_connect E A (e, b, tasks))"
  using start_dials_started [OF assms, of E "uncovered E e"] start_dials_started [OF assms, of E "[]"] by (simp add: try_connect_def)

lemma uncovered_iff:
  assumes "order_ok E" "finite (pe_resolved_ips e)"
  shows "set (uncovered E e) = {ip \<in> pe_resolved_ips e. (\<forall>b\<in>set (pe_bounds e). fst (an_dest b) \<noteq> ip) \<and> dialable (oe_now E) e ip} \<and>
    distinct (uncovered E e)"
  using assms unfolding order_ok_def uncovered_def Let_def by (fastforce intro: distinct_filter)

definition in_flight :: "peer_entry \<Rightarrow> ip_addr \<Rightarrow> bool" where
  "in_flight e ip \<longleftrightarrow> (\<exists>st. pe_dials e ip = Some st \<and> dl_in_flight st)"

definition lacks_conn :: "peer_entry \<Rightarrow> ip_addr \<Rightarrow> bool" where
  "lacks_conn e ip \<longleftrightarrow> ip \<in> pe_resolved_ips e \<and> (\<forall>b\<in>set (pe_bounds e). fst (an_dest b) \<noteq> ip)"

definition maintained :: "'t orch_env \<Rightarrow> dial_task list \<Rightarrow> peer_entry \<Rightarrow> peer_entry \<Rightarrow> bool" where
  "maintained E new e e' \<longleftrightarrow> pe_config e' = pe_config e \<and> pe_resolved_ips e' = pe_resolved_ips e \<and>
     pe_bounds e' = filter (bound_valid (oe_closed E) e) (pe_bounds e) \<and>
     (\<forall>ip. in_flight e' ip \<longrightarrow> in_flight e ip \<or> (\<exists>t\<in>set new. task_about e' ip t)) \<and>
     (order_ok E \<and> finite (pe_resolved_ips e) \<longrightarrow> (\<forall>ip. lacks_conn e ip \<longrightarrow>
        pe_dials e' ip = (if dialable (oe_now E) e ip then Some (dial_marked (oe_now E) (pe_dials e ip)) else pe_dials e ip)))"

lemma maintained_mono: "maintained E new e e' \<Longrightarrow> set new \<subseteq> set new' \<Longrightarrow> maintained E new' e e'"
  unfolding maintained_def by blast

lemma preferred_tx_cong: "pe_bounds e = pe_bounds e' \<Longrightarrow> preferred_tx e = preferred_tx e'"
  by (simp add: preferred_tx_def)

lemma maintain_entry:
  assumes "owned (da_ctx A) b (da_ctx A)" "fresh_inv b" "try_connect E A (fst (prune (oe_closed E) e), b, tasks) = (e', b', tasks')"
  shows "\<exists>new. tasks' = tasks @ new \<and> maintained E new e e' \<and> (\<forall>t\<in>set new. dial_pending (da_ctx A) b' t)"
    and "bus_extends (da_ctx A) b b'" and "snd (prune (oe_closed E) e) \<longleftrightarrow> preferred_tx e' \<noteq> preferred_tx e"
proof -
  let ?p = "fst (prune (oe_closed E) e)"
  let ?ts = "if pe_resolved_ips ?p = {} then [] else uncovered E ?p"
  have st: "dials_started (oe_now E) (da_ctx A) ?ts (?p, b, tasks) (e', b', tasks')"
    using try_connect_started [OF assms(1,2), of E ?p tasks] unfolding assms(3) .
  then obtain new where new: "tasks' = tasks @ new" "list_all2 (task_about ?p) ?ts new" "\<forall>t\<in>set new. dial_pending (da_ctx A) b' t"
    unfolding dials_started_def by auto
  have e': "e' = ?p\<lparr>pe_dials := (\<lambda>ip. if ip \<in> set ?ts then Some (dial_marked (oe_now E) (pe_dials ?p ip)) else pe_dials ?p ip)\<rparr>"
    and ext: "bus_extends (da_ctx A) b b'" using st unfolding dials_started_def fst_conv snd_conv by blast+
  have cfg: "pe_config e' = pe_config e" "pe_resolved_ips e' = pe_resolved_ips e"
    "pe_bounds e' = filter (bound_valid (oe_closed E) e) (pe_bounds e)"
    by (simp_all add: e' del: if_image_distrib)
  have "in_flight e ip \<or> (\<exists>t\<in>set new. task_about e' ip t)" if "in_flight e' ip" for ip
  proof (cases "ip \<in> set ?ts")
    case True
    with new(2) obtain t where "t \<in> set new" "task_about ?p ip t"
      unfolding list_all2_conv_all_nth in_set_conv_nth by metis
    moreover have "task_about ?p ip t = task_about e' ip t" for t using cfg by (simp add: task_about_def)
    ultimately show ?thesis by blast
  next
    case False
    then have "pe_dials e' ip = pe_dials ?p ip" unfolding e' by simp
    then show ?thesis using that by (auto simp: in_flight_def restrict_map_def split: if_splits)
  qed
  moreover have "pe_dials e' ip = (if dialable (oe_now E) e ip then Some (dial_marked (oe_now E) (pe_dials e ip)) else pe_dials e ip)"
    if "order_ok E" "finite (pe_resolved_ips e)" "lacks_conn e ip" for ip
  proof -
    have ip: "ip \<in> pe_resolved_ips e" "\<forall>b\<in>set (pe_bounds e). fst (an_dest b) \<noteq> ip" using that(3) by (auto simp: lacks_conn_def)
    have d: "pe_dials ?p ip = pe_dials e ip" "dialable (oe_now E) ?p ip = dialable (oe_now E) e ip" using ip(1) by (simp_all add: dialable_def)
    have "?ts = uncovered E ?p" using ip(1) by auto
    moreover have "ip \<in> set (uncovered E ?p) \<longleftrightarrow> dialable (oe_now E) e ip"
      using uncovered_iff [OF that(1), of ?p] that(2) ip d(2) by auto
    ultimately show ?thesis unfolding e' using d(1) by simp
  qed
  ultimately show "\<exists>new. tasks' = tasks @ new \<and> maintained E new e e' \<and> (\<forall>t\<in>set new. dial_pending (da_ctx A) b' t)"
    using cfg new unfolding maintained_def by blast
  show "bus_extends (da_ctx A) b b'" by (rule ext)
  have "preferred_tx e' = preferred_tx ?p" by (rule preferred_tx_cong) (simp add: cfg)
  then show "snd (prune (oe_closed E) e) \<longleftrightarrow> preferred_tx e' \<noteq> preferred_tx e" by (simp add: prune_changed)
qed

lemma maintain_spec:
  assumes "owned (da_ctx A) b (da_ctx A)" "fresh_inv b" "maintain E A upd ps (b, tasks) = (ps', changed, b', tasks')"
  shows "(\<exists>new. tasks' = tasks @ new \<and> (\<forall>t\<in>set new. dial_pending (da_ctx A) b' t) \<and>
      list_all2 (\<lambda>(pid, e) (pid', e'). pid' = pid \<and> maintained E new (upd e) e') ps ps') \<and>
    bus_extends (da_ctx A) b b' \<and>
    (changed \<longleftrightarrow> map (preferred_tx \<circ> snd) ps' \<noteq> map (preferred_tx \<circ> upd \<circ> snd) ps)"
  using assms
proof (induction ps arbitrary: b tasks ps' changed b' tasks')
  case Nil
  then show ?case by (auto simp: bus_extends_refl)
next
  case (Cons p ps)
  obtain pid e where p: "p = (pid, e)" by (cases p)
  obtain e1 b1 t1 where tc: "try_connect E A (fst (prune (oe_closed E) (upd e)), b, tasks) = (e1, b1, t1)" by (metis prod_cases3)
  obtain ps2 c2 b2 t2 where m: "maintain E A upd ps (b1, t1) = (ps2, c2, b2, t2)" by (metis prod_cases4)
  have res: "ps' = (pid, e1) # ps2" "changed \<longleftrightarrow> snd (prune (oe_closed E) (upd e)) \<or> c2" "b' = b2" "tasks' = t2"
    using Cons.prems(3) tc m by (auto simp: p case_prod_beta Let_def)
  note entry = maintain_entry [OF Cons.prems(1,2) tc]
  have "owned (da_ctx A) b1 (da_ctx A)" "fresh_inv b1"
    using entry(2) owned_extends [OF Cons.prems(1)] by (simp_all add: bus_extends_def)
  from Cons.IH [OF this m] obtain new2 where 2: "t2 = t1 @ new2" "\<forall>t\<in>set new2. dial_pending (da_ctx A) b2 t"
      "list_all2 (\<lambda>(pid, e) (pid', e'). pid' = pid \<and> maintained E new2 (upd e) e') ps ps2"
      "bus_extends (da_ctx A) b1 b2" "c2 \<longleftrightarrow> map (preferred_tx \<circ> snd) ps2 \<noteq> map (preferred_tx \<circ> upd \<circ> snd) ps" by blast
  from entry(1) obtain new1 where 1: "t1 = tasks @ new1" "maintained E new1 (upd e) e1" "\<forall>t\<in>set new1. dial_pending (da_ctx A) b1 t"
    by blast
  have "list_all2 (\<lambda>(pid, e) (pid', e'). pid' = pid \<and> maintained E (new1 @ new2) (upd e) e') (p # ps) ps'"
    using 2(3) 1(2) unfolding res(1) p
    by (auto intro!: maintained_mono [OF 1(2)] elim!: list_all2_mono intro: maintained_mono)
  moreover have "\<forall>t\<in>set (new1 @ new2). dial_pending (da_ctx A) b' t"
    using 1(3) 2(2) dial_pending_extends [OF _ 2(4)] unfolding res(3) by auto
  moreover have "changed \<longleftrightarrow> map (preferred_tx \<circ> snd) ps' \<noteq> map (preferred_tx \<circ> upd \<circ> snd) (p # ps)"
    using res(2) entry(3) 2(5) by (simp add: res(1) p)
  moreover have "tasks' = tasks @ new1 @ new2" using 1(1) 2(1) res(4) by simp
  ultimately show ?case using bus_extends_trans [OF entry(2) 2(4)] unfolding res(3) by blast
qed

section \<open>What the handlers leave alone\<close>

text \<open>
  A bus evolves when actors only receive more: no actor disappears or changes its owner, and the mailbox of
  the orchestrator stays open and keeps its unread messages.
\<close>

definition bus_evolves :: "chan \<Rightarrow> 't bus \<Rightarrow> 't bus \<Rightarrow> bool" where
  "bus_evolves ctx b b' \<longleftrightarrow> fresh_inv b' \<and> bus_grows b b' \<and>
     (\<forall>a. b_actors b ctx = Some a \<longrightarrow>
        (\<exists>a' evs. b_actors b' ctx = Some a' \<and> ac_result a' = ac_result a \<and> ac_inbox a' = ac_inbox a @ evs))"

lemma bus_evolves_refl: "fresh_inv b \<Longrightarrow> bus_evolves ctx b b"
  by (simp add: bus_evolves_def)

lemma bus_evolves_trans: "bus_evolves ctx b c \<Longrightarrow> bus_evolves ctx c d \<Longrightarrow> bus_evolves ctx b d"
  unfolding bus_evolves_def by (intro conjI) (simp, blast intro: bus_grows_trans, metis append.assoc)

lemma actor_send_evolves: "fresh_inv b \<Longrightarrow> bus_evolves ctx b (fst (actor_send r ev b))"
  unfolding bus_evolves_def
proof (intro conjI)
  assume "fresh_inv b"
  then show "fresh_inv (fst (actor_send r ev b))" by (auto simp: fresh_inv_def)
qed (auto simp: actor_send_grows deliver_event_def)

lemma bus_extends_evolves: "bus_extends ctx b b' \<Longrightarrow> bus_evolves x b b'"
  unfolding bus_extends_def bus_evolves_def bus_grows_def
  by (intro conjI) (simp, metis actor_grows_refl option.distinct(1), metis append_Nil2 option.distinct(1))

text \<open>The fields and tasks a handler keeps.\<close>

definition orch_frame :: "'t orch \<Rightarrow> 't orch \<Rightarrow> bool" where
  "orch_frame s s' \<longleftrightarrow> or_ctx s' = or_ctx s \<and> or_router s' = or_router s \<and> or_local s' = or_local s \<and> or_input_tx s' = or_input_tx s \<and>
     or_tuning s' = or_tuning s \<and> or_exit s' = or_exit s \<and> bus_evolves (or_ctx s) (or_bus s) (or_bus s') \<and>
     (\<forall>t\<in>set (or_dialing s). dial_pending (or_ctx s) (or_bus s) t \<longrightarrow> dial_pending (or_ctx s) (or_bus s') t) \<and>
     (\<exists>new. or_dialing s' = or_dialing s @ new \<and>
        (\<forall>t\<in>set new. dial_pending (or_ctx s) (or_bus s') t))"

definition bus_ok :: "'t orch \<Rightarrow> bool" where
  "bus_ok s \<longleftrightarrow> fresh_inv (or_bus s) \<and> (\<exists>a. b_actors (or_bus s) (or_ctx s) = Some a \<and> ac_owner a = or_ctx s \<and> ac_result a = None) \<and>
     or_router s \<in> dom (b_actors (or_bus s)) \<and>
     (\<forall>t\<in>set (or_dialing s). dial_pending (or_ctx s) (or_bus s) t)"

lemma orch_frame_refl: "bus_ok s \<Longrightarrow> orch_frame s s"
  by (simp add: orch_frame_def bus_ok_def bus_evolves_refl)

lemma evolves_owner:
  assumes "bus_evolves ctx b b'" "owned x b r"
  shows "owned x b' r"
  using assms unfolding owned_def bus_evolves_def bus_grows_def actor_grows_def by metis

lemma orch_frame_bus_ok:
  assumes "orch_frame s s'" "bus_ok s"
  shows "bus_ok s'"
proof -
  have ev: "bus_evolves (or_ctx s) (or_bus s) (or_bus s')" and [simp]: "or_ctx s' = or_ctx s" "or_router s' = or_router s"
    using assms(1) by (simp_all add: orch_frame_def)
  obtain new where new: "or_dialing s' = or_dialing s @ new"
      "\<forall>t\<in>set new. dial_pending (or_ctx s) (or_bus s') t"
    using assms(1) by (auto simp: orch_frame_def)
  obtain a where a: "b_actors (or_bus s) (or_ctx s) = Some a" "ac_owner a = or_ctx s" "ac_result a = None"
    using assms(2) by (auto simp: bus_ok_def)
  have "\<exists>a'. b_actors (or_bus s') (or_ctx s) = Some a' \<and> ac_owner a' = or_ctx s \<and> ac_result a' = None"
    using evolves_owner [OF ev, of "or_ctx s" "or_ctx s"] a ev unfolding bus_evolves_def owned_def by fastforce
  moreover have "\<forall>t\<in>set (or_dialing s). dial_pending (or_ctx s) (or_bus s') t"
    using assms unfolding bus_ok_def orch_frame_def by blast
  moreover have "or_router s \<in> dom (b_actors (or_bus s'))"
    using assms(2) dom_mono ev unfolding bus_ok_def bus_evolves_def by blast
  ultimately show ?thesis using new ev unfolding bus_ok_def bus_evolves_def by auto
qed

lemma orch_frame_trans:
  assumes "orch_frame s t" "orch_frame t u"
  shows "orch_frame s u"
proof -
  obtain n1 where 1: "or_dialing t = or_dialing s @ n1" "\<forall>t'\<in>set n1. dial_pending (or_ctx s) (or_bus t) t'"
    using assms(1) by (auto simp: orch_frame_def)
  obtain n2 where 2: "or_dialing u = or_dialing t @ n2" "\<forall>t'\<in>set n2. dial_pending (or_ctx s) (or_bus u) t'"
    using assms by (auto simp: orch_frame_def)
  have ctx: "or_ctx t = or_ctx s" and ev: "bus_evolves (or_ctx s) (or_bus t) (or_bus u)"
    using assms by (simp_all add: orch_frame_def)
  have keep: "\<forall>t'\<in>set (or_dialing t). dial_pending (or_ctx s) (or_bus t) t' \<longrightarrow> dial_pending (or_ctx s) (or_bus u) t'"
    using assms(2) ctx by (auto simp: orch_frame_def)
  then have "\<forall>t'\<in>set (n1 @ n2). dial_pending (or_ctx s) (or_bus u) t'" using 1 2(2) by auto
  moreover have "\<forall>t'\<in>set (or_dialing s). dial_pending (or_ctx s) (or_bus s) t' \<longrightarrow> dial_pending (or_ctx s) (or_bus u) t'"
    using keep 1(1) assms(1) by (auto simp: orch_frame_def)
  moreover have "or_dialing u = or_dialing s @ n1 @ n2" using 1(1) 2(1) by simp
  moreover have "bus_evolves (or_ctx s) (or_bus s) (or_bus u)"
    using assms(1) ev bus_evolves_trans unfolding orch_frame_def by blast
  ultimately show ?thesis using assms unfolding orch_frame_def by auto
qed

lemma or_send_frame: "bus_ok s \<Longrightarrow> orch_frame s (or_send r ev s)"
  by (simp add: orch_frame_def or_send_def bus_ok_def actor_send_evolves dial_pending_send)

lemma or_send_simps [simp]:
  "or_peers (or_send r ev s) = or_peers s" "or_built (or_send r ev s) = or_built s" "or_dialing (or_send r ev s) = or_dialing s"
  "or_local (or_send r ev s) = or_local s" "or_route (or_send r ev s) = or_route s" "or_dns (or_send r ev s) = or_dns s"
  "or_router (or_send r ev s) = or_router s" "or_input_tx (or_send r ev s) = or_input_tx s" "or_ctx (or_send r ev s) = or_ctx s"
  "or_exit (or_send r ev s) = or_exit s" "or_replies (or_send r ev s) = or_replies s" "or_h3_listener (or_send r ev s) = or_h3_listener s"
  by (simp_all add: or_send_def)

lemma or_send_frames: "orch_frame s t \<Longrightarrow> bus_ok s \<Longrightarrow> orch_frame s (or_send r ev t)"
  by (meson orch_frame_bus_ok orch_frame_trans or_send_frame)

lemma orch_frame_peers: "orch_frame s t \<Longrightarrow> orch_frame s (t\<lparr>or_peers := ps\<rparr>)"
  by (simp add: orch_frame_def)

lemma sync_peers_frame: "bus_ok s \<Longrightarrow> orch_frame s (sync_peers_to_actors s)"
  unfolding sync_peers_to_actors_def Let_def
  by (auto split: option.split intro: or_send_frames orch_frame_refl)

lemma update_accepted_frame: "bus_ok s \<Longrightarrow> orch_frame s (update_accepted_sources s)"
  unfolding update_accepted_sources_def by (auto split: option.split intro: or_send_frame orch_frame_refl)

lemma sync_peers_simps [simp]:
  "or_peers (sync_peers_to_actors s) = or_peers s" "or_built (sync_peers_to_actors s) = or_built s"
  by (simp_all add: sync_peers_to_actors_def Let_def split: option.split)

lemma update_accepted_simps [simp]:
  "or_peers (update_accepted_sources s) = or_peers s" "or_built (update_accepted_sources s) = or_built s"
  by (simp_all add: update_accepted_sources_def split: option.split)

lemma update_routing_simps [simp]:
  "or_peers (update_routing E s) = or_peers s"
  "or_built (update_routing E s) = or_built s @ [(peer_configs s, preferred_txs (or_peers s))]"
  by (simp_all add: update_routing_def Let_def split: option.split sum.split)

lemma update_routing_frame:
  assumes "bus_ok s"
  shows "orch_frame s (update_routing E s)"
proof -
  let ?s = "s\<lparr>or_built := or_built s @ [(peer_configs s, preferred_txs (or_peers s))]\<rparr>"
  have "orch_frame s ?s" "bus_ok ?s" using orch_frame_refl [OF assms] assms by (simp_all add: orch_frame_def bus_ok_def)
  with assms show ?thesis
    unfolding update_routing_def Let_def
    by (auto split: option.split sum.split intro: or_send_frames orch_frame_refl)
qed

lemma maintain_all_spec:
  assumes "bus_ok s" "maintain_all E upd s = (s', changed)"
  shows "orch_frame s s' \<and> or_built s' = or_built s \<and>
    (\<exists>new. or_dialing s' = or_dialing s @ new \<and>
      list_all2 (\<lambda>(pid, e) (pid', e'). pid' = pid \<and> maintained E new (upd e) e') (or_peers s) (or_peers s')) \<and>
    (changed \<longleftrightarrow> map (preferred_tx \<circ> snd) (or_peers s') \<noteq> map (preferred_tx \<circ> upd \<circ> snd) (or_peers s))"
proof -
  obtain ps c b tasks where m: "maintain E (dial_args_of s) upd (or_peers s) (or_bus s, or_dialing s) = (ps, c, b, tasks)"
    by (metis prod_cases4)
  have s': "s' = s\<lparr>or_peers := ps, or_bus := b, or_dialing := tasks\<rparr>" "changed = c"
    using assms(2) m by (simp_all add: maintain_all_def)
  have "owned (da_ctx (dial_args_of s)) (or_bus s) (da_ctx (dial_args_of s))" "fresh_inv (or_bus s)"
    using assms(1) by (auto simp: bus_ok_def owned_def dial_args_of_def)
  from maintain_spec [OF this m] obtain new where new: "tasks = or_dialing s @ new" "\<forall>t\<in>set new. dial_pending (or_ctx s) b t"
      "list_all2 (\<lambda>(pid, e) (pid', e'). pid' = pid \<and> maintained E new (upd e) e') (or_peers s) ps"
      "bus_extends (or_ctx s) (or_bus s) b" "c \<longleftrightarrow> map (preferred_tx \<circ> snd) ps \<noteq> map (preferred_tx \<circ> upd \<circ> snd) (or_peers s)"
    by (auto simp: dial_args_of_def)
  then have "orch_frame s s'" using bus_extends_evolves [OF new(4)] dial_pending_extends [OF _ new(4)] by (auto simp: s' orch_frame_def)
  with new s' show ?thesis by auto
qed

section \<open>The peer table\<close>

definition config_table :: "peer_table \<Rightarrow> (string \<times> peer) list" where
  "config_table ps = map (\<lambda>(pid, e). (pid, pe_config e)) ps"

definition table_ok :: "(string \<times> peer) list \<Rightarrow> bool" where
  "table_ok ct \<longleftrightarrow> distinct (map fst ct) \<and> (\<forall>(pid, p)\<in>set ct. peer_id p = pid) \<and> peers_valid (map snd ct)"

lemma peer_configs_table: "peer_configs s = map snd (config_table (or_peers s))"
  by (simp add: peer_configs_def config_table_def comp_def case_prod_beta)

lemma keys_config_table [simp]: "map fst (config_table ps) = map fst ps"
  by (simp add: config_table_def comp_def case_prod_beta)

lemma config_table_update: "map_of ps pid = Some e \<Longrightarrow> pe_config e' = pe_config e \<Longrightarrow> config_table (AList.update pid e' ps) = config_table ps"
  by (induction ps) (auto simp: config_table_def)

lemma map_of_config_table: "map_of (config_table ps) pid = map_option pe_config (map_of ps pid)"
  by (induction ps) (auto simp: config_table_def)

lemma config_table_update_any: "config_table (AList.update pid e ps) = AList.update pid (pe_config e) (config_table ps)"
  by (induction ps) (auto simp: config_table_def)

lemma config_table_upsert: "config_table (upsert_peer p ps) = AList.update (peer_id p) p (config_table ps)"
  by (simp add: upsert_peer_def config_table_update_any peer_entry_new_def split: option.split)

lemma config_table_upserts: "config_table (fold upsert_peer new ps) = merge_peers new (config_table ps)"
  by (induction new arbitrary: ps) (simp_all add: merge_peers_def config_table_upsert)

lemma config_table_delete: "config_table (fold AList.delete ids ps) = fold AList.delete ids (config_table ps)"
proof (induction ids arbitrary: ps)
  case (Cons i ids)
  have "config_table (AList.delete i ps) = AList.delete i (config_table ps)"
    by (induction ps) (auto simp: config_table_def)
  then show ?case using Cons by simp
qed simp

lemma config_table_maintained:
  assumes "list_all2 (\<lambda>(pid, e) (pid', e'). pid' = pid \<and> maintained E new (upd e) e') ps ps'" "\<And>e. pe_config (upd e) = pe_config e"
  shows "config_table ps' = config_table ps"
  using assms(1) by (induction rule: list_all2_induct) (auto simp: config_table_def maintained_def assms(2))

lemma peers_valid_filter: "peers_valid ps \<Longrightarrow> peers_valid (filter P ps)"
proof -
  have "distinct (peer_tokens (filter P ps))" if "distinct (peer_tokens ps)"
    using that by (induction ps) (auto simp: peer_tokens_def set_map_filter split: option.splits)
  then show "peers_valid ps \<Longrightarrow> peers_valid (filter P ps)" by (auto simp: peers_valid_def intro: distinct_map_filter)
qed

lemma table_ok_delete:
  assumes "table_ok ct"
  shows "table_ok (fold AList.delete ids ct)"
  using assms
proof (induction ids arbitrary: ct)
  case (Cons i ids)
  have del: "AList.delete i ct = filter (\<lambda>(k, _). k \<noteq> i) ct" by (auto simp: AList.delete_eq intro!: filter_cong)
  have "map snd (filter (\<lambda>(k, _). k \<noteq> i) ct) = filter (\<lambda>p. peer_id p \<noteq> i) (map snd ct)"
    if "\<forall>(pid, p)\<in>set ct. peer_id p = pid" for ct :: "(string \<times> peer) list"
    using that by (induction ct) auto
  then have "table_ok (AList.delete i ct)"
    using Cons.prems peers_valid_filter unfolding table_ok_def del by (auto intro: distinct_map_filter)
  then show ?case using Cons.IH by simp
qed simp

lemma merge_peers_keys:
  assumes "distinct (map fst ct)" "\<forall>(pid, p)\<in>set ct. peer_id p = pid"
  shows "distinct (map fst (merge_peers new ct)) \<and> (\<forall>(pid, p)\<in>set (merge_peers new ct). peer_id p = pid)"
  using assms
proof (induction new arbitrary: ct)
  case (Cons p new)
  have "set (AList.update k v xs) \<subseteq> insert (k, v) (set xs)" for k :: string and v :: peer and xs
    by (induction xs) auto
  then have "\<forall>(pid, q)\<in>set (AList.update (peer_id p) p ct). peer_id q = pid" using Cons.prems(2) by fastforce
  then show ?case using Cons.IH [OF distinct_update [OF Cons.prems(1)]] by (simp add: merge_peers_def)
qed (simp add: merge_peers_def)

lemma handle_post_config_cases:
  assumes "handle_post_config new s = (result, s')" "table_ok (config_table (or_peers s))"
  shows "(\<exists>e. result = Err (Validation e) \<and> s' = s) \<or>
    (result = Ok () \<and> s' = sync_peers_to_actors (s\<lparr>or_peers := fold upsert_peer new (or_peers s)\<rparr>) \<and>
     table_ok (config_table (or_peers s')))"
proof (cases "validate_peers (map snd (merge_peers new (config_table (or_peers s))))")
  case (Inl e)
  then show ?thesis using assms(1) by (auto simp: handle_post_config_def Let_def config_table_def)
next
  case (Inr u)
  then have v: "peers_valid (map snd (merge_peers new (config_table (or_peers s))))" using validate_peers_iff by simp
  have "result = Ok ()" "s' = sync_peers_to_actors (s\<lparr>or_peers := fold upsert_peer new (or_peers s)\<rparr>)"
    using assms(1) Inr by (auto simp: handle_post_config_def Let_def config_table_def)
  moreover have "table_ok (merge_peers new (config_table (or_peers s)))"
    using merge_peers_keys assms(2) v unfolding table_ok_def by blast
  ultimately show ?thesis by (simp add: config_table_upserts)
qed

lemma update_bound_effect:
  assumes "bus_ok s"
  shows "orch_frame s (update_bound E pid ep dest tx s) \<and>
    (or_peers (update_bound E pid ep dest tx s) = or_peers s \<and> map_of (or_peers s) pid = None \<and>
       or_built (update_bound E pid ep dest tx s) = or_built s \<or>
     (\<exists>e e'. map_of (or_peers s) pid = Some e \<and> or_peers (update_bound E pid ep dest tx s) = AList.update pid e' (or_peers s) \<and>
        pe_config e' = pe_config e \<and>
        pe_dials e' = (if ep = None then pe_dials e else (pe_dials e)(fst dest := None)) |` pe_resolved_ips e \<and>
        (or_built (update_bound E pid ep dest tx s) = or_built s \<and> preferred_tx e' = preferred_tx e \<or>
         (\<exists>cfgs. or_built (update_bound E pid ep dest tx s) =
            or_built s @ [(cfgs, preferred_txs (or_peers (update_bound E pid ep dest tx s)))]))))"
proof (cases "map_of (or_peers s) pid")
  case None
  then show ?thesis using orch_frame_refl [OF assms] by (simp add: update_bound_def)
next
  case (Some e)
  let ?c = "\<lparr>an_endpoint = ep, an_dest = dest, an_tx = tx, an_rx_metrics = None, an_tx_metrics = None\<rparr>"
  let ?e0 = "if ep = None then e else e\<lparr>pe_dials := (pe_dials e)(fst dest := None)\<rparr>"
  let ?e1 = "?e0\<lparr>pe_bounds := pe_bounds e @ [?c]\<rparr>"
  let ?p = "prune (oe_closed E) ?e1"
  let ?s = "s\<lparr>or_peers := AList.update pid (fst ?p) (or_peers s)\<rparr>"
  have eq: "update_bound E pid ep dest tx s = (if pe_bounds e = [] \<or> snd ?p then update_routing E ?s else ?s)"
    using Some by (simp add: update_bound_def Let_def case_prod_beta)
  have fr: "orch_frame s ?s" "bus_ok ?s" using orch_frame_refl [OF assms] assms by (auto intro: orch_frame_peers simp: bus_ok_def)
  have pref: "preferred_tx (fst ?p) = preferred_tx e" if "pe_bounds e \<noteq> []" "\<not> snd ?p"
  proof -
    have "preferred_tx ?e1 = preferred_tx e" using that(1) by (cases "pe_bounds e") (simp_all add: preferred_tx_def)
    then show ?thesis using that(2) by (simp add: prune_changed)
  qed
  have p: "pe_config (fst ?p) = pe_config e"
    "pe_dials (fst ?p) = (if ep = None then pe_dials e else (pe_dials e)(fst dest := None)) |` pe_resolved_ips e"
    by auto
  show ?thesis
  proof (cases "pe_bounds e = [] \<or> snd ?p")
    case True
    then have u: "update_bound E pid ep dest tx s = update_routing E ?s" unfolding eq by simp
    have "orch_frame s (update_routing E ?s)" using fr update_routing_frame orch_frame_trans by blast
    moreover have "or_built (update_routing E ?s) = or_built s @ [(peer_configs ?s, preferred_txs (or_peers (update_routing E ?s)))]" by simp
    ultimately show ?thesis unfolding u using Some p by (auto simp del: prune_entry)
  next
    case False
    then have u: "update_bound E pid ep dest tx s = ?s" unfolding eq by simp
    show ?thesis unfolding u using Some fr(1) p pref False by (auto simp del: prune_entry)
  qed
qed

section \<open>One event\<close>

lemma or_reply_simps [simp]:
  "or_peers (or_reply c r s) = or_peers s" "or_built (or_reply c r s) = or_built s" "or_dialing (or_reply c r s) = or_dialing s"
  by (simp_all add: or_reply_def)

lemma or_reply_frame: "orch_frame s t \<Longrightarrow> orch_frame s (or_reply c r t)"
  by (simp add: orch_frame_def or_reply_def)

lemma reconcile_frame: "bus_ok s \<Longrightarrow> orch_frame s (reconcile E s)"
  using maintain_all_spec [of s E id] update_routing_frame orch_frame_bus_ok orch_frame_trans
  by (auto simp: reconcile_def Let_def split: prod.split) blast+

lemma handle_dns_frame:
  assumes "bus_ok s"
  shows "orch_frame s (handle_dns_snapshot E state s)"
proof -
  obtain s1 c where m: "maintain_all E (set_resolved state) s = (s1, c)" by fastforce
  have 1: "orch_frame s s1" using maintain_all_spec [OF assms m] by blast
  then have 2: "orch_frame s (update_accepted_sources s1)"
    using update_accepted_frame orch_frame_bus_ok assms orch_frame_trans by blast
  then show ?thesis
    unfolding handle_dns_snapshot_def m fst_conv using update_routing_frame orch_frame_bus_ok assms orch_frame_trans by blast
qed

lemma handle_post_frame: "bus_ok s \<Longrightarrow> orch_frame s (snd (handle_post_config new s))"
proof -
  assume b: "bus_ok s"
  have "orch_frame s (s\<lparr>or_peers := ps\<rparr>)" "bus_ok (s\<lparr>or_peers := ps\<rparr>)" for ps
    using orch_frame_refl [OF b] b by (auto intro: orch_frame_peers simp: bus_ok_def)
  then have "orch_frame s (sync_peers_to_actors (s\<lparr>or_peers := ps\<rparr>))" for ps
    using sync_peers_frame orch_frame_trans by blast
  then show ?thesis using orch_frame_refl [OF b] by (simp add: handle_post_config_def Let_def split: sum.split)
qed

lemma handle_delete_frame: "bus_ok s \<Longrightarrow> orch_frame s (handle_delete_config ids s)"
proof -
  assume b: "bus_ok s"
  let ?s = "s\<lparr>or_peers := fold AList.delete ids (or_peers s)\<rparr>"
  have "orch_frame s ?s" "bus_ok ?s" using orch_frame_refl [OF b] b by (auto intro: orch_frame_peers simp: bus_ok_def)
  then show ?thesis using sync_peers_frame orch_frame_trans by (auto simp: handle_delete_config_def Let_def)
qed

lemma handle_event_frame:
  assumes "handle_event E m s = Ok s'" "bus_ok s"
  shows "orch_frame s s'"
proof (cases m)
  case (ActorExited x)
  then show ?thesis
    using assms reconcile_frame orch_frame_refl
    by (auto simp: handle_event_def handle_actor_exit_def split: supervision_policy.splits)
next
  case (PostConfig new c)
  then show ?thesis using assms handle_post_frame [OF assms(2), of new] or_reply_frame by (auto simp: handle_event_def case_prod_beta Let_def)
next
  case (Connected ev)
  then have "s' = update_bound E (ce_peer_id ev) (ce_endpoint ev) (ce_remote_addr ev) (ce_tx ev) s"
    using assms(1) by (simp add: handle_event_def handle_connected_def)
  then show ?thesis using update_bound_effect [OF assms(2)] by blast
next
  case (DialFailed ev)
  then show ?thesis using assms orch_frame_refl
    by (auto simp: handle_event_def handle_dial_failed_def intro: orch_frame_peers split: option.splits)
next
  case (MetricsEvent mt)
  then show ?thesis using assms orch_frame_refl
    by (auto simp: handle_event_def handle_metrics_def orch_frame_def split: option.splits)
next
  case (DeleteConfig ids c)
  then show ?thesis using assms handle_delete_frame [OF assms(2), of ids] or_reply_frame by (auto simp: handle_event_def Let_def)
next
  case (DnsSnapshot st)
  then show ?thesis using assms handle_dns_frame by (auto simp: handle_event_def)
qed (use assms in \<open>auto simp: handle_event_def intro: or_reply_frame orch_frame_refl\<close>)

subsection \<open>The peer table stays valid\<close>

lemma maintain_all_table:
  assumes "bus_ok s" "\<And>e. pe_config (upd e) = pe_config e"
  shows "config_table (or_peers (fst (maintain_all E upd s))) = config_table (or_peers s)"
proof -
  obtain s1 c where m: "maintain_all E upd s = (s1, c)" by fastforce
  from maintain_all_spec [OF assms(1) m] config_table_maintained [where upd = upd, OF _ assms(2)] show ?thesis unfolding m by auto
qed

lemma reconcile_table: "bus_ok s \<Longrightarrow> config_table (or_peers (reconcile E s)) = config_table (or_peers s)"
  using maintain_all_table [of s id E] by (cases "maintain_all E id s") (simp add: reconcile_def)

lemma handle_event_table:
  assumes "handle_event E m s = Ok s'" "bus_ok s" "table_ok (config_table (or_peers s))"
  shows "table_ok (config_table (or_peers s'))"
proof (cases m)
  case (ActorExited x)
  then show ?thesis
    using assms reconcile_table [OF assms(2)] by (auto simp: handle_event_def handle_actor_exit_def split: supervision_policy.splits)
next
  case (PostConfig new c)
  obtain r t where p: "handle_post_config new s = (r, t)" by fastforce
  from handle_post_config_cases [OF p assms(3)] assms(3) have "table_ok (config_table (or_peers t))" by auto
  then show ?thesis using assms(1) PostConfig p by (auto simp: handle_event_def)
next
  case (Connected ev)
  then show ?thesis
    using assms update_bound_effect [OF assms(2), of E "ce_peer_id ev" "ce_endpoint ev" "ce_remote_addr ev" "ce_tx ev"] config_table_update
    by (auto simp: handle_event_def handle_connected_def)
next
  case (DialFailed ev)
  then show ?thesis using assms by (auto simp: handle_event_def handle_dial_failed_def config_table_update split: option.splits)
next
  case (MetricsEvent mt)
  then show ?thesis using assms by (auto simp: handle_event_def handle_metrics_def config_table_update split: option.splits)
next
  case (DeleteConfig ids c)
  then show ?thesis using assms table_ok_delete [OF assms(3)] config_table_delete
    by (auto simp: handle_event_def handle_delete_config_def Let_def split: if_splits)
next
  case (DnsSnapshot st)
  then show ?thesis using assms maintain_all_table [OF assms(2), of "set_resolved st" E]
    by (auto simp: handle_event_def handle_dns_snapshot_def set_resolved_def)
qed (use assms in \<open>auto simp: handle_event_def\<close>)

subsection \<open>Dials in flight\<close>

text \<open>The messages that settle a dial, and the dials that are still accounted for.\<close>

definition settles :: "'t event \<Rightarrow> string \<Rightarrow> ip_addr \<Rightarrow> bool" where
  "settles m pid ip \<longleftrightarrow> m = DialFailed \<lparr>df_peer_id = pid, df_ip = ip\<rparr> \<or>
     (\<exists>ev. m = Connected ev \<and> ce_peer_id ev = pid \<and> fst (ce_remote_addr ev) = ip \<and> ce_endpoint ev \<noteq> None)"

definition task_for :: "string \<Rightarrow> ip_addr \<Rightarrow> dial_task \<Rightarrow> bool" where
  "task_for pid ip t \<longleftrightarrow> dc_peer_id (dt_context t) = pid \<and> dc_dial_ip (dt_context t) = ip"

definition flights_from :: "'t event option \<Rightarrow> 't orch \<Rightarrow> 't orch \<Rightarrow> bool" where
  "flights_from m s s' \<longleftrightarrow> (\<forall>pid e' ip. (pid, e') \<in> set (or_peers s') \<and> in_flight e' ip \<longrightarrow>
     (\<exists>e. (pid, e) \<in> set (or_peers s) \<and> in_flight e ip \<and> (\<forall>msg. m = Some msg \<longrightarrow> \<not> settles msg pid ip)) \<or>
     (\<exists>t\<in>set (or_dialing s'). task_for pid ip t))"

lemma flights_same: "or_peers s' = or_peers s \<Longrightarrow> (\<And>msg pid ip. m = Some msg \<Longrightarrow> \<not> settles msg pid ip) \<Longrightarrow> flights_from m s s'"
  by (auto simp: flights_from_def)

lemma set_update:
  assumes "distinct (map fst ps)" "(k', v') \<in> set (AList.update k v ps)"
  shows "k' = k \<and> v' = v \<or> k' \<noteq> k \<and> (k', v') \<in> set ps"
  using assms by (induction ps) (auto split: if_splits, force)

lemma flights_update:
  assumes "distinct (map fst (or_peers s))" "map_of (or_peers s) pid = Some e" "or_peers s' = AList.update pid e' (or_peers s)"
    and "\<And>ip. in_flight e' ip \<Longrightarrow> in_flight e ip \<and> (\<forall>msg. m = Some msg \<longrightarrow> \<not> settles msg pid ip)"
    and "\<And>msg pid' ip. m = Some msg \<Longrightarrow> pid' \<noteq> pid \<Longrightarrow> \<not> settles msg pid' ip"
  shows "flights_from m s s'"
proof -
  have e: "(pid, e) \<in> set (or_peers s)" using assms(2) by (rule map_of_SomeD)
  show ?thesis unfolding flights_from_def assms(3)
  proof (intro allI impI disjI1, elim conjE)
    fix pid' f ip
    assume f: "(pid', f) \<in> set (AList.update pid e' (or_peers s))" "in_flight f ip"
    from set_update [OF assms(1) f(1)] show "\<exists>e. (pid', e) \<in> set (or_peers s) \<and> in_flight e ip \<and> (\<forall>msg. m = Some msg \<longrightarrow> \<not> settles msg pid' ip)"
    proof
      assume "pid' = pid \<and> f = e'"
      then show ?thesis using assms(4) f(2) e by blast
    next
      assume "pid' \<noteq> pid \<and> (pid', f) \<in> set (or_peers s)"
      then show ?thesis using f(2) assms(5) by blast
    qed
  qed
qed

lemma maintain_flights:
  assumes "bus_ok s" "maintain_all E upd s = (s', c)" "table_ok (config_table (or_peers s))"
    and "\<And>e. pe_config (upd e) = pe_config e" "\<And>e. pe_dials (upd e) = pe_dials e"
  shows "flights_from None s s'"
  unfolding flights_from_def
proof (intro allI impI, elim conjE)
  fix pid e' ip
  assume e': "(pid, e') \<in> set (or_peers s')" and fl: "in_flight e' ip"
  from maintain_all_spec [OF assms(1,2)] obtain new where new: "or_dialing s' = or_dialing s @ new"
      "list_all2 (\<lambda>(pid, e) (pid', e'). pid' = pid \<and> maintained E new (upd e) e') (or_peers s) (or_peers s')" by blast
  from e' obtain i where i: "i < length (or_peers s')" "or_peers s' ! i = (pid, e')" by (auto simp: in_set_conv_nth)
  obtain pid0 e where p: "or_peers s ! i = (pid0, e)" by fastforce
  with new(2) i have pid: "pid = pid0" and m: "maintained E new (upd e) e'" and len: "i < length (or_peers s)"
    by (auto simp: list_all2_conv_all_nth)
  then have e: "(pid, e) \<in> set (or_peers s)" using p by (metis nth_mem)
  then have "peer_id (pe_config e) = pid" using assms(3) by (fastforce simp: table_ok_def config_table_def)
  with m have id: "peer_id (pe_config e') = pid" by (simp add: maintained_def assms(4))
  from m fl have "in_flight (upd e) ip \<or> (\<exists>t\<in>set new. task_about e' ip t)" by (simp add: maintained_def)
  then show "(\<exists>e. (pid, e) \<in> set (or_peers s) \<and> in_flight e ip \<and> (\<forall>msg. None = Some msg \<longrightarrow> \<not> settles msg pid ip)) \<or>
      (\<exists>t\<in>set (or_dialing s'). task_for pid ip t)"
    using e id new(1) by (auto simp: in_flight_def assms(5) task_about_def task_for_def)
qed

lemma flights_message: "flights_from None s s' \<Longrightarrow> (\<And>pid ip. \<not> settles m pid ip) \<Longrightarrow> flights_from (Some m) s s'"
  by (simp add: flights_from_def)

lemma flights_cong: "flights_from m s t \<Longrightarrow> or_peers u = or_peers t \<Longrightarrow> or_dialing u = or_dialing t \<Longrightarrow> flights_from m s u"
  by (simp add: flights_from_def)

lemma dialing_simps [simp]:
  "or_dialing (update_routing E s) = or_dialing s" "or_dialing (update_accepted_sources s) = or_dialing s"
  "or_dialing (sync_peers_to_actors s) = or_dialing s"
  by (simp_all add: update_routing_def update_accepted_sources_def sync_peers_to_actors_def Let_def split: option.split sum.split)

lemma reconcile_flights:
  assumes "bus_ok s" "table_ok (config_table (or_peers s))"
  shows "flights_from None s (reconcile E s)"
proof -
  obtain s1 c where m: "maintain_all E id s = (s1, c)" by fastforce
  from maintain_flights [OF assms(1) m assms(2)] show ?thesis
    by (auto simp: reconcile_def m elim: flights_cong)
qed

lemma upsert_flights:
  assumes "distinct (map fst ps)" "(pid, e') \<in> set (fold upsert_peer new ps)" "in_flight e' ip"
  shows "\<exists>e. (pid, e) \<in> set ps \<and> in_flight e ip"
  using assms
proof (induction new arbitrary: ps)
  case (Cons p new)
  have "distinct (map fst (upsert_peer p ps))"
    using Cons.prems(1) by (simp add: upsert_peer_def distinct_update split: option.split)
  from Cons.IH [OF this] Cons.prems(2,3) obtain e where e: "(pid, e) \<in> set (upsert_peer p ps)" "in_flight e ip" by auto
  show ?case
  proof (cases "map_of ps (peer_id p)")
    case None
    with e set_update [OF Cons.prems(1)] show ?thesis
      by (auto simp: upsert_peer_def peer_entry_new_def in_flight_def dest!: set_update [OF Cons.prems(1)])
  next
    case (Some x)
    with e(1) have "pid = peer_id p \<and> e = x\<lparr>pe_config := p\<rparr> \<or> (pid, e) \<in> set ps"
      by (auto simp: upsert_peer_def dest!: set_update [OF Cons.prems(1)])
    then show ?thesis using e(2) map_of_SomeD [OF Some] by (auto simp: in_flight_def)
  qed
qed auto

lemma record_failure_lands: "\<not> dl_in_flight (record_failure now mn mx st)"
  by (simp add: record_failure_def Let_def)

lemma connected_flights:
  assumes "bus_ok s" "distinct (map fst (or_peers s))"
  shows "flights_from (Some (Connected ev)) s (handle_connected E ev s)"
proof -
  let ?s = "handle_connected E ev s"
  have only: "\<not> settles (Connected ev) pid' ip" if "pid' \<noteq> ce_peer_id ev" for pid' ip using that by (auto simp: settles_def)
  note effect = update_bound_effect [OF assms(1), of E "ce_peer_id ev" "ce_endpoint ev" "ce_remote_addr ev" "ce_tx ev"]
  from effect [folded handle_connected_def] consider "or_peers ?s = or_peers s" "map_of (or_peers s) (ce_peer_id ev) = None"
    | e e' where "map_of (or_peers s) (ce_peer_id ev) = Some e" "or_peers ?s = AList.update (ce_peer_id ev) e' (or_peers s)"
        "pe_dials e' = (if ce_endpoint ev = None then pe_dials e else (pe_dials e)(fst (ce_remote_addr ev) := None)) |` pe_resolved_ips e"
    by (elim conjE disjE exE) (rule that; assumption)+
  then show ?thesis
  proof cases
    case 1
    then have "pid \<noteq> ce_peer_id ev" if "(pid, e) \<in> set (or_peers s)" for pid e using that by (force simp: map_of_eq_None_iff)
    then show ?thesis using only unfolding flights_from_def 1(1) by blast
  next
    case 2
    show ?thesis
    proof (rule flights_update [OF assms(2) 2(1,2)])
      fix ip
      assume "in_flight e' ip"
      then have "in_flight e ip" "ce_endpoint ev = None \<or> ip \<noteq> fst (ce_remote_addr ev)"
        using 2(3) by (auto simp: in_flight_def restrict_map_def split: if_splits)
      then show "in_flight e ip \<and> (\<forall>msg. Some (Connected ev) = Some msg \<longrightarrow> \<not> settles msg (ce_peer_id ev) ip)"
        by (auto simp: settles_def)
    qed (use only in auto)
  qed
qed

lemma dial_failed_flights:
  assumes "distinct (map fst (or_peers s))"
  shows "flights_from (Some (DialFailed ev)) s (handle_dial_failed E ev s)"
proof -
  have only: "settles (DialFailed ev) pid ip \<longleftrightarrow> pid = df_peer_id ev \<and> ip = df_ip ev" for pid ip
    by (cases ev) (auto simp: settles_def)
  consider "map_of (or_peers s) (df_peer_id ev) = None"
    | e where "map_of (or_peers s) (df_peer_id ev) = Some e" "pe_dials e (df_ip ev) = None"
    | e st where "map_of (or_peers s) (df_peer_id ev) = Some e" "pe_dials e (df_ip ev) = Some st"
    by (cases "map_of (or_peers s) (df_peer_id ev)") auto
  then show ?thesis
  proof cases
    case 1
    then have "pid \<noteq> df_peer_id ev" if "(pid, e) \<in> set (or_peers s)" for pid e using that by (force simp: map_of_eq_None_iff)
    then show ?thesis using 1 by (auto simp: flights_from_def handle_dial_failed_def only)
  next
    case 2
    then have "e' = e" if "(df_peer_id ev, e') \<in> set (or_peers s)" for e' using that map_of_is_SomeI [OF assms] by fastforce
    then have "\<not> settles (DialFailed ev) pid ip" if "(pid, e') \<in> set (or_peers s)" "in_flight e' ip" for pid e' ip
      using that 2 by (auto simp: only in_flight_def)
    then show ?thesis using 2 by (auto simp: flights_from_def handle_dial_failed_def)
  next
    case 3
    let ?e = "e\<lparr>pe_dials := (pe_dials e)(df_ip ev \<mapsto> record_failure (oe_now E) (reconnect_backoff_min (or_tuning s)) (reconnect_backoff_max (or_tuning s)) st)\<rparr>"
    have p: "or_peers (handle_dial_failed E ev s) = AList.update (df_peer_id ev) ?e (or_peers s)"
      using 3 by (simp add: handle_dial_failed_def)
    show ?thesis
      by (rule flights_update [OF assms 3(1) p]) (auto simp: only in_flight_def record_failure_lands split: if_splits)
  qed
qed

lemma flights_refl: "flights_from None s s"
  unfolding flights_from_def by blast

lemma post_flights:
  assumes "table_ok (config_table (or_peers s))"
  shows "flights_from None s (snd (handle_post_config new s))"
proof -
  obtain r t where p: "handle_post_config new s = (r, t)" by fastforce
  have keys: "distinct (map fst (or_peers s))" using assms by (simp add: table_ok_def)
  from handle_post_config_cases [OF p assms]
  have "or_peers t = or_peers s \<or> or_peers t = fold upsert_peer new (or_peers s)" by auto
  then have "\<exists>e. (pid, e) \<in> set (or_peers s) \<and> in_flight e ip" if "(pid, e') \<in> set (or_peers t)" "in_flight e' ip" for pid e' ip
    using upsert_flights [OF keys] that by metis
  then show ?thesis unfolding flights_from_def p by (metis option.distinct(1) snd_conv)
qed

lemma metrics_flights:
  assumes "distinct (map fst (or_peers s))"
  shows "flights_from None s (handle_metrics mt s)"
proof -
  have "flights_from None s (s\<lparr>or_peers := AList.update pid (e\<lparr>pe_bounds := bs\<rparr>) (or_peers s)\<rparr>)"
    if "map_of (or_peers s) pid = Some e" for pid e bs
    by (rule flights_update [OF assms that, where e' = "e\<lparr>pe_bounds := bs\<rparr>"]) (simp_all add: in_flight_def)
  moreover have "flights_from None s s" "flights_from None s (s\<lparr>or_non_peer_metrics := m\<rparr>)" for m
    by (rule flights_same; simp)+
  ultimately show ?thesis by (simp add: handle_metrics_def split: option.split)
qed

lemma delete_flights: "flights_from None s (handle_delete_config ids s)"
proof -
  have "set (fold AList.delete ids ps) \<subseteq> set ps" for ps :: peer_table
  proof (induction ids arbitrary: ps)
    case (Cons i ids)
    have "set (AList.delete i ps) \<subseteq> set ps" by (auto simp: AList.delete_eq)
    then show ?case using Cons [of "AList.delete i ps"] by simp
  qed simp
  moreover have "or_peers (handle_delete_config ids s) = fold AList.delete ids (or_peers s)"
    by (simp add: handle_delete_config_def Let_def)
  ultimately show ?thesis unfolding flights_from_def by (metis option.distinct(1) subsetD)
qed

lemma dns_flights:
  assumes "bus_ok s" "table_ok (config_table (or_peers s))"
  shows "flights_from None s (handle_dns_snapshot E st s)"
proof -
  obtain s1 c where mt: "maintain_all E (set_resolved st) s = (s1, c)" by fastforce
  have "flights_from None s s1" by (rule maintain_flights [OF assms(1) mt assms(2)]) (simp_all add: set_resolved_def)
  then show ?thesis by (rule flights_cong) (simp_all add: handle_dns_snapshot_def mt)
qed

lemma exit_flights:
  assumes "bus_ok s" "table_ok (config_table (or_peers s))" "handle_actor_exit E x s = Ok s'"
  shows "flights_from None s s'"
proof (cases "x_policy x")
  case Restartable
  then show ?thesis using assms(3) reconcile_flights [OF assms(1,2), of E] by (simp add: handle_actor_exit_def)
next
  case Detached
  then show ?thesis using assms(3) by (simp add: handle_actor_exit_def flights_refl)
qed (use assms(3) in \<open>simp add: handle_actor_exit_def\<close>)

lemma handle_event_flights:
  assumes "handle_event E m s = Ok s'" "bus_ok s" "table_ok (config_table (or_peers s))"
  shows "flights_from (Some m) s s'"
proof -
  have keys: "distinct (map fst (or_peers s))" using assms(3) by (simp add: table_ok_def)
  have reply: "flights_from x s t \<Longrightarrow> flights_from x s (or_reply c r t)" for x t c r
    by (simp add: flights_from_def)
  show ?thesis
  proof (cases m)
    case (Connected ev)
    then show ?thesis using assms(1) connected_flights [OF assms(2) keys] by (auto simp: handle_event_def)
  next
    case (DialFailed ev)
    then show ?thesis using assms(1) dial_failed_flights [OF keys] by (auto simp: handle_event_def)
  next
    case (ActorExited x)
    show ?thesis
      by (rule flights_message [OF exit_flights [OF assms(2,3)]]) (use assms(1) ActorExited in \<open>simp_all add: handle_event_def settles_def\<close>)
  next
    case (MetricsEvent mt)
    show ?thesis
      by (rule flights_message) (use assms(1) MetricsEvent metrics_flights [OF keys, of mt] in \<open>simp_all add: handle_event_def settles_def\<close>)
  next
    case (DnsSnapshot st)
    show ?thesis
      by (rule flights_message) (use assms(1) DnsSnapshot dns_flights [OF assms(2,3), of E st] in \<open>simp_all add: handle_event_def settles_def\<close>)
  next
    case (DeleteConfig ids c)
    have "flights_from None s s'"
      using assms(1) DeleteConfig reply [OF delete_flights] by (auto simp: handle_event_def Let_def)
    then show ?thesis by (rule flights_message) (simp add: DeleteConfig settles_def)
  next
    case (PostConfig new c)
    have "flights_from None s s'"
      using assms(1) PostConfig reply [OF post_flights [OF assms(3), of new]] by (auto simp: handle_event_def Let_def case_prod_beta)
    then show ?thesis by (rule flights_message) (simp add: PostConfig settles_def)
  next
    case (GetConfig c)
    show ?thesis
      by (rule flights_message [OF reply [OF flights_refl, of c "ConfigReply (config_snapshot s)"], THEN flights_cong])
        (use assms(1) GetConfig in \<open>simp_all add: handle_event_def settles_def, blast?\<close>)
  next
    case (GetMetricsSnapshot c)
    show ?thesis
      by (rule flights_message [OF reply [OF flights_refl, of c "MetricsReply (collect_metrics_snapshot s)"], THEN flights_cong])
        (use assms(1) GetMetricsSnapshot in \<open>simp_all add: handle_event_def settles_def, blast?\<close>)
  qed (use assms(1) in \<open>simp_all add: handle_event_def flights_message [OF flights_refl] settles_def\<close>)
qed

subsection \<open>Routing tables\<close>

definition last_txs :: "'t orch \<Rightarrow> string \<rightharpoonup> chan" where
  "last_txs s = (if or_built s = [] then Map.empty else snd (last (or_built s)))"

definition routes_current :: "'t orch \<Rightarrow> bool" where
  "routes_current s \<longleftrightarrow> last_txs s = preferred_txs (or_peers s)"

lemma routing_current: "routes_current (update_routing E s)"
  by (simp add: routes_current_def last_txs_def)

lemma routes_same:
  "routes_current s \<Longrightarrow> or_built s' = or_built s \<Longrightarrow> preferred_txs (or_peers s') = preferred_txs (or_peers s) \<Longrightarrow> routes_current s'"
  by (simp only: routes_current_def last_txs_def)

lemma preferred_txs_Cons:
  "preferred_txs ((pid, e) # ps) = (case preferred_tx e of Some tx \<Rightarrow> (preferred_txs ps)(pid \<mapsto> tx) | None \<Rightarrow> preferred_txs ps)"
  by (simp add: preferred_txs_def split: option.split)

lemma preferred_txs_cong:
  "map fst ps = map fst qs \<Longrightarrow> map (preferred_tx \<circ> snd) ps = map (preferred_tx \<circ> snd) qs \<Longrightarrow> preferred_txs ps = preferred_txs qs"
proof (induction ps arbitrary: qs)
  case (Cons p ps)
  from Cons.prems obtain q qs' where q: "qs = q # qs'" "fst q = fst p" "preferred_tx (snd q) = preferred_tx (snd p)"
      "map fst ps = map fst qs'" "map (preferred_tx \<circ> snd) ps = map (preferred_tx \<circ> snd) qs'" by (cases qs) (auto simp: comp_def)
  from Cons.IH [OF q(4,5)] q(2,3) show ?case
    unfolding q(1) by (cases p; cases q) (simp add: preferred_txs_Cons split: option.split)
qed simp

lemma preferred_txs_update:
  assumes "preferred_tx e = (case map_of ps pid of Some old \<Rightarrow> preferred_tx old | None \<Rightarrow> None)"
  shows "preferred_txs (AList.update pid e ps) = preferred_txs ps"
  using assms by (induction ps) (auto simp: preferred_txs_Cons preferred_txs_def split: option.splits if_splits)

lemma reconcile_routes:
  assumes "bus_ok s" "routes_current s"
  shows "routes_current (reconcile E s)"
proof -
  obtain s1 c where m: "maintain_all E id s = (s1, c)" by fastforce
  show ?thesis
  proof (cases c)
    case False
    note spec = maintain_all_spec [OF assms(1) m]
    then have "map fst (or_peers s1) = map fst (or_peers s)"
      by (auto simp: list_all2_conv_all_nth case_prod_beta intro!: nth_equalityI)
    moreover have "map (preferred_tx \<circ> snd) (or_peers s1) = map (preferred_tx \<circ> snd) (or_peers s)"
      using spec False by (simp add: comp_def)
    ultimately have "preferred_txs (or_peers s1) = preferred_txs (or_peers s)" by (rule preferred_txs_cong)
    then show ?thesis using spec assms(2) False by (simp add: reconcile_def m routes_same)
  qed (simp add: reconcile_def m routing_current)
qed

lemma preferred_upsert: "preferred_txs (fold upsert_peer new ps) = preferred_txs ps"
proof (induction new arbitrary: ps)
  case (Cons p new)
  have "preferred_txs (upsert_peer p ps) = preferred_txs ps"
    by (auto simp: upsert_peer_def peer_entry_new_def preferred_tx_def intro!: preferred_txs_update split: option.split)
  then show ?case using Cons by simp
qed simp

lemma post_routes: "routes_current s \<Longrightarrow> routes_current (snd (handle_post_config new s))"
  by (auto simp: handle_post_config_def Let_def preferred_upsert elim!: routes_same split: sum.split)

lemma metrics_routes:
  assumes "routes_current s"
  shows "routes_current (handle_metrics mt s)"
proof -
  have "map an_tx (store_metrics m addr bs) = map an_tx bs" for m addr bs
    by (induction m addr bs rule: store_metrics.induct) (auto split: direction.split)
  moreover have "preferred_tx e = (case map an_tx (pe_bounds e) of [] \<Rightarrow> None | tx # _ \<Rightarrow> Some tx)" for e
    by (simp add: preferred_tx_def split: list.split)
  ultimately have "preferred_tx (e\<lparr>pe_bounds := store_metrics m addr (pe_bounds e)\<rparr>) = preferred_tx e" for m addr e by simp
  then show ?thesis
    using assms by (auto simp: handle_metrics_def intro!: preferred_txs_update elim!: routes_same split: option.split)
qed

lemma connected_routes:
  assumes "bus_ok s" "routes_current s"
  shows "routes_current (handle_connected E ev s)"
proof -
  note effect = update_bound_effect [OF assms(1), of E "ce_peer_id ev" "ce_endpoint ev" "ce_remote_addr ev" "ce_tx ev", folded handle_connected_def]
  let ?s = "handle_connected E ev s"
  from effect consider "or_peers ?s = or_peers s" "or_built ?s = or_built s"
    | e e' where "map_of (or_peers s) (ce_peer_id ev) = Some e" "or_peers ?s = AList.update (ce_peer_id ev) e' (or_peers s)"
        "or_built ?s = or_built s" "preferred_tx e' = preferred_tx e"
    | cfgs where "or_built ?s = or_built s @ [(cfgs, preferred_txs (or_peers ?s))]"
    by (elim conjE disjE exE) (rule that; assumption)+
  then show ?thesis
  proof cases
    case 2
    then show ?thesis by (intro routes_same [OF assms(2)]) (simp_all add: preferred_txs_update)
  qed (use assms(2) in \<open>auto simp: routes_current_def last_txs_def\<close>)
qed

lemma dial_failed_routes:
  assumes "routes_current s"
  shows "routes_current (handle_dial_failed E ev s)"
proof -
  have "preferred_tx (e\<lparr>pe_dials := d\<rparr>) = preferred_tx e" for e d by (simp add: preferred_tx_def)
  then show ?thesis
    using assms by (auto simp: handle_dial_failed_def intro!: preferred_txs_update elim!: routes_same split: option.split)
qed

fun deletes_peers :: "'t event \<Rightarrow> bool" where
  "deletes_peers (DeleteConfig _ _) = True"
| "deletes_peers _ = False"

lemma handle_event_routes:
  assumes "handle_event E m s = Ok s'" "bus_ok s" "routes_current s" "\<not> deletes_peers m"
  shows "routes_current s'"
proof -
  have reply: "routes_current t \<Longrightarrow> routes_current (or_reply c r t)" for t c r
    by (simp only: routes_current_def last_txs_def or_reply_simps)
  show ?thesis
  proof (cases m)
    case (ActorExited x)
    then show ?thesis
      using assms reconcile_routes [OF assms(2,3)] by (auto simp: handle_event_def handle_actor_exit_def split: supervision_policy.splits)
  next
    case (PostConfig new c)
    then show ?thesis using assms(1) reply [OF post_routes [OF assms(3), of new]] by (auto simp: handle_event_def Let_def case_prod_beta)
  next
    case (DnsSnapshot st)
    then show ?thesis using assms(1) routing_current by (auto simp: handle_event_def handle_dns_snapshot_def)
  qed (use assms reply [OF assms(3)] metrics_routes [OF assms(3)] connected_routes [OF assms(2,3)] dial_failed_routes [OF assms(3)]
    in \<open>auto simp: handle_event_def\<close>)
qed

subsection \<open>What the router has been told\<close>

definition built_told :: "ipnet_lib \<Rightarrow> 't route_trie \<Rightarrow> 't orch \<Rightarrow> bool" where
  "built_told L T s \<longleftrightarrow> (\<forall>(configs, txs)\<in>set (or_built s). \<forall>table.
     rt_make L T configs txs (lc_tun (or_local s)) (or_input_tx s) = Ok table \<longrightarrow> told (or_bus s) (or_router s) (UpdateRouting table))"

lemma built_frame:
  assumes "orch_frame s s'" "or_built s' = or_built s" "built_told L T s"
  shows "built_told L T s'"
proof -
  have "bus_grows (or_bus s) (or_bus s')" "or_router s' = or_router s" "or_local s' = or_local s" "or_input_tx s' = or_input_tx s"
    using assms(1) by (simp_all add: orch_frame_def bus_evolves_def)
  then show ?thesis using assms(2,3) told_mono unfolding built_told_def by fastforce
qed

lemma built_routing:
  assumes "bus_ok s" "oe_net E = L" "oe_trie E = T" "built_told L T s"
  shows "built_told L T (update_routing E s)"
proof -
  let ?u = "update_routing E s"
  have fr: "orch_frame s ?u" by (rule update_routing_frame [OF assms(1)])
  then have same: "or_router ?u = or_router s" "or_local ?u = or_local s" "or_input_tx ?u = or_input_tx s" and gr: "bus_grows (or_bus s) (or_bus ?u)"
    by (simp_all add: orch_frame_def bus_evolves_def)
  have "told (or_bus ?u) (or_router s) (UpdateRouting table)"
    if ok: "rt_make L T (peer_configs s) (preferred_txs (or_peers s)) (lc_tun (or_local s)) (or_input_tx s) = Ok table" for table
  proof -
    let ?b = "fst (actor_send (or_router s) (UpdateRouting table) (or_bus s))"
    have "told ?b (or_router s) (UpdateRouting table)" using assms(1) by (intro told_send) (simp add: bus_ok_def)
    moreover have "bus_grows ?b (or_bus ?u)"
      using ok assms(2,3) by (auto simp: update_routing_def or_send_def Let_def actor_send_grows split: option.split)
    ultimately show ?thesis using told_mono by blast
  qed
  moreover have "told (or_bus ?u) (or_router s) ev" if "told (or_bus s) (or_router s) ev" for ev
    using told_mono [OF gr that] .
  ultimately show ?thesis
    using assms(4) unfolding built_told_def same update_routing_simps by (auto simp: case_prod_beta)
qed

lemma reconcile_built:
  assumes "bus_ok s" "oe_net E = L" "oe_trie E = T" "built_told L T s"
  shows "built_told L T (reconcile E s)"
proof -
  obtain s1 c where m: "maintain_all E id s = (s1, c)" by fastforce
  note spec = maintain_all_spec [OF assms(1) m]
  then have "built_told L T s1" "bus_ok s1" using built_frame assms(1,4) orch_frame_bus_ok by blast+
  then show ?thesis using built_routing [OF _ assms(2,3)] by (simp add: reconcile_def m)
qed

lemma dns_built:
  assumes "bus_ok s" "oe_net E = L" "oe_trie E = T" "built_told L T s"
  shows "built_told L T (handle_dns_snapshot E st s)"
proof -
  obtain s1 c where m: "maintain_all E (set_resolved st) s = (s1, c)" by fastforce
  note spec = maintain_all_spec [OF assms(1) m]
  then have 1: "built_told L T s1" "bus_ok s1" using built_frame assms(1,4) orch_frame_bus_ok by blast+
  note fr = update_accepted_frame [OF 1(2)]
  then have "built_told L T (update_accepted_sources s1)" "bus_ok (update_accepted_sources s1)"
    using built_frame [OF fr _ 1(1)] orch_frame_bus_ok [OF fr 1(2)] by simp_all
  then show ?thesis using built_routing [OF _ assms(2,3)] by (simp add: handle_dns_snapshot_def m)
qed

lemma connected_built:
  assumes "bus_ok s" "oe_net E = L" "oe_trie E = T" "built_told L T s"
  shows "built_told L T (handle_connected E ev s)"
proof -
  have ps: "bus_ok (s\<lparr>or_peers := ps\<rparr>)" "built_told L T (s\<lparr>or_peers := ps\<rparr>)" for ps
    using assms(1,4) by (simp_all add: bus_ok_def built_told_def)
  then have "built_told L T (update_routing E (s\<lparr>or_peers := ps\<rparr>))" for ps
    using built_routing [OF _ assms(2,3)] by blast
  with ps show ?thesis
    using assms(4) by (simp add: handle_connected_def update_bound_def Let_def case_prod_beta split: option.split)
qed

lemma handle_event_built:
  assumes "handle_event E m s = Ok s'" "bus_ok s" "oe_net E = L" "oe_trie E = T" "built_told L T s"
  shows "built_told L T s'"
proof -
  note fr = handle_event_frame [OF assms(1,2)]
  show ?thesis
  proof (cases m)
    case (ActorExited x)
    then show ?thesis
      using assms reconcile_built [OF assms(2-5)] by (auto simp: handle_event_def handle_actor_exit_def split: supervision_policy.splits)
  next
    case (DnsSnapshot st)
    then show ?thesis using assms(1) dns_built [OF assms(2-5)] by (auto simp: handle_event_def)
  next
    case (Connected ev)
    then show ?thesis using assms(1) connected_built [OF assms(2-5)] by (auto simp: handle_event_def)
  next
    case (PostConfig new c)
    have "or_built s' = or_built s"
      using assms(1) PostConfig by (auto simp: handle_event_def handle_post_config_def Let_def split: sum.splits)
    then show ?thesis using built_frame [OF fr _ assms(5)] by simp
  next
    case (DeleteConfig ids c)
    have "or_built s' = or_built s"
      using assms(1) DeleteConfig by (auto simp: handle_event_def handle_delete_config_def Let_def)
    then show ?thesis using built_frame [OF fr _ assms(5)] by simp
  next
    case (MetricsEvent mt)
    have "or_built s' = or_built s"
      using assms(1) MetricsEvent by (auto simp: handle_event_def handle_metrics_def split: option.splits)
    then show ?thesis using built_frame [OF fr _ assms(5)] by simp
  next
    case (DialFailed ev)
    have "or_built s' = or_built s"
      using assms(1) DialFailed by (auto simp: handle_event_def handle_dial_failed_def split: option.splits)
    then show ?thesis using built_frame [OF fr _ assms(5)] by simp
  qed (use assms(1,5) built_frame [OF fr _ assms(5)] in \<open>auto simp: handle_event_def\<close>)
qed

section \<open>Runs\<close>

text \<open>
  A run interleaves the arms of the loop with the rest of the program: a dial reports its outcome to the
  orchestrator, which for a success is about its peer and address (\<open>dial_reports\<close>, kept by both dialers),
  and the other actors act on the bus. A dial that has not reported ends only by failing to join, as when it
  panics. \<open>P\<close> restricts the messages that are handled.
\<close>

definition dial_reports :: "dial_context \<Rightarrow> connected_event \<Rightarrow> bool" where
  "dial_reports dial ev \<longleftrightarrow> ce_peer_id ev = dc_peer_id dial \<and> fst (ce_remote_addr ev) = dc_dial_ip dial \<and> ce_endpoint ev \<noteq> None"

inductive orch_trans ::
  "ipnet_lib \<Rightarrow> 't route_trie \<Rightarrow> ('t event \<Rightarrow> bool) \<Rightarrow> 't orch \<Rightarrow> 't orch \<Rightarrow> bool" for L T P where
  arm: "oe_net E = L \<Longrightarrow> oe_trie E = T \<Longrightarrow> (\<And>m ms. arm = OrInbox \<Longrightarrow> or_inbox s = m # ms \<Longrightarrow> P m) \<Longrightarrow>
     orch_trans L T P s (orch_step E arm s)"
| dialled: "t \<in> set (or_dialing s) \<Longrightarrow> b_actors (or_bus s) (dt_ref t) = Some a \<Longrightarrow> ac_result a = None \<Longrightarrow> (\<And>ev. result = Ok ev \<Longrightarrow> dial_reports (dt_context t) ev) \<Longrightarrow>
     orch_trans L T P s (s\<lparr>or_bus := report_dial (dt_ref t) (result :: (string, connected_event) result) (dt_context t) (or_bus s),
       or_dialing := remove1 t (or_dialing s)\<rparr>)"
| others: "bus_step (or_bus s) b \<Longrightarrow> bus_evolves (or_ctx s) (or_bus s) b \<Longrightarrow>
     (\<And>t. t \<in> set (or_dialing s) \<Longrightarrow> dial_pending (or_ctx s) b t) \<Longrightarrow> orch_trans L T P s (s\<lparr>or_bus := b\<rparr>)"

definition flights_ok :: "'t orch \<Rightarrow> bool" where
  "flights_ok s \<longleftrightarrow> (\<forall>pid e ip. (pid, e) \<in> set (or_peers s) \<and> in_flight e ip \<longrightarrow>
     (\<exists>t\<in>set (or_dialing s). task_for pid ip t) \<or> (\<exists>m\<in>set (or_inbox s). settles m pid ip))"

definition orch_inv :: "ipnet_lib \<Rightarrow> 't route_trie \<Rightarrow> 't orch \<Rightarrow> bool" where
  "orch_inv L T s \<longleftrightarrow> bus_ok s \<and> table_ok (config_table (or_peers s)) \<and> flights_ok s \<and> built_told L T s"

lemma inbox_frame: "orch_frame s s' \<Longrightarrow> bus_ok s \<Longrightarrow> set (or_inbox s) \<subseteq> set (or_inbox s')"
  unfolding orch_frame_def bus_ok_def bus_evolves_def or_inbox_def by fastforce

lemma dialing_frame: "orch_frame s s' \<Longrightarrow> set (or_dialing s) \<subseteq> set (or_dialing s')"
  unfolding orch_frame_def by fastforce

lemma flights_step:
  assumes "flights_from m s s'" "orch_frame s s'" "bus_ok s"
    and "\<And>pid e ip. (pid, e) \<in> set (or_peers s) \<Longrightarrow> in_flight e ip \<Longrightarrow>
      (\<exists>t\<in>set (or_dialing s). task_for pid ip t) \<or> (\<exists>x\<in>set (or_inbox s). settles x pid ip) \<or> (\<exists>msg. m = Some msg \<and> settles msg pid ip)"
  shows "flights_ok s'"
  unfolding flights_ok_def
proof (intro allI impI, elim conjE)
  fix pid e' ip
  assume "(pid, e') \<in> set (or_peers s')" "in_flight e' ip"
  with assms(1) consider "\<exists>t\<in>set (or_dialing s'). task_for pid ip t"
    | e where "(pid, e) \<in> set (or_peers s)" "in_flight e ip" "\<forall>msg. m = Some msg \<longrightarrow> \<not> settles msg pid ip"
    unfolding flights_from_def by blast
  then show "(\<exists>t\<in>set (or_dialing s'). task_for pid ip t) \<or> (\<exists>m\<in>set (or_inbox s'). settles m pid ip)"
  proof cases
    case 2
    from assms(4) [OF 2(1,2)] 2(3) show ?thesis
      using inbox_frame [OF assms(2,3)] dialing_frame [OF assms(2)] by blast
  qed blast
qed

lemma or_pop_simps [simp]:
  "or_peers (or_pop s) = or_peers s" "or_built (or_pop s) = or_built s" "or_dialing (or_pop s) = or_dialing s"
  "or_ctx (or_pop s) = or_ctx s" "or_router (or_pop s) = or_router s" "or_exit (or_pop s) = or_exit s"
  "or_local (or_pop s) = or_local s" "or_input_tx (or_pop s) = or_input_tx s" "or_inbox (or_pop s) = drop 1 (or_inbox s)"
  by (auto simp: or_pop_def or_inbox_def split: option.split)

lemma or_pop_bus: "bus_grows (or_bus s) (or_bus (or_pop s))"
  unfolding or_pop_def by (simp add: upd_actor_grows actor_grows_def)

lemma or_pop_ok:
  assumes "bus_ok s"
  shows "bus_ok (or_pop s)"
proof -
  have "dial_pending x (or_bus (or_pop s)) t" if "dial_pending x (or_bus s) t" for x t
    using that by (auto simp: dial_pending_def or_pop_def)
  moreover have "\<exists>a. b_actors (or_bus (or_pop s)) (or_ctx s) = Some a \<and> ac_owner a = or_ctx s \<and> ac_result a = None"
    using assms by (auto simp: bus_ok_def or_pop_def)
  moreover have "fresh_inv (or_bus (or_pop s))" using assms by (auto simp: bus_ok_def fresh_inv_def or_pop_def)
  ultimately show ?thesis
    using assms dom_mono [OF or_pop_bus] unfolding bus_ok_def or_pop_simps by blast
qed

lemma or_pop_built: "built_told L T s \<Longrightarrow> built_told L T (or_pop s)"
  using told_mono [OF or_pop_bus] unfolding built_told_def by fastforce

lemma or_exit_inv: "orch_inv L T s \<Longrightarrow> orch_inv L T (s\<lparr>or_exit := x\<rparr>)"
  by (simp add: orch_inv_def bus_ok_def flights_ok_def built_told_def or_inbox_def)

lemma reconcile_inv:
  assumes "orch_inv L T s" "oe_net E = L" "oe_trie E = T"
  shows "orch_inv L T (reconcile E s)"
proof -
  have s: "bus_ok s" "table_ok (config_table (or_peers s))" "flights_ok s" "built_told L T s" using assms(1) by (simp_all add: orch_inv_def)
  note fr = reconcile_frame [OF s(1), of E]
  have "flights_ok (reconcile E s)"
    by (rule flights_step [OF reconcile_flights [OF s(1,2)] fr s(1)]) (use s(3) in \<open>auto simp: flights_ok_def\<close>)
  then show ?thesis
    using orch_frame_bus_ok [OF fr s(1)] reconcile_table [OF s(1), of E] s(2) reconcile_built [OF s(1) assms(2,3) s(4)]
    by (simp add: orch_inv_def)
qed

lemma pop_inv:
  assumes "orch_inv L T s" "or_inbox s = m # ms" "\<And>pid ip. \<not> settles m pid ip"
  shows "orch_inv L T (or_pop s)"
proof -
  have "flights_ok (or_pop s)" using assms unfolding orch_inv_def flights_ok_def by simp
  then show ?thesis using assms(1) by (auto simp: orch_inv_def intro: or_pop_ok or_pop_built)
qed

lemma message_inv:
  assumes "orch_inv L T s" "or_inbox s = m # ms" "handle_event E m (or_pop s) = Ok s'" "oe_net E = L" "oe_trie E = T"
  shows "orch_inv L T s'"
proof -
  have s: "bus_ok (or_pop s)" "table_ok (config_table (or_peers (or_pop s)))" "built_told L T (or_pop s)"
    using assms(1) by (auto simp: orch_inv_def intro: or_pop_ok or_pop_built)
  note fr = handle_event_frame [OF assms(3) s(1)]
  have "flights_ok s'"
  proof (rule flights_step [OF handle_event_flights [OF assms(3) s(1,2)] fr s(1)])
    fix pid e ip
    assume "(pid, e) \<in> set (or_peers (or_pop s))" "in_flight e ip"
    then show "(\<exists>t\<in>set (or_dialing (or_pop s)). task_for pid ip t) \<or> (\<exists>x\<in>set (or_inbox (or_pop s)). settles x pid ip) \<or>
        (\<exists>msg. Some m = Some msg \<and> settles msg pid ip)"
      using assms(1,2) unfolding orch_inv_def flights_ok_def by fastforce
  qed
  then show ?thesis
    using orch_frame_bus_ok [OF fr s(1)] handle_event_table [OF assms(3) s(1,2)] handle_event_built [OF assms(3) s(1) assms(4,5) s(3)]
    by (simp add: orch_inv_def)
qed

lemma handle_event_err: "handle_event E m s = Err e \<longleftrightarrow> (\<exists>x. m = ActorExited x \<and> handle_actor_exit E x s = Err e)"
  by (cases m) (auto simp: handle_event_def Let_def case_prod_beta)

lemma orch_step_inv:
  assumes "orch_inv L T s" "oe_net E = L" "oe_trie E = T"
  shows "orch_inv L T (orch_step E arm s)"
proof (cases "or_exit s = None \<and> arm = OrInbox")
  case True
  show ?thesis
  proof (cases "or_inbox s")
    case Nil
    then show ?thesis using True assms(1) by (simp add: orch_step_def)
  next
    case (Cons m ms)
    show ?thesis
    proof (cases "m = Stop")
      case stop: True
      have "orch_inv L T (or_pop s)" by (rule pop_inv [OF assms(1) Cons]) (simp add: stop settles_def)
      then show ?thesis using True Cons stop or_exit_inv by (simp add: orch_step_def)
    next
      case False
      have step: "orch_step E arm s = (case handle_event E m (or_pop s) of Ok s' \<Rightarrow> s' | Err e \<Rightarrow> (or_pop s)\<lparr>or_exit := Some (Err e)\<rparr>)"
        using True Cons False by (cases m) (simp_all add: orch_step_def)
      show ?thesis
      proof (cases "handle_event E m (or_pop s)")
        case (Inl e)
        then obtain x where x: "m = ActorExited x" using handle_event_err by blast
        have "orch_inv L T (or_pop s)" by (rule pop_inv [OF assms(1) Cons]) (simp add: x settles_def)
        then show ?thesis unfolding step Inl using or_exit_inv by simp
      next
        case (Inr s')
        then show ?thesis unfolding step using message_inv [OF assms(1) Cons Inr assms(2,3)] by simp
      qed
    qed
  qed
next
  case False
  then show ?thesis
    using assms reconcile_inv or_exit_inv by (cases arm) (auto simp: orch_step_def split: option.split)
qed

definition dial_message :: "('e, connected_event) result \<Rightarrow> dial_context \<Rightarrow> 't event" where
  "dial_message result dial =
     (case result of Ok ev \<Rightarrow> Connected ev | Err _ \<Rightarrow> DialFailed \<lparr>df_peer_id = dc_peer_id dial, df_ip = dc_dial_ip dial\<rparr>)"

lemma report_dial_bus:
  assumes "owned ctx b r"
  shows "report_dial r result dial b = fst (actor_send ctx (dial_message result dial) b)"
  using assms by (auto simp: report_dial_def actor_notify_owner_def owned_def dial_message_def split: sum.split)

lemma evolve_inv:
  assumes "orch_inv L T s" "bus_evolves (or_ctx s) (or_bus s) b" "\<And>t. t \<in> set (or_dialing s) \<Longrightarrow> dial_pending (or_ctx s) b t"
  shows "orch_inv L T (s\<lparr>or_bus := b\<rparr>)"
proof -
  have s: "bus_ok s" "table_ok (config_table (or_peers s))" "flights_ok s" "built_told L T s" using assms(1) by (simp_all add: orch_inv_def)
  have fr: "orch_frame s (s\<lparr>or_bus := b\<rparr>)" using assms(2,3) by (simp add: orch_frame_def)
  have "flights_from None s (s\<lparr>or_bus := b\<rparr>)" by (rule flights_same) simp_all
  from flights_step [OF this fr s(1)] s(3) have "flights_ok (s\<lparr>or_bus := b\<rparr>)" unfolding flights_ok_def by blast
  then show ?thesis
    using orch_frame_bus_ok [OF fr s(1)] s(2) built_frame [OF fr _ s(4)] by (simp add: orch_inv_def)
qed

lemma dialled_inv:
  assumes "orch_inv L T s" "t \<in> set (or_dialing s)" "\<And>ev. result = Ok ev \<Longrightarrow> dial_reports (dt_context t) ev"
  shows "orch_inv L T (s\<lparr>or_bus := report_dial (dt_ref t) result (dt_context t) (or_bus s), or_dialing := remove1 t (or_dialing s)\<rparr>)"
proof -
  let ?m = "dial_message result (dt_context t)"
  let ?b = "fst (actor_send (or_ctx s) ?m (or_bus s))"
  let ?s = "s\<lparr>or_bus := ?b\<rparr>"
  have b: "report_dial (dt_ref t) result (dt_context t) (or_bus s) = ?b"
    using assms(1,2) by (intro report_dial_bus) (auto simp: orch_inv_def bus_ok_def dial_pending_def owned_def)
  have inv: "orch_inv L T ?s"
    using assms(1) by (intro evolve_inv actor_send_evolves dial_pending_send) (simp_all add: orch_inv_def bus_ok_def)
  obtain a where "b_actors (or_bus s) (or_ctx s) = Some a" "ac_result a = None"
    using assms(1) by (auto simp: orch_inv_def bus_ok_def)
  then have m: "?m \<in> set (or_inbox ?s)" by (simp add: or_inbox_def deliver_event_def)
  have settle: "settles ?m pid ip" if "task_for pid ip t" for pid ip
    using that assms(3) by (auto simp: settles_def task_for_def dial_message_def dial_reports_def split: sum.split)
  have keep: "(\<exists>u\<in>set (remove1 t (or_dialing s)). task_for pid ip u) \<or> settles ?m pid ip"
    if "u \<in> set (or_dialing s)" "task_for pid ip u" for u pid ip
    using that settle in_set_remove1 by (cases "u = t") auto
  have "flights_ok (?s\<lparr>or_dialing := remove1 t (or_dialing s)\<rparr>)"
    using inv m keep unfolding orch_inv_def flights_ok_def or_inbox_def by simp blast
  moreover have "bus_ok (?s\<lparr>or_dialing := remove1 t (or_dialing s)\<rparr>)"
    using inv set_remove1_subset [of t "or_dialing s"] unfolding orch_inv_def bus_ok_def by auto
  ultimately show ?thesis unfolding b using inv by (simp add: orch_inv_def built_told_def)
qed

lemma orch_trans_inv: "orch_trans L T P s s' \<Longrightarrow> orch_inv L T s \<Longrightarrow> orch_inv L T s'"
  by (induction rule: orch_trans.induct) (auto intro: orch_step_inv dialled_inv evolve_inv)

lemma orch_step_routes:
  assumes "bus_ok s" "routes_current s" "\<And>m ms. arm = OrInbox \<Longrightarrow> or_inbox s = m # ms \<Longrightarrow> \<not> deletes_peers m"
  shows "routes_current (orch_step E arm s)"
proof (cases "or_exit s = None \<and> arm = OrInbox")
  case True
  have pop: "bus_ok (or_pop s)" "routes_current (or_pop s)"
    using assms(1,2) by (auto simp: or_pop_ok intro: routes_same)
  have exit: "routes_current ((or_pop s)\<lparr>or_exit := x\<rparr>)" for x using pop(2) by (rule routes_same) simp_all
  show ?thesis
  proof (cases "or_inbox s")
    case (Cons m ms)
    show ?thesis
    proof (cases "handle_event E m (or_pop s)")
      case (Inl e)
      then obtain x where "m = ActorExited x" using handle_event_err by blast
      then show ?thesis using Inl True Cons exit by (simp add: orch_step_def)
    next
      case (Inr s')
      from handle_event_routes [OF Inr pop] assms(3) True Cons have "routes_current s'" by blast
      then show ?thesis using True Cons Inr exit by (cases m) (simp_all add: orch_step_def)
    qed
  qed (use True assms in \<open>simp add: orch_step_def\<close>)
next
  case False
  have "routes_current (s\<lparr>or_exit := x\<rparr>)" for x using assms(2) by (rule routes_same) simp_all
  then show ?thesis
    using False assms(1,2) reconcile_routes [OF assms(1,2)] by (cases arm) (auto simp: orch_step_def split: option.split)
qed

lemma orch_trans_routes:
  assumes "orch_trans L T (\<lambda>m. \<not> deletes_peers m) s s'" "bus_ok s" "routes_current s"
  shows "routes_current s'"
  using assms
proof (induction rule: orch_trans.induct)
  case (arm E arm s)
  then show ?case by (intro orch_step_routes) auto
next
  case (dialled t s a result)
  from dialled.prems(2) show ?case by (rule routes_same) simp_all
next
  case (others s b)
  from others.prems(2) show ?case by (rule routes_same) simp_all
qed

end
