(* ===== verification/Lifecycle.thy ===== *)
theory Lifecycle
  imports Orch
begin

text \<open>
  The runs of the orchestrator from its construction (\<open>Orchestrator::new\<close> and \<open>run\<close> of \<open>orch.rs\<close>): the state
  it starts in, the invariant of every run, and what follows from it.
\<close>

section \<open>The initial state\<close>

definition alive :: "chan \<Rightarrow> 't bus \<Rightarrow> bool" where
  "alive ctx b \<longleftrightarrow> fresh_inv b \<and> (\<exists>a. b_actors b ctx = Some a \<and> ac_owner a = ctx \<and> ac_result a = None)"

definition sets_up :: "chan \<Rightarrow> 't bus \<Rightarrow> 't bus \<Rightarrow> bool" where
  "sets_up ctx b b' \<longleftrightarrow> alive ctx b' \<and> bus_grows b b'"

lemma sets_up_refl: "alive ctx b \<Longrightarrow> sets_up ctx b b"
  by (simp add: sets_up_def)

lemma sets_up_trans: "sets_up ctx b c \<Longrightarrow> sets_up ctx c d \<Longrightarrow> sets_up ctx b d"
  unfolding sets_up_def by (blast intro: bus_grows_trans)

lemma evolves_sets_up:
  assumes "alive ctx b" "bus_evolves ctx b b'"
  shows "sets_up ctx b b'"
proof -
  obtain a where a: "b_actors b ctx = Some a" "ac_owner a = ctx" "ac_result a = None" using assms(1) by (auto simp: alive_def)
  moreover have "owned ctx b' ctx" using a by (intro evolves_owner [OF assms(2)]) (simp add: owned_def)
  ultimately show ?thesis using assms(2) by (fastforce simp: sets_up_def alive_def bus_evolves_def owned_def)
qed

lemma actor_spawn_sets_up: "alive ctx b \<Longrightarrow> sets_up ctx b (fst (actor_spawn ctx nm policy b))"
  by (intro evolves_sets_up bus_extends_evolves [OF actor_spawn_extends]) (auto simp: alive_def owned_def)

lemma actor_link_sets_up:
  assumes "alive ctx b"
  shows "sets_up ctx b (actor_link r other b)"
proof -
  have "alive ctx (upd_actor x (\<lambda>a. a\<lparr>ac_links := ac_links a @ [y]\<rparr>) c)" if "alive ctx c" for x y c
    using that by (auto simp: alive_def fresh_inv_def)
  moreover have "alive ctx (fst (actor_send y Stop c))" if "alive ctx c" for y c
    using evolves_sets_up [OF that actor_send_evolves] that by (auto simp: sets_up_def alive_def)
  ultimately have push: "alive ctx (push_link x y c)" if "alive ctx c" for x y c
    using that unfolding push_link_def by (cases "links_open x c") simp_all
  then have "alive ctx (link_half x y c)" if "alive ctx c" for x y c
    using that unfolding link_half_def by (simp add: alive_def fresh_inv_def)
  then have "alive ctx (actor_link r other b)" using assms unfolding actor_link_def by blast
  then show ?thesis using actor_link_grows by (simp add: sets_up_def)
qed

lemma sets_up_spawn: "sets_up ctx b c \<Longrightarrow> sets_up ctx b (fst (actor_spawn ctx nm policy c))"
  by (meson actor_spawn_sets_up sets_up_def sets_up_trans)

lemma sets_up_link: "sets_up ctx b c \<Longrightarrow> sets_up ctx b (actor_link r other c)"
  by (meson actor_link_sets_up sets_up_def sets_up_trans)

lemma new_bare_rx_sets_up:
  assumes "new_bare_rx S cfg ctx ingress b = Ok (b', r)" "alive ctx b"
  shows "sets_up ctx b b'"
  using assms sets_up_refl [OF assms(2)]
  by (auto simp: new_bare_rx_def spawn_bare_rx_def case_prod_beta Let_def split: option.splits sum.splits intro!: sets_up_link sets_up_spawn)

lemma new_h3_listener_sets_up:
  assumes "new_h3_listener S cfg ctx b = Ok (b', r)" "alive ctx b"
  shows "sets_up ctx b b'"
  using assms sets_up_refl [OF assms(2)]
  by (auto simp: new_h3_listener_def spawn_h3_dispatcher_def case_prod_beta Let_def split: option.splits sum.splits intro!: sets_up_link sets_up_spawn)

lemma new_api_sets_up:
  assumes "new_api S cfg ctx b = Ok b'" "alive ctx b"
  shows "sets_up ctx b b'"
  using assms sets_up_refl [OF assms(2)]
  by (auto simp: new_api_def spawn_api_def split: option.splits sum.splits intro!: sets_up_spawn)

lemma new_peers_table:
  assumes "distinct (map peer_id ps)"
  shows "new_peers ps = map (\<lambda>p. (peer_id p, peer_entry_new p)) ps"
proof -
  have app: "AList.update k v xs = xs @ [(k, v)]" if "k \<notin> fst ` set xs" for k :: string and v :: peer_entry and xs
    using that by (induction xs) auto
  have "fold (\<lambda>p ps. AList.update (peer_id p) (peer_entry_new p) ps) ps xs = xs @ map (\<lambda>p. (peer_id p, peer_entry_new p)) ps"
    if "distinct (map peer_id ps)" "fst ` set xs \<inter> peer_id ` set ps = {}" for xs
    using that
  proof (induction ps arbitrary: xs)
    case (Cons p ps)
    then have "AList.update (peer_id p) (peer_entry_new p) xs = xs @ [(peer_id p, peer_entry_new p)]" by (intro app) auto
    moreover have "fst ` set (xs @ [(peer_id p, peer_entry_new p)]) \<inter> peer_id ` set ps = {}" using Cons.prems by auto
    ultimately show ?case using Cons.IH [of "xs @ [(peer_id p, peer_entry_new p)]"] Cons.prems(1) by simp
  qed simp
  from this [OF assms, of "[]"] show ?thesis by (simp add: new_peers_def)
qed

lemma new_tun_alive:
  fixes b :: "'t bus"
  assumes "new_tun S cfg = Ok (b, ctx, input_tx, router)"
  shows "alive ctx b \<and> router \<in> dom (b_actors b)"
proof -
  obtain b0 ctx0 where mb: "bus_mailbox ''orchestrator'' (bus_new :: 't bus) = (b0, ctx0)" by fastforce
  then have al: "alive ctx0 b0" by (auto simp: bus_mailbox_def bus_new_def alive_def fresh_inv_def split: if_splits)
  from assms obtain rd wr where eq: "ctx = ctx0" "router = snd (spawn_router ctx (fst (spawn_tun_tx ctx wr b0)))"
      "b = fst (spawn_tun_rx ctx rd (fst (spawn_router ctx (fst (spawn_tun_tx ctx wr b0)))))"
    by (auto simp: new_tun_def mb case_prod_beta Let_def split: option.splits sum.splits tun_error.splits)
  let ?b1 = "fst (spawn_tun_tx ctx wr b0)"
  let ?b2 = "fst (spawn_router ctx ?b1)"
  have "sets_up ctx b0 ?b1" using actor_spawn_sets_up al by (simp add: spawn_tun_tx_def eq(1))
  then have "sets_up ctx b0 ?b2" by (simp add: spawn_router_def sets_up_spawn)
  then have 3: "sets_up ctx ?b2 b" unfolding eq(3) spawn_tun_rx_def sets_up_def [of ctx b0] by (blast intro: actor_spawn_sets_up)
  have "router \<in> dom (b_actors ?b2)" by (simp add: eq(2) spawn_router_def actor_spawn_def)
  then show ?thesis using 3 dom_mono unfolding sets_up_def by blast
qed

lemma orch_new_shape:
  fixes s :: "'t orch"
  assumes "orch_new S cfg = Ok s"
  shows "\<exists>t. s = sync_peers_to_actors t \<and> alive (or_ctx t) (or_bus t) \<and> or_router t \<in> dom (b_actors (or_bus t)) \<and>
    or_peers t = new_peers (cfg_peers cfg) \<and> or_dialing t = [] \<and> or_built t = [] \<and> or_exit t = None"
proof -
  have bind: "(case r of Err e \<Rightarrow> Err e | Ok x \<Rightarrow> f x) = Ok y \<longleftrightarrow> (\<exists>x. r = Ok x \<and> f x = Ok y)"
    for r :: "(error_chain, 'x) result" and f :: "'x \<Rightarrow> (error_chain, 'y) result" and y by (cases r) auto
  from assms [unfolded orch_new_def bind split_paired_Ex prod.case Let_def]
  obtain b :: "'t bus" and ctx input_tx router b1 bare b2 h3 where tun: "new_tun S cfg = Ok (b, ctx, input_tx, router)"
    and bare: "new_bare_rx S cfg ctx router b = Ok (b1, bare)" and h3: "new_h3_listener S cfg ctx b1 = Ok (b2, h3)" by blast
  obtain b3 dns where dns: "spawn_dns (ns_show_addr S) (lc_dns (cfg_local cfg)) ctx b2 = (b3, dns)" by fastforce
  obtain b4 route where route: "new_route S cfg ctx b3 = (b4, route)" by fastforce
  from assms obtain b5 where api: "new_api S cfg ctx b4 = Ok b5"
    by (cases "new_api S cfg ctx b4") (simp_all add: orch_new_def tun bare h3 dns route)
  note al = new_tun_alive [OF tun]
  then have 1: "sets_up ctx b b1" using new_bare_rx_sets_up [OF bare] by simp
  then have 2: "sets_up ctx b1 b2" using new_h3_listener_sets_up [OF h3] by (simp add: sets_up_def)
  then have "alive ctx b2" by (simp add: sets_up_def)
  from actor_spawn_sets_up [OF this] have 3: "sets_up ctx b2 b3" using dns unfolding spawn_dns_def by (metis fst_conv)
  then have "alive ctx b3" by (simp add: sets_up_def)
  then have 4: "sets_up ctx b3 b4"
    using route sets_up_refl actor_spawn_sets_up by (auto simp: new_route_def spawn_route_def case_prod_beta split: if_splits option.splits)
  then have "sets_up ctx b4 b5" using new_api_sets_up [OF api] by (simp add: sets_up_def)
  with 1 2 3 4 have "sets_up ctx b b5" by (meson sets_up_trans)
  then have "alive ctx b5" "router \<in> dom (b_actors b5)" using al dom_mono unfolding sets_up_def by blast+
  moreover define t where "t = \<lparr>or_ctx = ctx, or_bus = b5, or_tun_if = tun_ifname (lc_tun (cfg_local cfg)), or_tun_mtu = tun_mtu (lc_tun (cfg_local cfg)),
     or_tuning = cfg_tuning cfg, or_peers = new_peers (cfg_peers cfg), or_router = router, or_ingress_tx = router, or_bare_rx = bare,
     or_h3_listener = h3, or_dns = dns, or_route = route, or_input_tx = input_tx, or_local = cfg_local cfg,
     or_non_peer_metrics = Map.empty, or_dialing = [], or_replies = [], or_built = [], or_exit = None\<rparr>"
  moreover have "s = sync_peers_to_actors t" using assms by (simp add: orch_new_def tun bare h3 dns route api t_def)
  ultimately show ?thesis by (intro exI [of _ t]) simp
qed

section \<open>Reachable states\<close>

definition started :: "'d new_sys \<Rightarrow> 't orch \<Rightarrow> bool" where
  "started S s \<longleftrightarrow> (\<exists>cfg. validate cfg = Ok () \<and> orch_new S cfg = Ok s)"

lemma started_inv:
  assumes "started S s"
  shows "orch_inv L T s \<and> routes_current s"
proof -
  obtain cfg where cfg: "validate cfg = Ok ()" "orch_new S cfg = Ok s" using assms by (auto simp: started_def)
  from orch_new_shape [OF cfg(2)] obtain t where t: "s = sync_peers_to_actors t" "alive (or_ctx t) (or_bus t)"
      "or_router t \<in> dom (b_actors (or_bus t))" "or_peers t = new_peers (cfg_peers cfg)" "or_dialing t = []" "or_built t = []" by blast
  have valid: "peers_valid (cfg_peers cfg)" using cfg(1) by (simp add: validate_iff)
  then have ps: "or_peers s = map (\<lambda>p. (peer_id p, peer_entry_new p)) (cfg_peers cfg)"
    using new_peers_table t(1,4) by (simp add: peers_valid_def)
  have ok: "bus_ok t" using t(2,3,5) by (simp add: bus_ok_def alive_def)
  have "bus_ok s" using sync_peers_frame [OF ok] orch_frame_bus_ok ok t(1) by blast
  moreover have "config_table (or_peers s) = map (\<lambda>p. (peer_id p, p)) (cfg_peers cfg)"
    by (simp add: ps config_table_def peer_entry_new_def)
  then have "table_ok (config_table (or_peers s))" using valid by (auto simp: table_ok_def comp_def peers_valid_def)
  moreover have "flights_ok s" by (auto simp: flights_ok_def ps in_flight_def peer_entry_new_def)
  moreover have "built_told L T s" using t(1,6) by (simp add: built_told_def)
  moreover have "preferred_txs (map (\<lambda>p. (peer_id p, peer_entry_new p)) xs) = Map.empty" for xs
    by (induction xs) (simp_all add: preferred_txs_Cons preferred_tx_def peer_entry_new_def, simp add: preferred_txs_def)
  then have "routes_current s" unfolding routes_current_def last_txs_def ps using t(1,6) by simp
  ultimately show ?thesis by (simp add: orch_inv_def)
qed

interpretation orch_loop: inductive_invariant "started S" "orch_trans L T P" "orch_inv L T" for S L T P
  by unfold_locales (auto dest: started_inv orch_trans_inv)

lemma started_run:
  assumes "validate cfg = Ok ()" "orch_new S cfg = Ok s0" "(orch_trans L T P)\<^sup>*\<^sup>* s0 s"
  shows "orch_inv L T s"
proof (rule orch_loop.steps_inv [OF assms(3)])
  show "orch_inv L T s0" using assms(1,2) started_inv unfolding started_def by blast
qed

section \<open>The dialers keep their contract\<close>

locale dialer =
  fixes outcome :: "dial_context \<Rightarrow> connected_event \<Rightarrow> bool"
  assumes outcome_reports: "outcome dial ev \<Longrightarrow> dial_reports dial ev"
begin

lemma outcome_settles: "outcome (dt_context t) ev \<Longrightarrow> task_for pid ip t \<Longrightarrow> settles (Connected ev) pid ip"
  using outcome_reports by (auto simp: dial_reports_def task_for_def settles_def)

lemma outcome_trans:
  assumes "outcome (dt_context t) ev" "t \<in> set (or_dialing s)" "b_actors (or_bus s) (dt_ref t) = Some a" "ac_result a = None"
  shows "orch_trans L T P s (s\<lparr>or_bus := report_dial (dt_ref t) (Ok ev :: (string, connected_event) result) (dt_context t) (or_bus s),
    or_dialing := remove1 t (or_dialing s)\<rparr>)"
  by (rule orch_trans.dialled [OF assms(2-4)]) (use assms(1) outcome_reports in auto)

end

interpretation bare_dialer: dialer "\<lambda>dial ev. fst (dial_bare_tx sys udp_init join_failure local_addr probe bare dial ctx b) = Ok ev"
  for sys udp_init join_failure local_addr probe bare ctx b
  by unfold_locales (auto simp: dial_bare_tx_def dial_reports_def Let_def case_prod_beta split: sum.splits)

interpretation h3_dialer: dialer "\<lambda>dial ev. \<exists>eng b'. dial_h3_client S C V B Q max_datagram tries ph3 dial evs egress_tx ctx b = Some (DialConnected ev eng, b')"
  for S C V B Q max_datagram tries ph3 evs egress_tx ctx b
  by unfold_locales
    (auto simp: dial_h3_client_def dial_reports_def Let_def case_prod_beta split: sum.splits option.splits prod.splits hs_outcome.splits)

section \<open>Tables built and exits\<close>

lemma built_prefix:
  assumes "handle_event E m s = Ok s'" "bus_ok s"
  shows "\<exists>bs. or_built s' = or_built s @ bs"
proof -
  have maintain: "or_built (fst (maintain_all E upd s)) = or_built s" for upd
    by (simp add: maintain_all_def Let_def split: prod.split)
  have rec: "\<exists>bs. or_built (reconcile E s) = or_built s @ bs"
    using maintain [of id] by (auto simp: reconcile_def split: prod.split)
  have conn: "\<exists>bs. or_built (handle_connected E ev s) = or_built s @ bs" for ev
    using update_bound_effect [OF assms(2), of E "ce_peer_id ev" "ce_endpoint ev" "ce_remote_addr ev" "ce_tx ev"]
    unfolding handle_connected_def by (metis append_Nil2)
  show ?thesis
    using assms(1) maintain rec conn
    by (cases m) (auto simp: handle_event_def handle_actor_exit_def handle_dns_snapshot_def handle_post_config_def handle_delete_config_def
      handle_metrics_def handle_dial_failed_def Let_def split: supervision_policy.splits sum.splits option.splits if_splits)
qed

lemma built_stays:
  assumes "orch_trans L T P s s'" "bus_ok s" "or_built s \<noteq> []"
  shows "or_built s' \<noteq> []"
  using assms
proof (induction rule: orch_trans.induct)
  case (arm E arm s)
  have rec: "or_built (reconcile E s) \<noteq> []"
    using arm.prems by (auto simp: reconcile_def maintain_all_def Let_def split: prod.split)
  show ?case
  proof (cases "arm = OrInbox \<and> or_exit s = None")
    case True
    show ?thesis
    proof (cases "or_inbox s")
      case (Cons m ms)
      have "or_built s' \<noteq> []" if "handle_event E m (or_pop s) = Ok s'" for s'
        using built_prefix [OF that or_pop_ok [OF arm.prems(1)]] arm.prems(2) by auto
      then show ?thesis
        using True Cons arm.prems by (cases "handle_event E m (or_pop s)"; cases m) (auto simp: orch_step_def)
    qed (use True arm.prems in \<open>simp add: orch_step_def\<close>)
  next
    case False
    then show ?thesis using arm.prems rec by (cases arm) (auto simp: orch_step_def split: option.split)
  qed
qed simp_all

lemma exit_kept [simp]:
  "or_exit (update_routing E s) = or_exit s" "or_exit (update_accepted_sources s) = or_exit s"
  "or_exit (sync_peers_to_actors s) = or_exit s" "or_exit (or_reply c r s) = or_exit s"
  "or_exit (fst (maintain_all E upd s)) = or_exit s"
  by (simp_all add: update_routing_def update_accepted_sources_def sync_peers_to_actors_def or_reply_def maintain_all_def Let_def
    split: option.split sum.split prod.split)

lemma exit_reconcile [simp]: "or_exit (reconcile E s) = or_exit s"
  using exit_kept(5) [of E id s] by (cases "maintain_all E id s") (auto simp: reconcile_def)

lemma exit_event: "handle_event E m s = Ok s' \<Longrightarrow> or_exit s' = or_exit s"
  by (cases m) (auto simp: handle_event_def handle_actor_exit_def handle_dns_snapshot_def handle_post_config_def handle_delete_config_def
    handle_metrics_def handle_dial_failed_def handle_connected_def update_bound_def Let_def
    split: supervision_policy.splits sum.splits option.splits if_splits prod.splits)

section \<open>Repeated failures\<close>

text \<open>
  In a round of failure, the orchestrator reconciles at least once, which starts the dial when it may, and
  then handles the report that the dial of the address failed.
\<close>

type_synonym 't round_envs = "'t orch_env \<times> 't orch_env list \<times> 't orch_env"

definition failing_round :: "string \<Rightarrow> ip_addr \<Rightarrow> 't round_envs \<Rightarrow> 't orch \<Rightarrow> 't orch" where
  "failing_round pid ip r s =
     (case r of (E, Es, F) \<Rightarrow> handle_dial_failed F \<lparr>df_peer_id = pid, df_ip = ip\<rparr> (fold reconcile (E # Es) s))"

definition failing_rounds :: "string \<Rightarrow> ip_addr \<Rightarrow> 't round_envs list \<Rightarrow> 't orch \<Rightarrow> 't orch" where
  "failing_rounds pid ip = fold (failing_round pid ip)"

definition rounds_ok :: "'t round_envs list \<Rightarrow> bool" where
  "rounds_ok rs \<longleftrightarrow> (\<forall>(E, Es, F)\<in>set rs. order_ok E \<and> (\<forall>E'\<in>set Es. order_ok E'))"

definition entry_at :: "tuning \<Rightarrow> string \<Rightarrow> ip_addr \<Rightarrow> (dial_state option \<Rightarrow> bool) \<Rightarrow> 't orch \<Rightarrow> bool" where
  "entry_at tn pid ip Q s \<longleftrightarrow> or_tuning s = tn \<and>
     (\<exists>e. map_of (or_peers s) pid = Some e \<and> lacks_conn e ip \<and> finite (pe_resolved_ips e) \<and> Q (pe_dials e ip))"

lemma list_all2_map_of:
  assumes "list_all2 (\<lambda>(k, x) (k', y). k' = k \<and> R x y) xs ys" "map_of xs k = Some x"
  shows "\<exists>y. map_of ys k = Some y \<and> R x y"
  using assms by (induction rule: list_all2_induct) (auto split: if_splits)

definition may_dial :: "time \<Rightarrow> dial_state option \<Rightarrow> bool" where
  "may_dial now d = (case d of Some st \<Rightarrow> \<not> dl_in_flight st \<and> dl_next_allowed_at st \<le> now | None \<Rightarrow> True)"

lemma dialable_may_dial: "dialable now e ip \<longleftrightarrow> may_dial now (pe_dials e ip)"
  by (auto simp: dialable_def may_dial_def split: option.split)

lemma reconcile_entry:
  assumes "bus_ok s" "order_ok E" "entry_at tn pid ip Q s"
    and "\<And>d. Q d \<Longrightarrow> R (if may_dial (oe_now E) d then Some (dial_marked (oe_now E) d) else d)"
  shows "bus_ok (reconcile E s) \<and> entry_at tn pid ip R (reconcile E s)"
proof -
  obtain m changed where m: "maintain_all E id s = (m, changed)" by fastforce
  have peers: "or_peers (reconcile E s) = or_peers m" by (simp add: reconcile_def m)
  from maintain_all_spec [OF assms(1) m] obtain new where
    all2: "list_all2 (\<lambda>(pid, e) (pid', e'). pid' = pid \<and> maintained E new (id e) e') (or_peers s) (or_peers m)" by blast
  obtain e where e: "or_tuning s = tn" "map_of (or_peers s) pid = Some e" "lacks_conn e ip" "finite (pe_resolved_ips e)" "Q (pe_dials e ip)"
    using assms(3) by (auto simp: entry_at_def)
  from list_all2_map_of [OF all2 e(2)] obtain e' where e': "map_of (or_peers m) pid = Some e'" "maintained E new e e'" by auto
  have "lacks_conn e' ip" "finite (pe_resolved_ips e')"
    using e(3,4) e'(2) by (auto simp: maintained_def lacks_conn_def)
  moreover have "R (pe_dials e' ip)"
    using assms(4) [OF e(5)] e(3,4) e'(2) assms(2) by (simp add: maintained_def dialable_may_dial)
  moreover note fr = reconcile_frame [OF assms(1), of E]
  moreover have "or_tuning (reconcile E s) = tn" using fr e(1) by (simp add: orch_frame_def)
  ultimately show ?thesis using e'(1) orch_frame_bus_ok [OF fr assms(1)] unfolding entry_at_def peers by blast
qed

definition attempts :: "nat \<Rightarrow> dial_state option \<Rightarrow> bool" where
  "attempts k d \<longleftrightarrow> (\<exists>st. d = Some st \<and> dl_attempt st = min u32_max k)"

lemma attempts_marked: "attempts k d \<Longrightarrow> attempts k (if may_dial now d then Some (dial_marked now d) else d)"
  by (auto simp: attempts_def dial_marked_def)

lemma reconciles_attempts:
  assumes "bus_ok s" "entry_at tn pid ip (attempts k) s" "\<forall>E\<in>set Es. order_ok E"
  shows "bus_ok (fold reconcile Es s) \<and> entry_at tn pid ip (attempts k) (fold reconcile Es s)"
  using assms
proof (induction Es arbitrary: s)
  case (Cons E Es)
  then have "bus_ok (reconcile E s) \<and> entry_at tn pid ip (attempts k) (reconcile E s)"
    by (intro reconcile_entry attempts_marked) auto
  then show ?case using Cons by simp
qed simp

definition backoff :: "tuning \<Rightarrow> nat \<Rightarrow> duration" where
  "backoff tn k = min (reconnect_backoff_max tn) (reconnect_backoff_min tn * 2 ^ min k 30)"

lemma handle_dial_failed_entry:
  assumes "bus_ok s" "entry_at tn pid ip (attempts k) s" "reconnect_backoff_max tn \<le> duration_max"
  shows "bus_ok (handle_dial_failed F \<lparr>df_peer_id = pid, df_ip = ip\<rparr> s) \<and>
    entry_at tn pid ip (\<lambda>d. d = Some \<lparr>dl_attempt = min u32_max (Suc k), dl_next_allowed_at = oe_now F + backoff tn k, dl_in_flight = False\<rparr>)
      (handle_dial_failed F \<lparr>df_peer_id = pid, df_ip = ip\<rparr> s)"
proof -
  obtain e st where e: "or_tuning s = tn" "map_of (or_peers s) pid = Some e" "lacks_conn e ip" "finite (pe_resolved_ips e)"
      "pe_dials e ip = Some st" "dl_attempt st = min u32_max k" using assms(2) by (auto simp: entry_at_def attempts_def)
  have u: "30 \<le> u32_max" by (simp add: u32_max_def)
  then have m: "min (min u32_max k) 30 = min k 30" "min u32_max (Suc (min u32_max k)) = min u32_max (Suc k)" by linarith+
  have rf: "record_failure (oe_now F) (reconnect_backoff_min tn) (reconnect_backoff_max tn) st =
      \<lparr>dl_attempt = min u32_max (Suc k), dl_next_allowed_at = oe_now F + backoff tn k, dl_in_flight = False\<rparr>"
    using assms(3) m by (simp add: record_failure_def e(6) backoff_def Let_def dur_sat_mul_def min_def)
  have h: "handle_dial_failed F \<lparr>df_peer_id = pid, df_ip = ip\<rparr> s =
      s\<lparr>or_peers := AList.update pid (e\<lparr>pe_dials := (pe_dials e)(ip \<mapsto> record_failure (oe_now F) (reconnect_backoff_min tn) (reconnect_backoff_max tn) st)\<rparr>) (or_peers s)\<rparr>"
    using e by (simp add: handle_dial_failed_def)
  show ?thesis
    unfolding h rf using assms(1) e by (simp add: entry_at_def bus_ok_def update_conv' lacks_conn_def)
qed

definition unfailed :: "dial_state option \<Rightarrow> bool" where
  "unfailed d \<longleftrightarrow> (\<forall>st. d = Some st \<longrightarrow> dl_attempt st = 0)"

definition failed_at :: "tuning \<Rightarrow> string \<Rightarrow> ip_addr \<Rightarrow> time \<Rightarrow> nat \<Rightarrow> 't orch \<Rightarrow> bool" where
  "failed_at tn pid ip now k s \<longleftrightarrow>
     entry_at tn pid ip (\<lambda>d. d = Some \<lparr>dl_attempt = min u32_max (Suc k), dl_next_allowed_at = now + backoff tn k, dl_in_flight = False\<rparr>) s"

lemma unfailed_marked: "unfailed d \<Longrightarrow> attempts 0 (if may_dial now d then Some (dial_marked now d) else d)"
  by (cases d) (auto simp: unfailed_def attempts_def may_dial_def dial_marked_def new_in_flight_def)

lemma failing_round_entry:
  assumes "bus_ok s" "entry_at tn pid ip Q s" "reconnect_backoff_max tn \<le> duration_max" "rounds_ok [(E, Es, F)]"
    and "\<And>d. Q d \<Longrightarrow> attempts k (if may_dial (oe_now E) d then Some (dial_marked (oe_now E) d) else d)"
  shows "bus_ok (failing_round pid ip (E, Es, F) s) \<and> failed_at tn pid ip (oe_now F) k (failing_round pid ip (E, Es, F) s)"
proof -
  have ok: "order_ok E" "\<forall>E\<in>set Es. order_ok E" using assms(4) by (simp_all add: rounds_ok_def)
  have "bus_ok (reconcile E s) \<and> entry_at tn pid ip (attempts k) (reconcile E s)"
    by (rule reconcile_entry [OF assms(1) ok(1) assms(2)]) (rule assms(5))
  then have "bus_ok (fold reconcile Es (reconcile E s)) \<and> entry_at tn pid ip (attempts k) (fold reconcile Es (reconcile E s))"
    using reconciles_attempts ok(2) by blast
  then show ?thesis
    using handle_dial_failed_entry [OF _ _ assms(3), of _ pid ip k F] unfolding failing_round_def failed_at_def prod.case fold_simps by blast
qed

lemma failing_rounds_tracked:
  assumes "bus_ok s" "entry_at tn pid ip unfailed s" "reconnect_backoff_max tn \<le> duration_max" "rounds_ok (rs @ [(E, Es, F)])"
  shows "\<exists>n. bus_ok n \<and> failed_at tn pid ip (oe_now F) (length rs) n \<and> n = failing_rounds pid ip (rs @ [(E, Es, F)]) s"
  using assms(4)
proof (induction rs arbitrary: E Es F rule: rev_induct)
  case Nil
  have "bus_ok (failing_round pid ip (E, Es, F) s) \<and> failed_at tn pid ip (oe_now F) 0 (failing_round pid ip (E, Es, F) s)"
    by (rule failing_round_entry [OF assms(1) assms(2,3)])
      (use Nil in simp, rule unfailed_marked)
  then show ?case by (simp add: failing_rounds_def)
next
  case (snoc r rs)
  obtain E0 Es0 F0 where r: "r = (E0, Es0, F0)" by (metis prod_cases3)
  have ok: "rounds_ok (rs @ [(E0, Es0, F0)])" "rounds_ok [(E, Es, F)]" using snoc.prems by (auto simp: rounds_ok_def r)
  from snoc.IH [OF ok(1)] obtain n where n: "bus_ok n" "failed_at tn pid ip (oe_now F0) (length rs) n"
      "n = failing_rounds pid ip (rs @ [(E0, Es0, F0)]) s" by blast
  have "bus_ok (failing_round pid ip (E, Es, F) n) \<and> failed_at tn pid ip (oe_now F) (Suc (length rs)) (failing_round pid ip (E, Es, F) n)"
    by (rule failing_round_entry [OF n(1) n(2) [unfolded failed_at_def] assms(3) ok(2)]) (rule attempts_marked, simp add: attempts_def)
  then show ?case by (simp add: failing_rounds_def n(3) r)
qed

lemma reconcile_after_failure:
  assumes "bus_ok n" "failed_at tn pid ip t k n" "reconnect_backoff_max tn \<le> duration_max" "order_ok E"
  shows "\<exists>e'. map_of (or_peers (reconcile E n)) pid = Some e' \<and>
    (in_flight e' ip \<longleftrightarrow> t + min (reconnect_backoff_max tn) (reconnect_backoff_min tn * 2 ^ min k 30) \<le> oe_now E)"
proof -
  have "bus_ok (reconcile E n) \<and> entry_at tn pid ip (\<lambda>d. (\<exists>st. d = Some st \<and> dl_in_flight st) \<longleftrightarrow> t + backoff tn k \<le> oe_now E) (reconcile E n)"
    by (rule reconcile_entry [OF assms(1,4) assms(2) [unfolded failed_at_def]]) (auto simp: may_dial_def dial_marked_def)
  then show ?thesis by (auto simp: entry_at_def in_flight_def backoff_def)
qed

section \<open>Properties\<close>

text \<open>C8: The peer set is valid in every state. Started from a validated configuration, the orchestrator keeps one entry per
  peer, under the id of the peer, and a peer set that passes validation, whatever peers the management API
  adds, replaces or removes.\<close>

theorem peers_always_valid:
  assumes "validate cfg = Ok ()" "orch_new S cfg = Ok s0" "(orch_trans L T P)\<^sup>*\<^sup>* s0 s"
  shows "validate_peers (peer_configs s) = Ok () \<and> distinct (map fst (or_peers s)) \<and>
    (\<forall>(pid, e)\<in>set (or_peers s). peer_id (pe_config e) = pid)"
proof -
  have "table_ok (config_table (or_peers s))" using started_run [OF assms] by (simp add: orch_inv_def)
  then show ?thesis
    by (fastforce simp: table_ok_def validate_peers_iff peer_configs_table config_table_def comp_def case_prod_beta)
qed

text \<open>C7: Routing follows the connections. After a DNS snapshot, and until a peer is deleted, the last routing table built
  has for every peer exactly its preferred connection, whatever connections come, close or are pruned in
  between; and if that table could be built, the router has been told it or has ended.\<close>

theorem routing_follows_connections:
  assumes "validate cfg = Ok ()" "orch_new S cfg = Ok s0" "(orch_trans L T P)\<^sup>*\<^sup>* s0 s1"
    and "oe_net E = L" "oe_trie E = T" "or_exit s1 = None" "or_inbox s1 = DnsSnapshot state # ms"
    and "(orch_trans L T (\<lambda>m. \<not> deletes_peers m))\<^sup>*\<^sup>* (orch_step E OrInbox s1) s2"
  shows "\<exists>configs. or_built s2 \<noteq> [] \<and> last (or_built s2) = (configs, preferred_txs (or_peers s2)) \<and>
    (\<forall>table. rt_make L T configs (preferred_txs (or_peers s2)) (lc_tun (or_local s2)) (or_input_tx s2) = Ok table \<longrightarrow>
       told (or_bus s2) (or_router s2) (UpdateRouting table))"
proof -
  let ?s = "orch_step E OrInbox s1"
  have inv: "orch_inv L T ?s" using orch_step_inv [OF started_run [OF assms(1-3)] assms(4,5)] .
  have eq: "?s = handle_dns_snapshot E state (or_pop s1)"
    using assms(6,7) by (simp add: orch_step_def handle_event_def)
  have "orch_inv L T s2 \<and> routes_current s2 \<and> or_built s2 \<noteq> []"
    using assms(8)
  proof (induction rule: rtranclp_induct)
    case base
    show ?case using inv by (simp add: eq handle_dns_snapshot_def routing_current)
  next
    case (step t u)
    then have "orch_inv L T u" using orch_trans_inv by blast
    moreover have "routes_current u" using step orch_trans_routes [of L T t u] by (auto simp: orch_inv_def)
    moreover have "or_built u \<noteq> []" using built_stays [OF step.hyps(2)] step.IH by (auto simp: orch_inv_def)
    ultimately show ?case by blast
  qed
  then have inv2: "orch_inv L T s2" and r: "routes_current s2" "or_built s2 \<noteq> []" by blast+
  obtain configs txs where last: "last (or_built s2) = (configs, txs)" by fastforce
  with r have txs: "txs = preferred_txs (or_peers s2)" by (simp add: routes_current_def last_txs_def)
  have "(configs, txs) \<in> set (or_built s2)" using last r(2) by (metis last_in_set)
  then show ?thesis using inv2 r(2) last txs unfolding orch_inv_def built_told_def by blast
qed

text \<open>C6: No dial is lost. In every state, an address that a peer has marked as being dialled has a dial for that peer
  and address whose task is running and has still to report, or the report of such a dial waits in the inbox of the
  orchestrator. The one exception is a dial whose task has crashed before its report, which the exit of
  a detached task does not repair.\<close>

theorem no_dial_is_lost:
  assumes "validate cfg = Ok ()" "orch_new S cfg = Ok s0" "(orch_trans L T P)\<^sup>*\<^sup>* s0 s"
    and "(pid, e) \<in> set (or_peers s)" "pe_dials e ip = Some st" "dl_in_flight st"
  shows "(\<exists>t\<in>set (or_dialing s). \<exists>a. dc_peer_id (dt_context t) = pid \<and> dc_dial_ip (dt_context t) = ip \<and>
      b_actors (or_bus s) (dt_ref t) = Some a \<and> ac_owner a = or_ctx s \<and> (ac_result a = None \<or> (\<exists>x. ac_result a = Some (Err x)))) \<or>
    (\<exists>m\<in>set (or_inbox s). settles m pid ip)"
proof -
  have inv: "bus_ok s" "flights_ok s" using started_run [OF assms(1-3)] by (simp_all add: orch_inv_def)
  with assms(4-6) consider t where "t \<in> set (or_dialing s)" "task_for pid ip t" | "\<exists>m\<in>set (or_inbox s). settles m pid ip"
    unfolding flights_ok_def in_flight_def by blast
  then show ?thesis
  proof cases
    case 1
    then show ?thesis using inv(1) unfolding bus_ok_def dial_pending_def task_for_def by blast
  qed blast
qed

text \<open>C16: A failed dial is retried after the right delay and not before. Let an address be resolved, not covered by a
  connection, and not have failed since its dials are tracked (it is not being dialled, or by a dial without an earlier
  failure). When its dial then fails n + 1 times in a row, each time after one or more reconciliations,
  the next reconciliation has it dialled exactly if the minimal backoff times \<open>2\<^sup>n\<close> (n counted up to 30), at most
  the maximal backoff, has passed since the last failure.\<close>

theorem failed_dial_backs_off:
  assumes "validate cfg = Ok ()" "orch_new S cfg = Ok s0" "(orch_trans L T P)\<^sup>*\<^sup>* s0 s"
    and "map_of (or_peers s) pid = Some e" "\<forall>st. pe_dials e ip = Some st \<longrightarrow> dl_attempt st = 0" "ip \<in> pe_resolved_ips e" "finite (pe_resolved_ips e)"
    and "\<forall>b\<in>set (pe_bounds e). fst (an_dest b) \<noteq> ip"
    and "reconnect_backoff_max (or_tuning s) \<le> duration_max" "order_ok E" "rounds_ok (rs @ [(E1, Es, F)])"
  shows "\<exists>e' . map_of (or_peers (reconcile E (failing_rounds pid ip (rs @ [(E1, Es, F)]) s))) pid = Some e' \<and>
    ((\<exists>st. pe_dials e' ip = Some st \<and> dl_in_flight st) \<longleftrightarrow>
       oe_now F + min (reconnect_backoff_max (or_tuning s)) (reconnect_backoff_min (or_tuning s) * 2 ^ min (length rs) 30) \<le> oe_now E)"
proof -
  have "bus_ok s" using started_run [OF assms(1-3)] by (simp add: orch_inv_def)
  moreover have "lacks_conn e ip" using assms(6,8) by (simp add: lacks_conn_def)
  ultimately have s: "bus_ok s" "entry_at (or_tuning s) pid ip unfailed s"
    using assms(4,5,7) unfolding entry_at_def unfailed_def by blast+
  from failing_rounds_tracked [OF s assms(9,11)]
  obtain n where n: "bus_ok n" "failed_at (or_tuning s) pid ip (oe_now F) (length rs) n" "n = failing_rounds pid ip (rs @ [(E1, Es, F)]) s" by blast
  from reconcile_after_failure [OF n(1,2) assms(9,10)] show ?thesis unfolding n(3) in_flight_def by blast
qed

text \<open>C17: The orchestrator ends in an error exactly when a critical actor has exited or the bus has failed. Handling the exit
  of a critical actor always ends the loop, with the name of the actor in the error, even if the actor
  reported success; the exit of any other actor never does.\<close>

theorem critical_exit_ends_run:
  assumes "or_exit s = None"
  shows "or_exit (orch_step E arm s) = Some (Err e) \<longleftrightarrow>
    (\<exists>x. arm = OrDrive (Some x) \<and> e = [''drive actor bus'', x]) \<or>
    (\<exists>exit ms. arm = OrInbox \<and> or_inbox s = ActorExited exit # ms \<and> x_policy exit = Critical \<and>
       e = (case x_result exit of
              Ok (Err actor_error) \<Rightarrow> [''critical actor `'' @ x_name exit @ ''` failed'', actor_error]
            | Ok (Ok _) \<Rightarrow> [''critical actor `'' @ x_name exit @ ''` exited unexpectedly'']
            | Err error \<Rightarrow> [''join critical actor `'' @ x_name exit @ ''`'', error]))"
proof (cases "arm = OrInbox")
  case True
  show ?thesis
  proof (cases "or_inbox s")
    case Nil
    then show ?thesis using True assms by (simp add: orch_step_def)
  next
    case (Cons m ms)
    show ?thesis
    proof (cases "handle_event E m (or_pop s)")
      case (Inl err)
      then obtain x where "m = ActorExited x" "handle_actor_exit E x (or_pop s) = Err err" using handle_event_err by blast
      then show ?thesis
        using True Cons Inl assms by (auto simp: orch_step_def handle_actor_exit_def split: supervision_policy.splits)
    next
      case (Inr s')
      have "or_exit s' = None" using exit_event [OF Inr] assms by simp
      moreover have "x_policy x \<noteq> Critical" if "m = ActorExited x" for x
        using Inr that by (auto simp: handle_event_def handle_actor_exit_def)
      ultimately show ?thesis
        using True Cons Inr assms by (cases m) (auto simp: orch_step_def)
    qed
  qed
next
  case False
  then show ?thesis using assms by (cases arm) (auto simp: orch_step_def split: option.split)
qed

section \<open>A node with one peer\<close>

definition sample_bare_peer :: peer where
  "sample_bare_peer = \<lparr>peer_id = ''p'', peer_transport = Bare \<lparr>pbare_endpoint = \<lparr>udp_host = ''h'', udp_port = 9\<rparr>, pbare_bindif = None\<rparr>,
     peer_tun = \<lparr>allowed_ips = [NetV4 0x0a000200 24]\<rparr>\<rparr>"

definition sample_config :: config where
  "sample_config = \<lparr>cfg_local = \<lparr>lc_table = False, lc_dns = \<lparr>dns_server = (V4 1, 53), dns_bindif = None\<rparr>, lc_h3 = None, lc_bare = None,
       lc_api = None, lc_tun = \<lparr>tun_ifname = ''h3llo0'', tun_addrs = [NetV4 0x0a000001 24], tun_mtu = 1400\<rparr>\<rparr>,
     cfg_tuning = tuning_default, cfg_peers = [sample_bare_peer]\<rparr>"

definition sample_new_sys :: "unit new_sys" where
  "sample_new_sys = \<lparr>ns_runtimes = None, ns_tun_join = None,
     ns_device = \<lparr>dev_build = (\<lambda>_. Ok ()), dev_add_v4 = (\<lambda>_ _ _. Ok ()), dev_name = (\<lambda>_. None), dev_mtu = (\<lambda>_. None)\<rparr>,
     ns_sys = (\<lambda>_. None), ns_udp_init = (\<lambda>_ _ _. Err (UdpSocketError [])), ns_udp_join = None,
     ns_listener = \<lparr>ls_local_addr = (\<lambda>_. Ok (V4 0, 0)), ls_absolute = Ok, ls_parent = (\<lambda>_. None), ls_order = id, ls_watcher = None,
       ls_watch = (\<lambda>_. None)\<rparr>,
     ns_config = \<lparr>cl_new = Ok (), cl_protos = Ok (), cl_cc = (\<lambda>_. Ok ()), cl_cert = (\<lambda>_. Ok ()), cl_key = (\<lambda>_. Ok ()), cl_ca = (\<lambda>_. Ok ())\<rparr>,
     ns_lookup = (\<lambda>_. Ok []), ns_make_route = None, ns_make_api = (\<lambda>_. None), ns_show_addr = (\<lambda>_. []), ns_local_name = (\<lambda>_. [])\<rparr>"

type_synonym sample_trie = "(ipnet \<times> route_entry) list"

definition sample_orch :: "sample_trie orch" where
  "sample_orch = projr (orch_new sample_new_sys sample_config)"

lemma sample_config_valid: "validate sample_config = Ok ()"
proof -
  have "trimmed ''p''" by code_simp
  then have "peers_valid [sample_bare_peer]"
    by (simp add: peers_valid_def sample_bare_peer_def peer_tokens_def peer_token_def peer_fields_ok_def)
  moreover have "tuning_valid tuning_default"
    by (simp add: tuning_valid_def tuning_default_def duration_checks_def io_tuning_default_def dns_tuning_default_def h3_tuning_default_def
        secs_def millis_def cc_algorithms_def)
  ultimately show ?thesis by (simp add: validate_iff sample_config_def local_valid_def)
qed

lemmas sample_new_defs = orch_new_def new_tun_def new_bare_rx_def new_h3_listener_def new_route_def new_api_def spawn_dns_def
  sample_new_sys_def sample_config_def make_tun_def split_addrs_by_version_def spawn_tun_tx_def spawn_tun_rx_def spawn_router_def
  sync_peers_to_actors_def or_send_def bus_mailbox_def actor_spawn_def Let_def

lemma sample_orch_new: "orch_new sample_new_sys sample_config = Ok sample_orch"
  unfolding sample_orch_def by (simp add: sample_new_defs split: prod.split)

lemma sample_orch_start: "or_inbox sample_orch = []" "or_ctx sample_orch = 0" "or_exit sample_orch = None"
  unfolding sample_orch_def
  by (simp_all add: sample_new_defs or_inbox_def deliver_event_def bus_new_def split: prod.split)

text \<open>Addresses are ordered by version and value, so a set of them has a definite list.\<close>

fun ip_key :: "ip_addr \<Rightarrow> nat" where
  "ip_key (V4 w) = 2 * unat w"
| "ip_key (V6 w) = 2 * unat w + 1"

lemma ip_key_inj [simp]: "ip_key a = ip_key b \<longleftrightarrow> a = b"
proof -
  have "2 * m \<noteq> 2 * n + 1" for m n :: nat by presburger
  then show ?thesis by (cases a; cases b) (auto simp: word_unat_eq_iff dest: sym)
qed

instantiation ip_addr :: linorder
begin

definition less_eq_ip_addr :: "ip_addr \<Rightarrow> ip_addr \<Rightarrow> bool" where
  "less_eq_ip_addr a b \<longleftrightarrow> ip_key a \<le> ip_key b"

definition less_ip_addr :: "ip_addr \<Rightarrow> ip_addr \<Rightarrow> bool" where
  "less_ip_addr a b \<longleftrightarrow> ip_key a < ip_key b"

instance
  by standard (auto simp: less_eq_ip_addr_def less_ip_addr_def dest: antisym)

end

definition sample_env :: "sample_trie orch_env" where
  "sample_env = \<lparr>oe_net = ipnet_ref, oe_trie = trie_ref, oe_order = sorted_list_of_set, oe_closed = (\<lambda>_. False),
     oe_now = 5, oe_show_ip = (\<lambda>_. [])\<rparr>"

lemma sample_order: "order_ok (sample_env\<lparr>oe_now := now\<rparr>)"
  by (simp add: order_ok_def sample_env_def)

lemma sample_order_one: "oe_order sample_env {a} = [a]"
  by (simp add: sample_env_def)

text \<open>The node learns the address of its peer and dials it.\<close>

definition sample_after :: "sample_trie event \<Rightarrow> sample_trie orch" where
  "sample_after ev = sample_orch\<lparr>or_bus := fst (actor_send 0 ev (or_bus sample_orch))\<rparr>"

definition sample_snapshot :: dns_state where
  "sample_snapshot = [''h'' \<mapsto> {V4 1}]"

definition sample_dialling :: "sample_trie orch" where
  "sample_dialling = orch_step sample_env OrInbox (sample_after (DnsSnapshot sample_snapshot))"

lemma sample_orch_inv: "orch_inv ipnet_ref trie_ref sample_orch"
  using started_run [OF sample_config_valid sample_orch_new] by blast

lemma sample_after_inbox: "or_inbox (sample_after ev) = [ev]"
proof -
  obtain a where "b_actors (or_bus sample_orch) 0 = Some a" "ac_result a = None"
    using sample_orch_inv sample_orch_start(2) by (auto simp: orch_inv_def bus_ok_def)
  then show ?thesis using sample_orch_start(1,2) by (simp add: sample_after_def or_inbox_def deliver_event_def)
qed

lemma sample_after_reached: "(orch_trans ipnet_ref trie_ref P)\<^sup>*\<^sup>* sample_orch (sample_after ev)"
proof -
  have "fresh_inv (or_bus sample_orch)" using sample_orch_inv by (simp add: orch_inv_def bus_ok_def)
  then have "orch_trans ipnet_ref trie_ref P sample_orch (sample_after ev)"
    unfolding sample_after_def using sample_orch_start(2)
    using sample_orch_inv
    by (intro orch_trans.others bus_step.send dial_pending_send) (simp_all add: actor_send_evolves orch_inv_def bus_ok_def)
  then show ?thesis by blast
qed

lemma sample_dialling_reached: "(orch_trans ipnet_ref trie_ref (\<lambda>_. True))\<^sup>*\<^sup>* sample_orch sample_dialling"
proof -
  have "orch_trans ipnet_ref trie_ref (\<lambda>_. True) (sample_after (DnsSnapshot sample_snapshot)) sample_dialling"
    unfolding sample_dialling_def by (rule orch_trans.arm) (simp_all add: sample_env_def)
  then show ?thesis using sample_after_reached by (meson rtranclp.rtrancl_into_rtrancl)
qed

lemma sample_dialling_peers:
  "or_peers sample_dialling = [(''p'', (peer_entry_new sample_bare_peer)\<lparr>pe_resolved_ips := {V4 1}, pe_dials := [V4 1 \<mapsto> new_in_flight 5]\<rparr>)]"
  "or_tuning sample_dialling = tuning_default"
proof -
  have st: "or_peers sample_orch = [(''p'', peer_entry_new sample_bare_peer)]" "or_tuning sample_orch = tuning_default"
    unfolding sample_orch_def
    by (simp_all add: sample_new_defs new_peers_def sample_bare_peer_def split: prod.split)
  have now: "oe_now sample_env = 5" "oe_closed sample_env = (\<lambda>_. False)" by (simp_all add: sample_env_def)
  have eq: "sample_dialling = handle_dns_snapshot sample_env sample_snapshot (or_pop (sample_after (DnsSnapshot sample_snapshot)))"
    using sample_after_inbox sample_orch_start(3) by (simp add: sample_dialling_def orch_step_def handle_event_def sample_after_def)
  have host: "peer_dns_hostname sample_bare_peer = Some ''h''" by (simp add: peer_dns_hostname_def sample_bare_peer_def)
  show "or_peers sample_dialling = [(''p'', (peer_entry_new sample_bare_peer)\<lparr>pe_resolved_ips := {V4 1}, pe_dials := [V4 1 \<mapsto> new_in_flight 5]\<rparr>)]"
    unfolding eq handle_dns_snapshot_def maintain_all_def
    by (simp add: sample_after_def st set_resolved_def host sample_snapshot_def peer_entry_new_def prune_def try_connect_def
        uncovered_def dialable_def sample_order_one start_dial_def now preferred_tx_def case_prod_beta Let_def)
  show "or_tuning sample_dialling = tuning_default"
  proof -
    have "bus_ok (sample_after (DnsSnapshot sample_snapshot))"
      using started_run [OF sample_config_valid sample_orch_new sample_after_reached] by (simp add: orch_inv_def)
    from handle_dns_frame [OF or_pop_ok [OF this]] st(2) show ?thesis
      unfolding eq by (simp add: orch_frame_def or_pop_def sample_after_def)
  qed
qed

theorem peers_always_valid_witness:
  "validate_peers (peer_configs sample_dialling) = Ok () \<and> map fst (or_peers sample_dialling) = [''p'']"
  using peers_always_valid [OF sample_config_valid sample_orch_new sample_dialling_reached] sample_dialling_peers(1) by simp

theorem routing_follows_connections_witness:
  "or_built sample_dialling \<noteq> [] \<and> snd (last (or_built sample_dialling)) = preferred_txs (or_peers sample_dialling)"
proof -
  let ?s = "sample_after (DnsSnapshot sample_snapshot)"
  have h: "oe_net sample_env = ipnet_ref" "oe_trie sample_env = trie_ref" "or_exit ?s = None" "or_inbox ?s = DnsSnapshot sample_snapshot # []"
    using sample_after_inbox sample_orch_start(3) by (simp_all add: sample_env_def sample_after_def)
  have "(orch_trans ipnet_ref trie_ref (\<lambda>m. \<not> deletes_peers m))\<^sup>*\<^sup>* (orch_step sample_env OrInbox ?s) sample_dialling"
    by (simp add: sample_dialling_def)
  from routing_follows_connections [OF sample_config_valid sample_orch_new sample_after_reached [where P = "\<lambda>_. True"] h this]
  show ?thesis by auto
qed

theorem no_dial_is_lost_witness:
  "(\<exists>t\<in>set (or_dialing sample_dialling). \<exists>a. dc_peer_id (dt_context t) = ''p'' \<and> dc_dial_ip (dt_context t) = V4 1 \<and>
     b_actors (or_bus sample_dialling) (dt_ref t) = Some a \<and> ac_owner a = or_ctx sample_dialling \<and>
     (ac_result a = None \<or> (\<exists>x. ac_result a = Some (Err x)))) \<or>
   (\<exists>m\<in>set (or_inbox sample_dialling). settles m ''p'' (V4 1))"
proof -
  let ?e = "(peer_entry_new sample_bare_peer)\<lparr>pe_resolved_ips := {V4 1}, pe_dials := [V4 1 \<mapsto> new_in_flight 5]\<rparr>"
  have h: "(''p'', ?e) \<in> set (or_peers sample_dialling)" "pe_dials ?e (V4 1) = Some (new_in_flight 5)" "dl_in_flight (new_in_flight 5)"
    by (simp_all add: sample_dialling_peers(1)) (simp add: new_in_flight_def)
  show ?thesis by (rule no_dial_is_lost [OF sample_config_valid sample_orch_new sample_dialling_reached h])
qed

text \<open>The dial fails at once and, after three seconds, a second time, so it is tried again after six more.\<close>

definition sample_at :: "time \<Rightarrow> sample_trie orch_env" where
  "sample_at t = sample_env\<lparr>oe_now := 5 + secs t\<rparr>"

definition sample_rounds :: "sample_trie round_envs list" where
  "sample_rounds = [(sample_at 0, [], sample_at 0), (sample_at 1, [sample_at 3], sample_at 3)]"

theorem failed_dial_backs_off_witness:
  "(\<exists>e'. map_of (or_peers (reconcile (sample_at 8) (failing_rounds ''p'' (V4 1) sample_rounds sample_dialling))) ''p'' = Some e' \<and>
     \<not> (\<exists>st. pe_dials e' (V4 1) = Some st \<and> dl_in_flight st)) \<and>
   (\<exists>e'. map_of (or_peers (reconcile (sample_at 9) (failing_rounds ''p'' (V4 1) sample_rounds sample_dialling))) ''p'' = Some e' \<and>
     (\<exists>st. pe_dials e' (V4 1) = Some st \<and> dl_in_flight st))"
proof -
  let ?e = "(peer_entry_new sample_bare_peer)\<lparr>pe_resolved_ips := {V4 1}, pe_dials := [V4 1 \<mapsto> new_in_flight 5]\<rparr>"
  have h: "map_of (or_peers sample_dialling) ''p'' = Some ?e" "\<forall>st. pe_dials ?e (V4 1) = Some st \<longrightarrow> dl_attempt st = 0"
    "V4 1 \<in> pe_resolved_ips ?e" "finite (pe_resolved_ips ?e)" "\<forall>b\<in>set (pe_bounds ?e). fst (an_dest b) \<noteq> V4 1"
    "reconnect_backoff_max (or_tuning sample_dialling) \<le> duration_max"
    by (simp_all add: sample_dialling_peers tuning_default_def secs_def duration_max_def new_in_flight_def peer_entry_new_def)
  have rs: "sample_rounds = [(sample_at 0, [], sample_at 0)] @ [(sample_at 1, [sample_at 3], sample_at 3)]" by (simp add: sample_rounds_def)
  have ord: "order_ok (sample_at t)" for t unfolding sample_at_def by (rule sample_order)
  have now: "oe_now (sample_at t) = 5 + secs t" for t by (simp add: sample_at_def)
  have "rounds_ok ([(sample_at 0, [], sample_at 0)] @ [(sample_at 1, [sample_at 3], sample_at 3)])" by (simp add: rounds_ok_def ord)
  from failed_dial_backs_off [OF sample_config_valid sample_orch_new sample_dialling_reached h ord this, of 8]
    failed_dial_backs_off [OF sample_config_valid sample_orch_new sample_dialling_reached h ord this, of 9] show ?thesis
    unfolding rs [symmetric] now by (simp add: sample_dialling_peers(2) tuning_default_def secs_def)
qed

theorem critical_exit_ends_run_witness:
  "or_exit (orch_step sample_env OrInbox (sample_after (ActorExited \<lparr>x_name = ''router'', x_policy = Critical, x_result = Ok (Ok ())\<rparr>))) =
     Some (Err [''critical actor `router` exited unexpectedly''])"
  using critical_exit_ends_run [of "sample_after (ActorExited \<lparr>x_name = ''router'', x_policy = Critical, x_result = Ok (Ok ())\<rparr>)" sample_env OrInbox
      "[''critical actor `router` exited unexpectedly'']"] sample_after_inbox sample_orch_start(3)
  by (simp add: sample_after_def)

end
