(* ===== verification/Api.thy ===== *)
theory Api
  imports Lifecycle
begin

text \<open>
  The management API (\<open>api.rs\<close>): the accept loop, the routing of requests, and the handlers that ask the
  orchestrator. A handler runs in two parts: up to the \<open>await\<close> of the reply (\<open>handle_request\<close>), and from the
  reply to the response (\<open>answer_config\<close>, \<open>answer_peers\<close>, \<open>answer_metrics\<close>). The HTTP and YAML libraries
  are parameters.
\<close>

section \<open>Errors as text\<close>

text \<open>How durations and prefixes are written is a parameter of the messages.\<close>

record text_lib =
  tx_duration :: "duration \<Rightarrow> string"
  tx_net :: "ipnet \<Rightarrow> string"

fun show_conflict :: "text_lib \<Rightarrow> conflict \<Rightarrow> string" where
  "show_conflict X (KeepaliveNotBelowIdle a b) =
     ''tuning.h3_keepalive_interval ('' @ tx_duration X a @ '') must be less than tuning.h3_max_idle_timeout ('' @ tx_duration X b @ '')''"
| "show_conflict X (BackoffMinAboveMax a b) =
     ''tuning.reconnect_backoff_min ('' @ tx_duration X a @ '') must not exceed tuning.reconnect_backoff_max ('' @ tx_duration X b @ '')''"

fun show_dup_value :: "text_lib \<Rightarrow> dup_value \<Rightarrow> string" where
  "show_dup_value X (DupString v) = v"
| "show_dup_value X (DupNet n) = tx_net X n"

fun show_validation_error :: "text_lib \<Rightarrow> validation_error \<Rightarrow> string" where
  "show_validation_error X (FieldMustBePositive field) = field @ '' must be greater than 0''"
| "show_validation_error X (FieldConflict c) = ''field conflict: '' @ show_conflict X c"
| "show_validation_error X (FieldEmpty ctx field) = ctx @ '': '' @ field @ '' must not be empty''"
| "show_validation_error X (FieldHasWhitespace ctx field) = ctx @ '': '' @ field @ '' must not have leading or trailing whitespace''"
| "show_validation_error X (DuplicateValue ctx field v) = ctx @ '': duplicate '' @ field @ '' '' @ [CHR 0x27] @ show_dup_value X v @ [CHR 0x27]"
| "show_validation_error X (PeerTokenTooShort pid) =
     ''peer '' @ [CHR 0x27] @ pid @ [CHR 0x27] @ '' requires h3.token of at least 12 characters when h3 is configured''"
| "show_validation_error X (InvalidCcAlgorithm algorithm) =
     ''tuning.h3_cc_algorithm '' @ [CHR 0x27] @ algorithm @ [CHR 0x27] @ '' is not recognized (accepted: reno, cubic, bbr, bbr2, none)''"

fun join_with :: "string \<Rightarrow> string list \<Rightarrow> string" where
  "join_with sep [] = []"
| "join_with sep [x] = x"
| "join_with sep (x # y # xs) = x @ sep @ join_with sep (y # xs)"

definition show_validation_errors :: "text_lib \<Rightarrow> validation_error list \<Rightarrow> string" where
  "show_validation_errors X es = join_with ''; '' (map (show_validation_error X) es)"

fun show_config_error :: "text_lib \<Rightarrow> config_error \<Rightarrow> string" where
  "show_config_error X (Parse e) = ''failed to parse configuration: '' @ e"
| "show_config_error X (Validation es) = ''validation failed: '' @ show_validation_errors X es"

section \<open>Requests and responses\<close>

definition MAX_BODY_SIZE :: nat where
  "MAX_BODY_SIZE = 1024 * 1024"

record post_payload =
  pp_peers :: "peer list"

record delete_peer_ref =
  dr_id :: string

record delete_payload =
  dp_peers :: "delete_peer_ref list"

datatype http_method = MGet | MPost | MDelete | MOther string

record 'b api_request =
  rq_method :: http_method
  rq_path :: string
  rq_body :: 'b

record api_response =
  rs_status :: nat
  rs_headers :: "(string \<times> string) list"
  rs_body :: string

text \<open>
  The library: reading a body with a limit, parsing the two payloads, writing a configuration, the values of a
  snapshot in iteration order, and the parameters of \<open>encode_metrics_snapshot\<close>.
\<close>

record 'b api_lib =
  al_collect :: "nat \<Rightarrow> 'b \<Rightarrow> (string, string) result"
  al_post_yaml :: "string \<Rightarrow> (string, post_payload) result"
  al_delete_yaml :: "string \<Rightarrow> (string, delete_payload) result"
  al_config_yaml :: "config \<Rightarrow> (string, string) result"
  al_values :: "(labels \<rightharpoonup> metrics) \<Rightarrow> metrics list"
  al_text_encode :: "family list \<Rightarrow> string"
  al_show_addr :: "socket_addr \<Rightarrow> string"
  al_quic_text :: "(string, string) result"
  al_text :: text_lib

definition response :: "nat \<Rightarrow> string \<Rightarrow> api_response" where
  "response status body = \<lparr>rs_status = status, rs_headers = [], rs_body = body\<rparr>"

definition yaml_config_response :: "'b api_lib \<Rightarrow> config \<Rightarrow> api_response" where
  "yaml_config_response L config =
     (case al_config_yaml L config of
        Ok yaml \<Rightarrow> \<lparr>rs_status = 200, rs_headers = [(''content-type'', ''application/yaml'')], rs_body = yaml\<rparr>
      | Err e \<Rightarrow> response 500 (''serialization error: '' @ e))"

section \<open>Asking the orchestrator\<close>

datatype api_wait = AwaitConfig | AwaitPeers | AwaitMetrics

text \<open>The part of \<open>send_and_await\<close> up to the reply, and the part after it; a dropped sender is \<open>None\<close>.\<close>

definition send_event_to_owner ::
  "chan \<Rightarrow> 't event \<Rightarrow> api_wait \<Rightarrow> 't bus \<Rightarrow> 't bus \<times> (api_response, api_wait) result" where
  "send_event_to_owner ctx ev w b =
     (let (b, sent) = actor_notify_owner ctx ev b
      in (b, if sent then Ok w else Err (response 500 ''orchestrator unavailable'')))"

definition await_reply :: "'r option \<Rightarrow> (api_response, 'r) result" where
  "await_reply reply = (case reply of Some r \<Rightarrow> Ok r | None \<Rightarrow> Err (response 500 ''orchestrator dropped reply''))"

definition answer_config :: "'b api_lib \<Rightarrow> config option \<Rightarrow> api_response" where
  "answer_config L reply =
     (case await_reply reply of Ok config \<Rightarrow> yaml_config_response L config | Err err_resp \<Rightarrow> err_resp)"

definition answer_peers :: "'b api_lib \<Rightarrow> (config_error, config) result option \<Rightarrow> api_response" where
  "answer_peers L reply =
     (case await_reply reply of
        Ok (Ok config) \<Rightarrow> yaml_config_response L config
      | Ok (Err e) \<Rightarrow> response 400 (show_config_error (al_text L) e)
      | Err err_resp \<Rightarrow> err_resp)"

definition answer_metrics :: "'b api_lib \<Rightarrow> (labels \<rightharpoonup> metrics) option \<Rightarrow> api_response" where
  "answer_metrics L reply =
     (case await_reply reply of
        Ok snap \<Rightarrow>
          \<lparr>rs_status = 200,
           rs_headers = [(''content-type'', ''application/openmetrics-text; version=1.0.0; charset=utf-8'')],
           rs_body = encode_metrics_snapshot (al_text_encode L) (al_show_addr L) (collect_quic_metrics (al_quic_text L)) (al_values L snap)\<rparr>
      | Err err_resp \<Rightarrow> err_resp)"

section \<open>Handlers\<close>

definition api_get_config :: "chan \<Rightarrow> chan \<Rightarrow> 't bus \<Rightarrow> 't bus \<times> (api_response, api_wait) result" where
  "api_get_config reply_tx ctx b = send_event_to_owner ctx (GetConfig reply_tx) AwaitConfig b"

definition api_post_config ::
  "'b api_lib \<Rightarrow> 'b api_request \<Rightarrow> chan \<Rightarrow> chan \<Rightarrow> 't bus \<Rightarrow> 't bus \<times> (api_response, api_wait) result" where
  "api_post_config L req reply_tx ctx b =
     (case al_collect L MAX_BODY_SIZE (rq_body req) of
        Err e \<Rightarrow> (b, Err (response 400 (''body read error: '' @ e)))
      | Ok body \<Rightarrow>
          (case al_post_yaml L body of
             Err e \<Rightarrow> (b, Err (response 400 (''invalid YAML: '' @ e)))
           | Ok payload \<Rightarrow> send_event_to_owner ctx (PostConfig (pp_peers payload) reply_tx) AwaitPeers b))"

definition api_delete_config ::
  "'b api_lib \<Rightarrow> 'b api_request \<Rightarrow> chan \<Rightarrow> chan \<Rightarrow> 't bus \<Rightarrow> 't bus \<times> (api_response, api_wait) result" where
  "api_delete_config L req reply_tx ctx b =
     (case al_collect L MAX_BODY_SIZE (rq_body req) of
        Err e \<Rightarrow> (b, Err (response 400 (''body read error: '' @ e)))
      | Ok body \<Rightarrow>
          (case al_delete_yaml L body of
             Err e \<Rightarrow> (b, Err (response 400 (''invalid YAML: '' @ e)))
           | Ok payload \<Rightarrow> send_event_to_owner ctx (DeleteConfig (map dr_id (dp_peers payload)) reply_tx) AwaitPeers b))"

definition api_get_metrics :: "chan \<Rightarrow> chan \<Rightarrow> 't bus \<Rightarrow> 't bus \<times> (api_response, api_wait) result" where
  "api_get_metrics reply_tx ctx b = send_event_to_owner ctx (GetMetricsSnapshot reply_tx) AwaitMetrics b"

definition trim_end_slashes :: "string \<Rightarrow> string" where
  "trim_end_slashes s = rev (dropWhile (\<lambda>c. c = CHR ''/'') (rev s))"

definition relative_path :: "string \<Rightarrow> string \<Rightarrow> string option" where
  "relative_path base_path path =
     (let base = trim_end_slashes base_path in
      if base = [] then Some path
      else case strip_prefix path base of
             Some rest \<Rightarrow>
               if rest = [] \<or> take 1 rest = ''/'' then (if rest = [] then Some ''/'' else Some rest) else None
           | None \<Rightarrow> None)"

definition handle_request ::
  "'b api_lib \<Rightarrow> string \<Rightarrow> 'b api_request \<Rightarrow> chan \<Rightarrow> chan \<Rightarrow> 't bus \<Rightarrow> 't bus \<times> (api_response, api_wait) result" where
  "handle_request L base_path req reply_tx ctx b =
     (case relative_path base_path (rq_path req) of
        None \<Rightarrow> (b, Err (response 404 ''not found''))
      | Some relative \<Rightarrow>
          if rq_method req = MGet \<and> relative \<in> {''/config'', ''/config/''} then api_get_config reply_tx ctx b
          else if rq_method req = MPost \<and> relative \<in> {''/config'', ''/config/''} then api_post_config L req reply_tx ctx b
          else if rq_method req = MDelete \<and> relative \<in> {''/config'', ''/config/''} then api_delete_config L req reply_tx ctx b
          else if rq_method req = MGet \<and> relative \<in> {''/metrics'', ''/metrics/''} then api_get_metrics reply_tx ctx b
          else (b, Err (response 404 ''not found'')))"

text \<open>
  One turn of the accept loop. \<open>accepted\<close> is the outcome of \<open>accept\<close> if it is ready; the loop ends with a
  result, or goes on after spawning the actor of the connection.
\<close>

definition api_accept_step ::
  "'b api_lib \<Rightarrow> chan \<Rightarrow> 't event list \<Rightarrow> (string, socket_addr) result option \<Rightarrow> 't bus \<Rightarrow> 't bus \<times> (error_chain, unit) result option" where
  "api_accept_step L ctx inbox accepted b =
     (case run_until_stopped inbox accepted of
        None \<Rightarrow> (b, None)
      | Some None \<Rightarrow> (b, Some (Ok ()))
      | Some (Some (Err e)) \<Rightarrow> (b, Some (Err [''accept management API connection'', e]))
      | Some (Some (Ok remote)) \<Rightarrow>
          (fst (actor_spawn ctx (''api-connection['' @ al_show_addr L remote @ '']'') Detached b), None))"

section \<open>One request served\<close>

text \<open>
  The response to a request whose event the orchestrator handles next: the reply is the one sent on the channel
  of the request.
\<close>

definition answer :: "'b api_lib \<Rightarrow> api_wait \<Rightarrow> orch_reply option \<Rightarrow> api_response" where
  "answer L w reply =
     (case w of
        AwaitConfig \<Rightarrow> answer_config L (case reply of Some (ConfigReply c) \<Rightarrow> Some c | _ \<Rightarrow> None)
      | AwaitPeers \<Rightarrow> answer_peers L (case reply of Some (PeersReply r) \<Rightarrow> Some r | _ \<Rightarrow> None)
      | AwaitMetrics \<Rightarrow> answer_metrics L (case reply of Some (MetricsReply m) \<Rightarrow> Some m | _ \<Rightarrow> None))"

definition api_serve ::
  "'t orch_env \<Rightarrow> 'b api_lib \<Rightarrow> string \<Rightarrow> 'b api_request \<Rightarrow> chan \<Rightarrow> chan \<Rightarrow> 't orch \<Rightarrow> 't orch \<times> api_response" where
  "api_serve E L base_path req reply_tx ctx s =
     (case handle_request L base_path req reply_tx ctx (or_bus s) of
        (b, Err resp) \<Rightarrow> (s\<lparr>or_bus := b\<rparr>, resp)
      | (b, Ok w) \<Rightarrow>
          (let s = orch_step E OrInbox (s\<lparr>or_bus := b\<rparr>)
           in (s, answer L w (map_of (or_replies s) reply_tx))))"


section \<open>What the API promises\<close>

text \<open>
  The contract on the table of configured peers: what a request makes of it, and the response.
\<close>

definition config_request :: "string \<Rightarrow> 'b api_request \<Rightarrow> bool" where
  "config_request base_path req \<longleftrightarrow>
     rq_path req \<in> {trim_end_slashes base_path @ ''/config'', trim_end_slashes base_path @ ''/config/''}"

definition metrics_request :: "string \<Rightarrow> 'b api_request \<Rightarrow> bool" where
  "metrics_request base_path req \<longleftrightarrow> rq_method req = MGet \<and>
     rq_path req \<in> {trim_end_slashes base_path @ ''/metrics'', trim_end_slashes base_path @ ''/metrics/''}"

definition api_payload :: "'b api_lib \<Rightarrow> (string \<Rightarrow> (string, 'p) result) \<Rightarrow> 'b api_request \<Rightarrow> (api_response, 'p) result" where
  "api_payload L parse req =
     (case al_collect L MAX_BODY_SIZE (rq_body req) of
        Err e \<Rightarrow> Err (response 400 (''body read error: '' @ e))
      | Ok body \<Rightarrow> (case parse body of Err e \<Rightarrow> Err (response 400 (''invalid YAML: '' @ e)) | Ok p \<Rightarrow> Ok p))"

text \<open>The table after a POST: each configured peer is replaced by the last posted one with its id, and the
  posted peers with a new id follow.\<close>

definition posted :: "peer list \<Rightarrow> string \<rightharpoonup> peer" where
  "posted new = map_of (rev (map (\<lambda>p. (peer_id p, p)) new))"

definition posted_table :: "peer list \<Rightarrow> (string \<times> peer) list \<Rightarrow> (string \<times> peer) list" where
  "posted_table new table =
     map (\<lambda>(pid, p). (pid, case posted new pid of Some q \<Rightarrow> q | None \<Rightarrow> p)) table @
     map (\<lambda>pid. (pid, the (posted new pid))) (filter (\<lambda>pid. pid \<notin> fst ` set table) (rev (remdups (rev (map peer_id new)))))"

definition api_spec ::
  "'b api_lib \<Rightarrow> string \<Rightarrow> 'b api_request \<Rightarrow> ((string \<times> peer) list \<Rightarrow> config) \<Rightarrow> (labels \<rightharpoonup> metrics) \<Rightarrow>
     (string \<times> peer) list \<Rightarrow> (string \<times> peer) list \<times> api_response" where
  "api_spec L base_path req config_of snap table =
     (if config_request base_path req then
        (case rq_method req of
           MGet \<Rightarrow> (table, yaml_config_response L (config_of table))
         | MPost \<Rightarrow>
             (case api_payload L (al_post_yaml L) req of
                Err resp \<Rightarrow> (table, resp)
              | Ok payload \<Rightarrow>
                  (let merged = posted_table (pp_peers payload) table in
                   case validate_peers (map snd merged) of
                     Err es \<Rightarrow> (table, response 400 (''validation failed: '' @ show_validation_errors (al_text L) es))
                   | Ok _ \<Rightarrow> (merged, yaml_config_response L (config_of merged))))
         | MDelete \<Rightarrow>
             (case api_payload L (al_delete_yaml L) req of
                Err resp \<Rightarrow> (table, resp)
              | Ok payload \<Rightarrow>
                  (let rest = filter (\<lambda>(pid, _). pid \<notin> dr_id ` set (dp_peers payload)) table
                   in (rest, yaml_config_response L (config_of rest))))
         | MOther _ \<Rightarrow> (table, response 404 ''not found''))
      else if metrics_request base_path req then (table, answer_metrics L (Some snap))
      else (table, response 404 ''not found''))"

lemma update_known:
  assumes "distinct (map fst xs)" "k \<in> fst ` set xs"
  shows "AList.update k v xs = map (\<lambda>(k', v'). (k', if k' = k then v else v')) xs"
  using assms
proof (induction xs)
  case (Cons x xs)
  have "map (\<lambda>(k', v'). (k', if k' = k then v else v')) xs = xs" if "k \<notin> fst ` set xs"
    using that by (induction xs) auto
  with Cons show ?case by (cases x) auto
qed simp

lemma update_unknown: "k \<notin> fst ` set xs \<Longrightarrow> AList.update k v xs = xs @ [(k, v)]"
  by (induction xs) auto

lemma posted_snoc: "posted (new @ [p]) = (posted new)(peer_id p \<mapsto> p)"
  by (simp add: posted_def)

lemma posted_dom: "posted new pid = None \<longleftrightarrow> pid \<notin> peer_id ` set new"
  by (auto simp: posted_def map_of_eq_None_iff image_iff)

lemma posted_table_keys: "map fst (posted_table new table) =
    map fst table @ filter (\<lambda>pid. pid \<notin> fst ` set table) (rev (remdups (rev (map peer_id new))))"
  by (simp add: posted_table_def comp_def case_prod_beta)

lemma merge_posted:
  assumes "distinct (map fst table)"
  shows "merge_peers new table = posted_table new table"
proof (induction new rule: rev_induct)
  case Nil
  have "map (\<lambda>(pid, p). (pid, p)) table = table" by simp
  then show ?case by (simp add: merge_peers_def posted_table_def posted_def)
next
  case (snoc p new)
  let ?t = "posted_table new table"
  have dist: "distinct (map fst ?t)" unfolding posted_table_keys using assms by auto
  have keys: "fst ` set ?t = fst ` set table \<union> peer_id ` set new"
    unfolding set_map [symmetric] posted_table_keys by auto
  have "AList.update (peer_id p) p ?t = posted_table (new @ [p]) table"
  proof (cases "peer_id p \<in> fst ` set ?t")
    case True
    then have "filter (\<lambda>pid. pid \<notin> fst ` set table) (rev (remdups (rev (map peer_id (new @ [p]))))) =
        filter (\<lambda>pid. pid \<notin> fst ` set table) (rev (remdups (rev (map peer_id new))))"
      unfolding keys by auto
    then show ?thesis
      unfolding update_known [OF dist True] unfolding posted_table_def posted_snoc by (auto split: option.split)
  next
    case False
    then have n: "peer_id p \<notin> fst ` set table" "peer_id p \<notin> peer_id ` set new" unfolding keys by auto
    then have "rev (remdups (rev (map peer_id (new @ [p])))) = rev (remdups (rev (map peer_id new))) @ [peer_id p]" by simp
    moreover have "map (\<lambda>(pid, q). (pid, case ((posted new)(peer_id p \<mapsto> p)) pid of Some r \<Rightarrow> r | None \<Rightarrow> q)) table =
        map (\<lambda>(pid, q). (pid, case posted new pid of Some r \<Rightarrow> r | None \<Rightarrow> q)) table"
      using n(1) by (intro map_cong) (force split: option.split)+
    moreover have "map (\<lambda>pid. (pid, the (((posted new)(peer_id p \<mapsto> p)) pid))) xs = map (\<lambda>pid. (pid, the (posted new pid))) xs"
      if "set xs \<subseteq> peer_id ` set new" for xs using n(2) that by (intro map_cong) auto
    ultimately show ?thesis
      using n(1) unfolding update_unknown [OF False] unfolding posted_table_def posted_snoc by auto
  qed
  then show ?case using snoc.IH by (simp add: merge_peers_def)
qed

section \<open>The requests served\<close>

lemma relative_path_Some:
  assumes "r \<noteq> []" "r \<noteq> ''/''" "hd r = CHR ''/''"
  shows "relative_path base_path path = Some r \<longleftrightarrow> path = trim_end_slashes base_path @ r"
proof -
  have "r = CHR ''/'' # tl r" using assms by (metis list.collapse)
  then have "take 1 r = ''/''" by (metis One_nat_def take_Suc_Cons take0)
  then show ?thesis
    using assms unfolding relative_path_def Let_def
    by (auto simp: strip_prefix_Some strip_prefix_append split: option.split)
qed

lemma handle_request_cases:
  "handle_request L base_path req reply_tx ctx b =
     (if config_request base_path req \<and> rq_method req = MGet then api_get_config reply_tx ctx b
      else if config_request base_path req \<and> rq_method req = MPost then api_post_config L req reply_tx ctx b
      else if config_request base_path req \<and> rq_method req = MDelete then api_delete_config L req reply_tx ctx b
      else if metrics_request base_path req then api_get_metrics reply_tx ctx b
      else (b, Err (response 404 ''not found'')))"
proof -
  have c: "config_request base_path req \<longleftrightarrow> relative_path base_path (rq_path req) \<in> {Some ''/config'', Some ''/config/''}"
    by (simp add: config_request_def relative_path_Some)
  have m: "metrics_request base_path req \<longleftrightarrow> rq_method req = MGet \<and> relative_path base_path (rq_path req) \<in> {Some ''/metrics'', Some ''/metrics/''}"
    by (simp add: metrics_request_def relative_path_Some)
  show ?thesis unfolding c m handle_request_def by (cases "relative_path base_path (rq_path req)") simp_all
qed

section \<open>Serving a request\<close>

lemma send_to_orchestrator:
  assumes "bus_ok s" "owned (or_ctx s) (or_bus s) ctx" "or_inbox s = []"
  shows "send_event_to_owner ctx ev w (or_bus s) = (fst (actor_send (or_ctx s) ev (or_bus s)), Ok w)"
    and "or_inbox (s\<lparr>or_bus := fst (actor_send (or_ctx s) ev (or_bus s))\<rparr>) = [ev]"
proof -
  obtain a where a: "b_actors (or_bus s) (or_ctx s) = Some a" "ac_result a = None" using assms(1) by (auto simp: bus_ok_def)
  obtain c where c: "b_actors (or_bus s) ctx = Some c" "ac_owner c = or_ctx s" using assms(2) by (auto simp: owned_def)
  show "send_event_to_owner ctx ev w (or_bus s) = (fst (actor_send (or_ctx s) ev (or_bus s)), Ok w)"
    using a c by (simp add: send_event_to_owner_def actor_notify_owner_def actor_send_def)
  show "or_inbox (s\<lparr>or_bus := fst (actor_send (or_ctx s) ev (or_bus s))\<rparr>) = [ev]"
    using a assms(3) by (simp add: or_inbox_def actor_send_def upd_actor_def deliver_event_def)
qed

lemma sync_peers_keeps [simp]:
  "or_replies (sync_peers_to_actors s) = or_replies s" "or_local (sync_peers_to_actors s) = or_local s"
  "or_tuning (sync_peers_to_actors s) = or_tuning s"
  by (simp_all add: sync_peers_to_actors_def or_send_def Let_def split: option.split)

lemma or_pop_keeps [simp]: "or_replies (or_pop s) = or_replies s" "or_tuning (or_pop s) = or_tuning s"
  "or_non_peer_metrics (or_pop s) = or_non_peer_metrics s"
  by (simp_all add: or_pop_def)

lemma fold_delete_filter: "fold AList.delete ids xs = filter (\<lambda>(k, _). k \<notin> set ids) xs"
  by (induction ids arbitrary: xs) (auto simp: AList.delete_eq intro: filter_cong)

definition config_with :: "'t orch \<Rightarrow> (string \<times> peer) list \<Rightarrow> config" where
  "config_with s table = \<lparr>cfg_local = or_local s, cfg_tuning = or_tuning s, cfg_peers = map snd table\<rparr>"

lemma config_snapshot_with: "config_snapshot s = config_with s (config_table (or_peers s))"
  by (simp add: config_snapshot_def config_with_def peer_configs_table)


lemma collect_metrics_cong [simp]:
  "collect_metrics_snapshot (or_pop s) = collect_metrics_snapshot s" "collect_metrics_snapshot (s\<lparr>or_bus := b\<rparr>) = collect_metrics_snapshot s"
  by (simp_all add: collect_metrics_snapshot_def or_pop_def)

lemma config_with_keeps [simp]:
  "config_with (s\<lparr>or_bus := b\<rparr>) = config_with s" "config_with (or_pop s) = config_with s"
  "config_with (s\<lparr>or_peers := ps\<rparr>) = config_with s" "config_with (sync_peers_to_actors s) = config_with s"
  by (simp_all add: config_with_def fun_eq_iff)

text \<open>A request whose event reaches the orchestrator: its handler runs on the state as it was.\<close>

lemma serve_event:
  assumes "bus_ok s" "owned (or_ctx s) (or_bus s) ctx" "or_inbox s = []" "or_exit s = None" "ev \<noteq> Stop"
    and "handle_request A base_path req reply_tx ctx (or_bus s) = send_event_to_owner ctx ev w (or_bus s)"
    and "handle_event E ev (or_pop (s\<lparr>or_bus := fst (actor_send (or_ctx s) ev (or_bus s))\<rparr>)) = Ok s'"
  shows "api_serve E A base_path req reply_tx ctx s = (s', answer A w (map_of (or_replies s') reply_tx))"
proof -
  let ?s = "s\<lparr>or_bus := fst (actor_send (or_ctx s) ev (or_bus s))\<rparr>"
  have "orch_step E OrInbox ?s = s'"
    using send_to_orchestrator(2) [OF assms(1-3), of ev] assms(4,5,7) by (cases ev) (simp_all add: orch_step_def)
  then show ?thesis unfolding api_serve_def assms(6) send_to_orchestrator(1) [OF assms(1-3)] by simp
qed

lemma fresh_reply: "reply_tx \<notin> fst ` set xs \<Longrightarrow> map_of (xs @ [(reply_tx, r)]) reply_tx = Some r"
  by (simp add: map_add_Some_iff map_of_eq_None_iff)

lemma serve_reply:
  assumes "bus_ok s" "owned (or_ctx s) (or_bus s) ctx" "or_inbox s = []" "or_exit s = None" "reply_tx \<notin> fst ` set (or_replies s)" "ev \<noteq> Stop"
    and "handle_request A base_path req reply_tx ctx (or_bus s) = send_event_to_owner ctx ev w (or_bus s)"
    and "handle_event E ev (or_pop (s\<lparr>or_bus := fst (actor_send (or_ctx s) ev (or_bus s))\<rparr>)) = Ok (or_reply reply_tx r u)"
    and "or_replies u = or_replies s" "api_serve E A base_path req reply_tx ctx s = (s', resp)"
  shows "or_peers s' = or_peers u \<and> resp = answer A w (Some r)"
proof -
  have "map_of (or_replies (or_reply reply_tx r u)) reply_tx = Some r" using fresh_reply [OF assms(5)] assms(9) by (simp only: or_reply_def) simp
  moreover have "or_peers (or_reply reply_tx r u) = or_peers u" by (simp add: or_reply_def)
  ultimately show ?thesis using serve_event [OF assms(1-4) assms(6-8)] assms(10) by auto
qed

lemma answer_simps [simp]:
  "answer A AwaitConfig (Some (ConfigReply c)) = yaml_config_response A c"
  "answer A AwaitPeers (Some (PeersReply (Ok c))) = yaml_config_response A c"
  "answer A AwaitPeers (Some (PeersReply (Err e))) = response 400 (show_config_error (al_text A) e)"
  "answer A AwaitMetrics (Some (MetricsReply m)) = answer_metrics A (Some m)"
  by (simp_all add: answer_def answer_config_def answer_peers_def await_reply_def)

lemma serve_post:
  fixes s :: "'t orch"
  assumes s: "bus_ok s" "owned (or_ctx s) (or_bus s) ctx" "or_inbox s = []" "or_exit s = None" "reply_tx \<notin> fst ` set (or_replies s)"
    and "config_request base_path req" "rq_method req = MPost" "api_serve E A base_path req reply_tx ctx s = (s', resp)"
    and "distinct (map fst (config_table (or_peers s)))"
  shows "(config_table (or_peers s'), resp) = api_spec A base_path req (config_with s) snap (config_table (or_peers s))"
proof (cases "api_payload A (al_post_yaml A) req")
  case (Inl r)
  have hr: "handle_request A base_path req reply_tx ctx (or_bus s) = (or_bus s, Err r)"
    using assms(6,7) Inl by (auto simp: handle_request_cases api_post_config_def api_payload_def split: sum.splits)
  then have "s' = s" "resp = r" using assms(8) by (simp_all add: api_serve_def)
  then show ?thesis using assms(6,7) Inl by (simp add: api_spec_def)
next
  case (Inr p)
  let ?new = "pp_peers p"
  let ?ev = "PostConfig ?new reply_tx :: 't event"
  let ?t = "or_pop (s\<lparr>or_bus := fst (actor_send (or_ctx s) ?ev (or_bus s))\<rparr>)"
  let ?merged = "merge_peers ?new (config_table (or_peers s))"
  note posted = merge_posted [OF assms(9), of ?new, symmetric]
  have hr: "handle_request A base_path req reply_tx ctx (or_bus s) = send_event_to_owner ctx ?ev AwaitPeers (or_bus s)"
    using assms(6,7) Inr by (auto simp: handle_request_cases api_post_config_def api_payload_def split: sum.splits)
  show ?thesis
  proof (cases "validate_peers (map snd ?merged)")
    case Inl': (Inl es)
    have "handle_event E ?ev ?t = Ok (or_reply reply_tx (PeersReply (Err (Validation es))) ?t)"
      using Inl' by (simp add: handle_event_def handle_post_config_def config_table_def)
    from serve_reply [OF s _ hr this _ assms(8)] show ?thesis
      using assms(6,7) Inr Inl' by (simp add: api_spec_def Let_def posted)
  next
    case Inr': (Inr u)
    let ?u = "sync_peers_to_actors (?t\<lparr>or_peers := fold upsert_peer ?new (or_peers ?t)\<rparr>)"
    have "handle_event E ?ev ?t = Ok (or_reply reply_tx (PeersReply (Ok (config_with s ?merged))) ?u)"
      using Inr' by (simp add: handle_event_def handle_post_config_def config_table_def [symmetric] config_snapshot_with config_table_upserts)
    from serve_reply [OF s _ hr this _ assms(8)] show ?thesis
      using assms(6,7) Inr Inr' by (simp add: api_spec_def Let_def config_table_upserts posted)
  qed
qed

lemma serve_delete:
  fixes s :: "'t orch"
  assumes s: "bus_ok s" "owned (or_ctx s) (or_bus s) ctx" "or_inbox s = []" "or_exit s = None" "reply_tx \<notin> fst ` set (or_replies s)"
    and "config_request base_path req" "rq_method req = MDelete" "api_serve E A base_path req reply_tx ctx s = (s', resp)"
  shows "(config_table (or_peers s'), resp) = api_spec A base_path req (config_with s) snap (config_table (or_peers s))"
proof (cases "api_payload A (al_delete_yaml A) req")
  case (Inl r)
  have hr: "handle_request A base_path req reply_tx ctx (or_bus s) = (or_bus s, Err r)"
    using assms(6,7) Inl by (auto simp: handle_request_cases api_delete_config_def api_payload_def split: sum.splits)
  then have "s' = s" "resp = r" using assms(8) by (simp_all add: api_serve_def)
  then show ?thesis using assms(6,7) Inl by (simp add: api_spec_def)
next
  case (Inr p)
  let ?ids = "map dr_id (dp_peers p)"
  let ?ev = "DeleteConfig ?ids reply_tx :: 't event"
  let ?t = "or_pop (s\<lparr>or_bus := fst (actor_send (or_ctx s) ?ev (or_bus s))\<rparr>)"
  let ?rest = "filter (\<lambda>(pid, _). pid \<notin> dr_id ` set (dp_peers p)) (config_table (or_peers s))"
  let ?u = "handle_delete_config ?ids ?t"
  have hr: "handle_request A base_path req reply_tx ctx (or_bus s) = send_event_to_owner ctx ?ev AwaitPeers (or_bus s)"
    using assms(6,7) Inr by (auto simp: handle_request_cases api_delete_config_def api_payload_def split: sum.splits)
  have u: "config_table (or_peers ?u) = ?rest" "or_replies ?u = or_replies s" "config_with ?u = config_with s"
    using config_table_delete [of ?ids "or_peers s"] by (simp_all add: handle_delete_config_def Let_def fold_delete_filter)
  have "handle_event E ?ev ?t = Ok (or_reply reply_tx (PeersReply (Ok (config_with s ?rest))) ?u)"
    by (simp add: handle_event_def config_snapshot_with u Let_def)
  from serve_reply [OF s _ hr this u(2) assms(8)] show ?thesis
    using assms(6,7) Inr u(1) by (simp add: api_spec_def Let_def)
qed

lemma serve_get:
  fixes s :: "'t orch"
  assumes s: "bus_ok s" "owned (or_ctx s) (or_bus s) ctx" "or_inbox s = []" "or_exit s = None" "reply_tx \<notin> fst ` set (or_replies s)"
    and "rq_method req = MGet" "api_serve E A base_path req reply_tx ctx s = (s', resp)"
    and "config_request base_path req \<or> metrics_request base_path req"
  shows "(config_table (or_peers s'), resp) = api_spec A base_path req (config_with s) (collect_metrics_snapshot s) (config_table (or_peers s))"
proof (cases "config_request base_path req")
  case True
  let ?ev = "GetConfig reply_tx :: 't event"
  let ?t = "or_pop (s\<lparr>or_bus := fst (actor_send (or_ctx s) ?ev (or_bus s))\<rparr>)"
  have hr: "handle_request A base_path req reply_tx ctx (or_bus s) = send_event_to_owner ctx ?ev AwaitConfig (or_bus s)"
    using assms(6) True by (simp add: handle_request_cases api_get_config_def)
  have "handle_event E ?ev ?t = Ok (or_reply reply_tx (ConfigReply (config_with s (config_table (or_peers s)))) ?t)"
    by (simp add: handle_event_def config_snapshot_with)
  from serve_reply [OF s _ hr this _ assms(7)] show ?thesis using assms(6) True by (simp add: api_spec_def)
next
  case False
  let ?ev = "GetMetricsSnapshot reply_tx :: 't event"
  let ?t = "or_pop (s\<lparr>or_bus := fst (actor_send (or_ctx s) ?ev (or_bus s))\<rparr>)"
  have hr: "handle_request A base_path req reply_tx ctx (or_bus s) = send_event_to_owner ctx ?ev AwaitMetrics (or_bus s)"
    using assms(6,8) False by (simp add: handle_request_cases api_get_metrics_def)
  have "handle_event E ?ev ?t = Ok (or_reply reply_tx (MetricsReply (collect_metrics_snapshot s)) ?t)"
    by (simp add: handle_event_def)
  from serve_reply [OF s _ hr this _ assms(7)] show ?thesis using assms(6,8) False by (simp add: api_spec_def)
qed

lemma serve_contract:
  assumes s: "bus_ok s" "owned (or_ctx s) (or_bus s) ctx" "or_inbox s = []" "or_exit s = None" "reply_tx \<notin> fst ` set (or_replies s)"
    and r: "api_serve E A base_path req reply_tx ctx s = (s', resp)" and d: "distinct (map fst (config_table (or_peers s)))"
  shows "(config_table (or_peers s'), resp) = api_spec A base_path req (config_with s) (collect_metrics_snapshot s) (config_table (or_peers s))"
proof -
  consider "rq_method req = MGet" "config_request base_path req \<or> metrics_request base_path req"
    | "rq_method req = MPost" "config_request base_path req" | "rq_method req = MDelete" "config_request base_path req"
    | "\<not> metrics_request base_path req" "config_request base_path req \<longrightarrow> (\<exists>m. rq_method req = MOther m)"
    by (cases "rq_method req") (auto simp: metrics_request_def)
  then show ?thesis
  proof cases
    case 4
    then have "handle_request A base_path req reply_tx ctx (or_bus s) = (or_bus s, Err (response 404 ''not found''))"
      by (auto simp: handle_request_cases)
    then have "s' = s" "resp = response 404 ''not found''" using r by (simp_all add: api_serve_def)
    then show ?thesis using 4 by (auto simp: api_spec_def)
  qed (use serve_get [OF s _ r] serve_post [OF s _ _ r d] serve_delete [OF s _ _ r] in blast)+
qed


text \<open>A connection that the API actor accepts has the owner of the API actor.\<close>

lemma api_connection_owned:
  assumes "owned owner b ctx" "wait_for_stop inbox = None" "api_accept_step A ctx inbox (Some (Ok remote)) b = (b', out)"
  shows "out = None \<and> owned owner b' (b_next b)"
  using assms by (auto simp: api_accept_step_def run_until_stopped_def actor_spawn_def owned_def)


section \<open>A request to the node with one peer\<close>

definition sample_api :: "string api_lib" where
  "sample_api = \<lparr>al_collect = (\<lambda>limit b. if length b \<le> limit then Ok b else Err ''length limit exceeded''),
     al_post_yaml = (\<lambda>_. Err ''no peers''), al_delete_yaml = (\<lambda>b. Ok \<lparr>dp_peers = [\<lparr>dr_id = b\<rparr>]\<rparr>),
     al_config_yaml = (\<lambda>c. Ok (concat (map peer_id (cfg_peers c)))), al_values = (\<lambda>_. []), al_text_encode = (\<lambda>_. []),
     al_show_addr = (\<lambda>_. []), al_quic_text = Ok [], al_text = \<lparr>tx_duration = (\<lambda>_. []), tx_net = (\<lambda>_. [])\<rparr>\<rparr>"

definition sample_delete :: "string api_request" where
  "sample_delete = \<lparr>rq_method = MDelete, rq_path = ''/admin/config'', rq_body = ''p''\<rparr>"

definition sample_connected :: "sample_trie orch" where
  "sample_connected = sample_orch\<lparr>or_bus := fst (actor_spawn 0 ''api-connection'' Detached (or_bus sample_orch))\<rparr>"

lemma sample_owner: "owned 0 (or_bus sample_orch) 0" "fresh_inv (or_bus sample_orch)"
  using sample_orch_inv sample_orch_start(2) by (auto simp: orch_inv_def bus_ok_def owned_def)

lemma sample_connected_reached: "(orch_trans ipnet_ref trie_ref P)\<^sup>*\<^sup>* sample_orch sample_connected"
proof -
  have "b_actors (or_bus sample_orch) 0 \<noteq> None" using sample_owner(1) by (auto simp: owned_def)
  then have "orch_trans ipnet_ref trie_ref P sample_orch sample_connected"
    unfolding sample_connected_def
    using bus_extends_evolves [OF actor_spawn_extends [OF sample_owner]] dial_pending_extends [OF _ actor_spawn_extends [OF sample_owner]]
      sample_orch_inv by (intro orch_trans.others bus_step.spawn) (auto simp: orch_inv_def bus_ok_def)
  then show ?thesis by blast
qed

lemma sample_connected_start:
  "or_exit sample_connected = None" "or_inbox sample_connected = []" "or_ctx sample_connected = 0" "or_replies sample_connected = []"
  "owned 0 (or_bus sample_connected) (b_next (or_bus sample_orch))" "or_peers sample_connected = [(''p'', peer_entry_new sample_bare_peer)]"
proof -
  have ne: "b_next (or_bus sample_orch) \<noteq> 0"
    using sample_owner unfolding fresh_inv_def owned_def by (metis less_nat_zero_code)
  show "or_exit sample_connected = None" "or_ctx sample_connected = 0" "or_inbox sample_connected = []"
    using sample_orch_start ne by (simp_all add: sample_connected_def or_inbox_def actor_spawn_def)
  show "owned 0 (or_bus sample_connected) (b_next (or_bus sample_orch))"
    using actor_spawn_owned [OF sample_owner(1)] by (simp add: sample_connected_def actor_spawn_def)
  show "or_replies sample_connected = []" "or_peers sample_connected = [(''p'', peer_entry_new sample_bare_peer)]"
    unfolding sample_connected_def sample_orch_def
    by (simp_all add: sample_new_defs new_peers_def sample_bare_peer_def split: prod.split)
qed


end
