(* ===== verification/Cli.thy ===== *)
theory Cli
  imports Api
begin

text \<open>
  The executable (\<open>main.rs\<close>) and the entry point of the library (\<open>lib.rs\<close>): the command line, loading the
  configuration, and starting the node. Logging is left out.
\<close>

section \<open>The command line\<close>

definition config_value :: "string \<Rightarrow> string option" where
  "config_value arg =
     (case strip_prefix arg ''--config='' of Some value \<Rightarrow> Some value | None \<Rightarrow> strip_prefix arg ''-c='')"

fun parse_config_args :: "string list \<Rightarrow> string option \<Rightarrow> (string, string) result" where
  "parse_config_args [] config_path =
     (case config_path of Some p \<Rightarrow> Ok p | None \<Rightarrow> Err ''missing -c/--config'')"
| "parse_config_args (arg # args) config_path =
     (case config_value arg of
        Some value \<Rightarrow> parse_config_args args (Some value)
      | None \<Rightarrow>
          if arg = ''-c'' \<or> arg = ''--config''
          then (case args of
                  [] \<Rightarrow> Err ''missing value for -c/--config''
                | value # rest \<Rightarrow> parse_config_args rest (Some value))
          else Err (''unknown argument: '' @ arg))"

text \<open>\<open>args\<close> are the arguments after the name of the program.\<close>

definition parse_config_path :: "string list \<Rightarrow> (string, string) result" where
  "parse_config_path args = parse_config_args args None"

section \<open>Starting the node\<close>

text \<open>
  \<open>finish\<close> is what the loop of the orchestrator ends with from a given state; \<open>open\<close> and \<open>parse\<close> are the
  file system and the YAML reader.
\<close>

record ('d, 't) main_sys =
  ms_open :: "string \<Rightarrow> (string, string) result"
  ms_parse :: "string \<Rightarrow> (string, config) result"
  ms_text :: text_lib
  ms_new :: "'d new_sys"
  ms_finish :: "'t orch \<Rightarrow> (error_chain, unit) result"

definition h3llo_run :: "('d, 't) main_sys \<Rightarrow> config \<Rightarrow> (error_chain, unit) result" where
  "h3llo_run M cfg = (case orch_new (ms_new M) cfg of Err e \<Rightarrow> Err e | Ok orchestrator \<Rightarrow> ms_finish M orchestrator)"

definition run :: "('d, 't) main_sys \<Rightarrow> string \<Rightarrow> (error_chain, unit) result" where
  "run M config_path =
     (case ms_open M config_path of
        Err e \<Rightarrow> Err [''open configuration file `'' @ config_path @ ''`'', e]
      | Ok file \<Rightarrow>
          (case load_config (ms_parse M file) of
             Err e \<Rightarrow> Err [''load configuration from `'' @ config_path @ ''`'', show_config_error (ms_text M) e]
           | Ok config \<Rightarrow>
               (case h3llo_run M config of Err e \<Rightarrow> Err (''run h3llo'' # e) | Ok _ \<Rightarrow> Ok ())))"

definition main :: "('d, 't) main_sys \<Rightarrow> string list \<Rightarrow> (error_chain, unit) result" where
  "main M args = (case parse_config_path args of Err e \<Rightarrow> Err [e] | Ok config_path \<Rightarrow> run M config_path)"

section \<open>Lemmas\<close>

text \<open>The four ways to write an option.\<close>

definition option_words :: "string \<Rightarrow> string list set" where
  "option_words v = {[''-c'', v], [''--config'', v], [''-c='' @ v], [''--config='' @ v]}"

definition option_groups :: "(string list \<times> string) list \<Rightarrow> bool" where
  "option_groups gs \<longleftrightarrow> (\<forall>(w, v)\<in>set gs. w \<in> option_words v)"

lemma option_groups_simps [simp]:
  "option_groups []" "option_groups ((w, v) # gs) \<longleftrightarrow> w \<in> option_words v \<and> option_groups gs"
  by (simp_all add: option_groups_def)

lemma config_value_Some: "config_value arg = Some v \<longleftrightarrow> arg = ''--config='' @ v \<or> arg = ''-c='' @ v"
proof -
  have "strip_prefix (''-c='' @ v) ''--config='' = None" for v by (simp add: strip_prefix_def)
  then show ?thesis unfolding config_value_def by (auto simp: strip_prefix_Some strip_prefix_None split: option.splits)
qed

lemma parse_group:
  assumes "w \<in> option_words v"
  shows "parse_config_args (w @ rest) acc = parse_config_args rest (Some v)"
proof -
  have "config_value ''-c'' = None" "config_value ''--config'' = None"
    by (simp_all add: config_value_def strip_prefix_def)
  moreover have "config_value (''-c='' @ v) = Some v" "config_value (''--config='' @ v) = Some v"
    by (simp_all only: config_value_Some) simp_all
  ultimately show ?thesis using assms unfolding option_words_def by (elim insertE) (simp_all del: append_Cons, simp_all)
qed

lemma parse_groups:
  assumes "option_groups gs"
  shows "parse_config_args (concat (map fst gs)) acc =
    (case (if gs = [] then acc else Some (snd (last gs))) of Some p \<Rightarrow> Ok p | None \<Rightarrow> Err ''missing -c/--config'')"
  using assms
proof (induction gs arbitrary: acc)
  case (Cons g gs)
  obtain w v where g: "g = (w, v)" by (cases g)
  with Cons.prems have "parse_config_args (w @ concat (map fst gs)) acc = parse_config_args (concat (map fst gs)) (Some v)"
    by (intro parse_group) simp
  then show ?case using Cons.IH [of "Some v"] Cons.prems g by simp
qed simp

lemma parse_config_args_Ok:
  assumes "parse_config_args args acc = Ok p"
  shows "\<exists>gs. option_groups gs \<and> args = concat (map fst gs) \<and> (if gs = [] then acc else Some (snd (last gs))) = Some p"
  using assms
proof (induction args acc rule: parse_config_args.induct)
  case (1 acc)
  then show ?case by (intro exI [of _ "[]"]) (auto split: option.splits)
next
  case (2 arg args acc)
  have step: ?case if "w \<in> option_words v" "arg # args = w @ rest" "option_groups gs" "rest = concat (map fst gs)"
      "(if gs = [] then Some v else Some (snd (last gs))) = Some p" for w v rest gs
    using that by (intro exI [of _ "(w, v) # gs"]) auto
  show ?case
  proof (cases "config_value arg")
    case (Some v)
    then have w: "[arg] \<in> option_words v" by (auto simp: config_value_Some option_words_def)
    from Some 2(2,3) obtain gs where "option_groups gs" "args = concat (map fst gs)" "(if gs = [] then Some v else Some (snd (last gs))) = Some p"
      by fastforce
    then show ?thesis by (intro step [OF w]) auto
  next
    case None
    with 2(3) obtain v rest where v: "arg = ''-c'' \<or> arg = ''--config''" "args = v # rest" "parse_config_args rest (Some v) = Ok p"
      by (auto split: if_splits list.splits)
    then have w: "[arg, v] \<in> option_words v" by (auto simp: option_words_def)
    from 2(1) [OF None v(1,2,3)] obtain gs where "option_groups gs" "rest = concat (map fst gs)"
      "(if gs = [] then Some v else Some (snd (last gs))) = Some p" by fastforce
    then show ?thesis by (intro step [OF w]) (auto simp: v(2))
  qed
qed

text \<open>The command line is accepted exactly if it is a non-empty sequence of options, each written in
  one of the four ways, and the configuration is then the one named last.\<close>

theorem config_path_is_last_option:
  "parse_config_path args = Ok p \<longleftrightarrow>
     (\<exists>gs. gs \<noteq> [] \<and> option_groups gs \<and> args = concat (map fst gs) \<and> snd (last gs) = p)"
proof
  assume "parse_config_path args = Ok p"
  from parse_config_args_Ok [OF this [unfolded parse_config_path_def]]
  show "\<exists>gs. gs \<noteq> [] \<and> option_groups gs \<and> args = concat (map fst gs) \<and> snd (last gs) = p" by (auto split: if_splits)
qed (auto simp: parse_config_path_def parse_groups)

text \<open>The node starts only with a valid configuration, so the runs of the orchestrator start as the
  properties of its life cycle assume.\<close>

lemma main_starts_valid:
  assumes "main M args = Ok ()"
  shows "\<exists>path cfg s0. parse_config_path args = Ok path \<and> validate cfg = Ok () \<and> orch_new (ms_new M) cfg = Ok s0 \<and>
    ms_finish M s0 = Ok ()"
  using assms by (auto simp: main_def run_def h3llo_run_def load_config_def split: sum.splits)

end
