(* ===== verification/Spec2Isabelle.thy ===== *)
theory Spec2Isabelle
  imports Cli
begin

text \<open>
  A verification library for \<open>h3llo\<close>, a user-space VPN node. A node reads IP packets from a TUN device, looks
  up the peer of each destination address, and carries the packets to that peer over HTTP/3 CONNECT-IP datagrams
  or over bare UDP; packets from peers go back to the TUN device. The program is a set of actors on a bus: the
  orchestrator (\<open>orch.rs\<close>) owns the configuration and all other actors; the resolver (\<open>dns.rs\<close>) tells it the
  addresses of the peers; it dials them (\<open>h3dialer.rs\<close>, \<open>bare.rs\<close>) while the listener (\<open>h3listener.rs\<close>) and
  the bare receiver accept those that call in; after each change it sends the router (\<open>router.rs\<close>) a new table,
  the listener the tokens, the bare receiver the accepted sources and the route actor (\<open>route.rs\<close>) the routes;
  the management API (\<open>api.rs\<close>) changes the peers at run time. All sources are under \<open>src/src/\<close>.

  \<^bold>\<open>Conventions.\<close> A string is the list of its UTF-8 bytes. A machine integer whose overflow matters is a word
  (\<open>u8\<close> to \<open>u128\<close>); lengths, counters that saturate and times in nanoseconds are natural numbers with the
  saturation written out. A \<open>Result\<close> is a sum (\<open>Err\<close>, \<open>Ok\<close>), an error chain the list of its messages, outermost
  first. A hash map is a map, or the association list of its entries in iteration order where the code iterates;
  the iteration order of a hash set is a parameter. A data channel is named by the address of the actor that
  reads it. An asynchronous function is split at the points where it waits: what it waits for is an argument of the
  step, so an interleaving is a sequence of steps. Crates that are not in the repository (\<open>quiche\<close>, \<open>ipnet\<close>,
  \<open>ipnet-trie\<close>, \<open>url\<close>, \<open>hmac\<close>, \<open>route_manager\<close>, \<open>quinn-udp\<close>, \<open>tun-rs\<close>, \<open>hickory\<close>, \<open>serde_yaml\<close>, \<open>hyper\<close>)
  and the operating system are records of functions passed to the definitions; what is assumed of them is a named
  predicate (\<open>url_ok\<close>, \<open>ipnet_ok\<close>, \<open>trie_ok\<close>, \<open>hmac_ok\<close>, and so on) with a reference instance that meets it.

  \<^bold>\<open>Data plane.\<close>
  \<^item> \<open>Prelude\<close>, \<open>Text\<close>, \<open>Ip\<close>: machine types, the used part of the standard library on strings and addresses (with
    its address parser), prefixes and the trie interface, and the locale \<open>inductive_invariant\<close>, which gives
    every loop below its induction over runs.
  \<^item> \<open>Packet\<close>, \<open>Routing\<close>, \<open>Router\<close> (\<open>router.rs\<close>): \<open>decrement_ttl\<close> keeps the IPv4 checksum valid; the table built
    by \<open>rt_make\<close> answers by longest prefix and cannot be built exactly on a conflict; the batching
    \<open>handle_ingress_batch\<close> delivers what a packet-by-packet router delivers, and counts every packet.
  \<^item> \<open>Helpers\<close>, \<open>Metrics\<close> (\<open>helpers.rs\<close>, \<open>metrics.rs\<close>): pooled buffers with headroom, retries, sends with
    backpressure; counters, snapshots and the exposition text. The three measures of a tally share one locale.
  \<^item> \<open>Udp\<close>, \<open>Bare\<close>, \<open>Tun\<close> (\<open>udp.rs\<close>, \<open>bare.rs\<close>, \<open>tun.rs\<close>): segmentation on sending and its inverse on receiving,
    the filter on source addresses, the device reader and writer: each hands on exactly the packets it is given, in
    order, and counts those it must drop.
  \<^item> \<open>Quic\<close>, \<open>H3session\<close>, \<open>H3engine\<close> (\<open>h3session.rs\<close>, \<open>h3engine.rs\<close>): the datagram codec and the session state
    machine; the established loop, which loses and reorders nothing under backpressure, and whose two ends are
    inverse to each other.

  \<^bold>\<open>Control plane.\<close>
  \<^item> \<open>Config\<close> (\<open>config.rs\<close>): structures, defaults, URI formats, and a validation that accepts exactly the
    configurations of a declarative contract.
  \<^item> \<open>Auth\<close>, \<open>Handshake\<close>, \<open>Dispatcher\<close> (\<open>auth.rs\<close>, \<open>h3dialer.rs\<close>, \<open>h3listener.rs\<close>): bearer tokens, both sides of
    the handshake as one kind of loop (locale \<open>handshake_loop\<close>), the routing of packets to connections by
    connection id and the reload of credentials. A connection reported to the orchestrator has presented a token
    that was configured when it was accepted.
  \<^item> \<open>Events\<close>, \<open>Actor\<close> (\<open>events.rs\<close>, \<open>actor.rs\<close>): messages, addresses, links (a link is two sends, between which
    others may act) and monitors; an exit is reported once, after the linked actors were stopped.
  \<^item> \<open>Bind\<close>, \<open>Route\<close>, \<open>Dns\<close> (\<open>bind.rs\<close>, \<open>route.rs\<close>, \<open>dns.rs\<close>): the choice of the interface of a socket, which
    avoids the tunnel; the synchronisation of the system routes; the resolver and its bookkeeping of queries.
  \<^item> \<open>Orch\<close>, \<open>Lifecycle\<close> (\<open>orch.rs\<close>): \<open>orch_new\<close> is the construction, \<open>orch_step\<close> one turn of the loop, \<open>orch_trans\<close> a
    step of a run, in which the loop, the reports of dials and the other actors interleave. A dial reports before its
    task returns; its task may also crash, and then reports nothing. The invariant \<open>orch_inv\<close>
    holds on every run; it gives the properties of \<open>Lifecycle\<close>: the peers are always a valid configuration, no dial
    is lost unless it crashes, failed dials back off, the router is told the preferred connections. The locale \<open>dialer\<close> states what
    a run needs of a dial, and both dialers interpret it.
  \<^item> \<open>Api\<close>, \<open>Cli\<close> (\<open>api.rs\<close>, \<open>main.rs\<close>, \<open>lib.rs\<close>): the management API refines a contract on the peer table; the
    command line, and the start of a node with a valid configuration only.
  \<^item> This theory: properties of several components, and two nodes they are evaluated on.

  \<^bold>\<open>Termination.\<close> The polling loops \<open>poll_h3_events\<close>, \<open>collect_ingress_loop\<close> and \<open>collect_send_loop\<close> run as long as
  the connection library has something to return. They are partial functions, \<open>None\<close> standing for a loop that does
  not end; under the assumption that the library runs dry they are shown to return (\<open>engine_step_returns\<close>). Every
  other loop of the program is a recursion over finite data, or one step of a relation, and needs no fuel. In
  \<open>Text\<close>, \<open>skip_ws\<close> counts down from the length of the string, which is enough since each turn removes a byte.

  \<^bold>\<open>Not modelled.\<close> Logging and tracing, the tokio runtimes and the placement of tasks on threads (\<open>DedicatedRuntime\<close>,
  \<open>run_on\<close>), timers except for the times they fire at, the derived serialisation of plain structures, the
  cryptography, QUIC and HTTP/1.1 inside the crates, the system calls, and the test code (\<open>test_support\<close> and the
  \<open>tests\<close> modules, the integration tests and benchmarks). Of panics, those of a connection (\<open>Panicked\<close>) and of a
  dial are modelled; the addition of a time to live to the clock in \<open>record_ip\<close> is taken not to overflow.
\<close>

section \<open>Revoking a peer\<close>

lemma find_token_known: "find_token H key d tokens = Some pid \<Longrightarrow> pid \<in> fst ` set tokens"
  by (induction H key d tokens rule: find_token.induct) (auto split: if_splits)

lemma authenticated_known: "validate_server_auth H key headers tokens = Ok pid \<Longrightarrow> pid \<in> fst ` set tokens"
  by (auto simp: validate_server_auth_def validate_connect_auth_def Let_def dest: find_token_known split: sum.splits option.splits if_splits)

lemma listener_tokens_known:
  assumes "table_ok (config_table (or_peers s))"
  shows "fst ` set (listener_tokens s) \<subseteq> fst ` set (or_peers s)"
proof -
  have "peer_id (pe_config e) = pid" if "(pid, e) \<in> set (or_peers s)" for pid e
    using that assms by (fastforce simp: table_ok_def config_table_def)
  then show ?thesis
    by (force simp: listener_tokens_def List.map_filter_def split: peer_transport.splits)
qed

lemma sync_tells_tokens:
  assumes "or_h3_listener s = Some r" "b_actors (or_bus s) r = Some a" "ac_result a = None"
  shows "\<exists>a' evs. b_actors (or_bus (sync_peers_to_actors s)) r = Some a' \<and>
    ac_received a' = ac_received a @ UpdatePeerTokens (listener_tokens s) # evs \<and> set evs \<subseteq> {SetHostnames (collect_hostnames (peer_configs s))}"
  using assms
  by (auto simp: sync_peers_to_actors_def or_send_def actor_send_def upd_actor_def deliver_event_def peer_configs_def)

lemma length_fold_delete:
  assumes "pid \<in> fst ` set ps" "pid \<in> set ids"
  shows "length (fold AList.delete ids ps) < length ps"
proof -
  obtain e where "(pid, e) \<in> set ps" using assms(1) by auto
  then show ?thesis unfolding fold_delete_filter using assms(2) by (intro length_filter_less [where x = "(pid, e)"]) simp_all
qed

text \<open>C10: A deleted peer can no longer connect. In every state that a run of the orchestrator can reach, handling
  the deletion of a known peer sends the HTTP/3 listener a new token map, and no later one; and whatever request
  is authenticated against that map, it is not attributed to the deleted peer.\<close>

theorem deleted_peer_cannot_authenticate:
  assumes "validate cfg = Ok ()" "orch_new S cfg = Ok s0" "(orch_trans L T P)\<^sup>*\<^sup>* s0 s"
    and "or_h3_listener s = Some r" "b_actors (or_bus s) r = Some a" "ac_result a = None"
    and "pid \<in> fst ` set (or_peers s)" "pid \<in> set ids"
  shows "\<exists>a' tokens evs. b_actors (or_bus (handle_delete_config ids s)) r = Some a' \<and>
    ac_received a' = ac_received a @ UpdatePeerTokens tokens # evs \<and> (\<nexists>t. UpdatePeerTokens t \<in> set evs) \<and>
    (\<nexists>headers. validate_server_auth H key headers tokens = Ok pid)"
proof -
  let ?s = "s\<lparr>or_peers := fold AList.delete ids (or_peers s)\<rparr>"
  have t: "table_ok (config_table (or_peers s))" using started_run [OF assms(1-3)] by (simp add: orch_inv_def)
  have del: "handle_delete_config ids s = sync_peers_to_actors ?s"
    using length_fold_delete [OF assms(7,8)] by (simp add: handle_delete_config_def Let_def)
  have "table_ok (config_table (or_peers ?s))" using table_ok_delete [OF t] by (simp add: config_table_delete)
  then have "pid \<notin> fst ` set (listener_tokens ?s)"
    using listener_tokens_known [of ?s] assms(8) by (auto simp: fold_delete_filter)
  then have no: "\<nexists>headers. validate_server_auth H key headers (listener_tokens ?s) = Ok pid" using authenticated_known [of H key _ "listener_tokens ?s" pid] by metis
  have "or_h3_listener ?s = Some r" "b_actors (or_bus ?s) r = Some a" using assms(4,5) by simp_all
  from sync_tells_tokens [OF this assms(6)] obtain a' evs
    where a': "b_actors (or_bus (handle_delete_config ids s)) r = Some a'"
      "ac_received a' = ac_received a @ UpdatePeerTokens (listener_tokens ?s) # evs" "\<nexists>t. UpdatePeerTokens t \<in> set evs"
    unfolding del by blast
  show ?thesis by (intro exI conjI) (rule a' no)+
qed

section \<open>Literal addresses\<close>

lemma parse_ip_first:
  assumes "digit_value 10 c = None" "digit_value 16 c = None" "c \<noteq> CHR '':''"
  shows "parse_ip (c # s) = None"
proof -
  have num: "read_number radix k limit z (c # s) = None" if "digit_value radix c = None" for radix k limit z
    using that by (simp add: read_number_def)
  have e: "(4::nat) = Suc 3" "(8::nat) = Suc 7" by simp_all
  have 4: "read_ipv4_addr (c # s) = None"
    unfolding read_ipv4_addr_def e(1) read_ipv4_groups.simps using num [OF assms(1)] by (simp add: read_separator_def)
  have "read_groups 0 8 (c # s) = ([], False, c # s)"
    unfolding e(2) read_groups.simps using num [OF assms(2)] 4 by (simp add: read_separator_def)
  then show ?thesis using 4 assms(3) by (simp add: parse_ip_def read_ipv6_addr_def)
qed

lemma parse_ip_bracket: "parse_ip (CHR ''['' # s) = None"
  by (rule parse_ip_first) (simp_all add: digit_value_def byte_of_def)

lemma parse_ip_empty: "parse_ip [] = None"
proof -
  have e: "(4::nat) = Suc 3" "(8::nat) = Suc 7" by simp_all
  have 4: "read_ipv4_addr [] = None"
    unfolding read_ipv4_addr_def e(1) read_ipv4_groups.simps by (simp add: read_separator_def read_number_def)
  have "read_groups 0 8 [] = ([], False, [])"
    unfolding e(2) read_groups.simps using 4 by (simp add: read_separator_def read_number_def)
  then show ?thesis using 4 by (simp add: parse_ip_def read_ipv6_addr_def)
qed

text \<open>A \<open>BareUDP\<close> peer cannot be given by an IPv6 literal. For the same bracketed host, the resolver is asked by
  an HTTP/3 peer for the address without brackets, which it records at once as a literal, and by a \<open>BareUDP\<close>
  peer for the host with its brackets, which it does not take for a literal: it records nothing and queries the
  name server.\<close>

theorem bare_ipv6_literal_not_recognised:
  assumes "peer_transport p = Bare b" "udp_host (pbare_endpoint b) = ''['' @ addr @ '']''"
    and "peer_transport q = H3 h" "ph3_endpoint h = Some ep" "h3e_host ep = ''['' @ addr @ '']''"
    and "parse_ip addr = Some ip" "last addr \<noteq> CHR '']''"
  shows "peer_dns_hostname q = Some addr \<and> record_literals now [addr] s = record_ip now addr ip (2 ^ 32 - 1) s \<and>
    peer_dns_hostname p = Some (''['' @ addr @ '']'') \<and> record_literals now [''['' @ addr @ '']''] s = s \<and>
    (\<forall>st. next_refresh_at st \<le> now \<longrightarrow> refresh_due now (''['' @ addr @ '']'', st))"
proof -
  have ne: "addr \<noteq> []" "hd addr \<noteq> CHR ''[''"
    using assms(6) parse_ip_empty parse_ip_bracket [of "tl addr"] by (metis option.distinct(1), metis list.collapse option.distinct(1) parse_ip_empty)
  then have "dropWhile (\<lambda>c. c = CHR ''['') (addr @ '']'') = addr @ '']''" by (cases addr) auto
  moreover have "dropWhile (\<lambda>c. c = CHR '']'') (rev addr) = rev addr" using ne(1) assms(7) by (cases addr rule: rev_cases) auto
  ultimately have "strip_ipv6_brackets (''['' @ addr @ '']'') = addr" by (simp add: strip_ipv6_brackets_def)
  with assms show ?thesis
    by (simp add: peer_dns_hostname_def refresh_due_def parse_ip_bracket)
qed

lemma parse_loopback: "parse_ip ''::1'' = Some (V6 1)"
proof -
  have e: "(4::nat) = Suc 3" "(3::nat) = Suc 2" "(8::nat) = Suc 7" "(7::nat) = Suc 6" "(6::nat) = Suc 5" by simp_all
  have colon: "digit_value radix (CHR '':'') = None" for radix by (simp add: digit_value_def byte_of_def)
  have one: "digit_value 10 (CHR ''1'') = Some 1" "digit_value 16 (CHR ''1'') = Some 1" by (simp_all add: digit_value_def byte_of_def)
  have 4: "read_ipv4_addr ''::1'' = None" "read_ipv4_addr ''1'' = None"
    unfolding read_ipv4_addr_def e(1,2) read_ipv4_groups.simps
    by (simp_all add: read_separator_def read_number_def colon one)
  have head: "read_groups 0 8 ''::1'' = ([], False, ''::1'')"
    unfolding e(3) read_groups.simps using 4 by (simp add: read_separator_def read_number_def colon)
  have nil: "read_groups (Suc 0) 6 [] = ([], False, [])"
    unfolding e(5) read_groups.simps by (simp add: read_separator_def)
  have "read_groups 0 7 ''1'' = ([1], False, [])"
    unfolding e(4) read_groups.simps using 4 nil by (simp add: read_separator_def read_number_def one)
  moreover have "replicate 7 0 = [0, 0, 0, 0, 0, 0, 0 :: nat]" by (simp add: numeral_eq_Suc)
  ultimately show ?thesis using 4 head by (simp add: parse_ip_def read_ipv6_addr_def)
qed

theorem bare_ipv6_literal_not_recognised_witness:
  "peer_dns_hostname \<lparr>peer_id = ''p'', peer_transport = Bare \<lparr>pbare_endpoint = \<lparr>udp_host = ''[::1]'', udp_port = 9\<rparr>, pbare_bindif = None\<rparr>,
     peer_tun = \<lparr>allowed_ips = []\<rparr>\<rparr> = Some ''[::1]''"
  using bare_ipv6_literal_not_recognised [of "\<lparr>peer_id = ''p'', peer_transport = Bare \<lparr>pbare_endpoint = \<lparr>udp_host = ''[::1]'', udp_port = 9\<rparr>,
        pbare_bindif = None\<rparr>, peer_tun = \<lparr>allowed_ips = []\<rparr>\<rparr>" "\<lparr>pbare_endpoint = \<lparr>udp_host = ''[::1]'', udp_port = 9\<rparr>, pbare_bindif = None\<rparr>" "''::1''"
      "\<lparr>peer_id = ''q'', peer_transport = H3 \<lparr>ph3_endpoint = Some \<lparr>h3e_host = ''[::1]'', h3e_port = 443, h3e_path = ''/''\<rparr>, ph3_token = ''long-enough-token'',
        ph3_bindif = None, ph3_sni = None\<rparr>, peer_tun = \<lparr>allowed_ips = []\<rparr>\<rparr>"
      "\<lparr>ph3_endpoint = Some \<lparr>h3e_host = ''[::1]'', h3e_port = 443, h3e_path = ''/''\<rparr>, ph3_token = ''long-enough-token'', ph3_bindif = None, ph3_sni = None\<rparr>"
      "\<lparr>h3e_host = ''[::1]'', h3e_port = 443, h3e_path = ''/''\<rparr>" "V6 1"]
  by (simp add: parse_loopback)

section \<open>A node with a listener\<close>

definition sample_listen_peer :: peer where
  "sample_listen_peer = \<lparr>peer_id = ''p'', peer_transport = H3 \<lparr>ph3_endpoint = None, ph3_token = ''long-enough-token'', ph3_bindif = None, ph3_sni = None\<rparr>,
     peer_tun = \<lparr>allowed_ips = [NetV4 0x0a000200 24]\<rparr>\<rparr>"

definition sample_h3_config :: config where
  "sample_h3_config = sample_config\<lparr>
     cfg_local := (cfg_local sample_config)\<lparr>lc_h3 := Some \<lparr>lh3_listen = \<lparr>h3e_host = ''[::1]'', h3e_port = 443, h3e_path = ''/''\<rparr>,
       lh3_cert = ''c'', lh3_key = ''k''\<rparr>\<rparr>,
     cfg_peers := [sample_listen_peer]\<rparr>"

definition sample_h3_sys :: "unit new_sys" where
  "sample_h3_sys = sample_new_sys\<lparr>ns_udp_init := (\<lambda>socket payload offload.
     Ok (\<lparr>ur_socket = socket, ur_max_udp_payload = payload\<rparr>, \<lparr>ut_socket = socket, ut_enable_offload = offload\<rparr>))\<rparr>"

definition sample_h3_orch :: "sample_trie orch" where
  "sample_h3_orch = projr (orch_new sample_h3_sys sample_h3_config)"

lemma sample_h3_config_valid: "validate sample_h3_config = Ok ()"
proof -
  have "trimmed ''p''" "trimmed ''long-enough-token''" "trimmed ''c''" "trimmed ''k''" by code_simp+
  moreover have "tuning_valid tuning_default"
    using sample_config_valid by (simp add: validate_iff sample_config_def)
  ultimately show ?thesis
    by (simp add: validate_iff sample_h3_config_def sample_listen_peer_def sample_config_def local_valid_def peers_valid_def peer_tokens_def
        peer_token_def peer_fields_ok_def peer_h3_fields_ok_def)
qed

lemma sample_listener:
  "\<exists>grp. \<forall>ctx b. new_h3_listener sample_h3_sys sample_h3_config ctx b =
     Ok (fst (spawn_h3_dispatcher (\<lambda>_. []) (\<lambda>_. []) ctx grp b), Some (snd (spawn_h3_dispatcher (\<lambda>_. []) (\<lambda>_. []) ctx grp b)))"
proof -
  have addr: "resolve_listen_addr lookup ''[::1]'' 443 = Ok (V6 1, 443)" for lookup
    using parse_loopback by (simp add: resolve_listen_addr_def strip_ipv6_brackets_def)
  have paths: "path_to_str ''c'' = Some ''c''" "path_to_str ''k'' = Some ''k''"
    by (simp_all add: path_to_str_def byte_of_def cont_ranges_def)
  have "\<exists>s. make_server_udp_socket (ns_sys sample_h3_sys) (V6 1, 443) (socket_buffer_bytes (t_io tuning_default)) = Ok s"
    by (simp add: make_server_udp_socket_def make_udp_socket_raw_def sys_try_def sample_h3_sys_def sample_new_sys_def Let_def)
  then obtain sk where sk: "make_server_udp_socket (ns_sys sample_h3_sys) (V6 1, 443) (socket_buffer_bytes (t_io tuning_default)) = Ok sk" by blast
  have "\<exists>q. make_server_quiche_config (ns_config sample_h3_sys) t n ''c'' ''k'' = Ok q" for t n
    by (simp add: make_server_quiche_config_def paths apply_transport_config_def sample_h3_sys_def sample_new_sys_def Let_def)
  then obtain q where q: "make_server_quiche_config (ns_config sample_h3_sys) (t_h3 tuning_default) (unat (1400 :: u16) + CONNECT_IP_OVERHEAD) ''c'' ''k'' = Ok q"
    by blast
  have sys: "ns_listener sample_h3_sys = ns_listener sample_new_sys" "ns_udp_join sample_h3_sys = None" "ns_show_addr sample_h3_sys = (\<lambda>_. [])"
      "ns_local_name sample_h3_sys = (\<lambda>_. [])" "ls_local_addr (ns_listener sample_new_sys) s = Ok (V4 0, 0)"
      "ls_absolute (ns_listener sample_new_sys) p = Ok p" "ls_watcher (ns_listener sample_new_sys) = None"
      "watch_directories (ns_listener sample_new_sys) p p' = []"
      "\<exists>rt. ns_udp_init sample_h3_sys s n o' = Ok rt" for s p p' n o'
    by (simp_all add: sample_h3_sys_def sample_new_sys_def watch_directories_def List.map_filter_def)
  have cfg: "lc_h3 (cfg_local sample_h3_config) = Some \<lparr>lh3_listen = \<lparr>h3e_host = ''[::1]'', h3e_port = 443, h3e_path = ''/''\<rparr>,
        lh3_cert = ''c'', lh3_key = ''k''\<rparr>" "cfg_tuning sample_h3_config = tuning_default" "tun_mtu (lc_tun (cfg_local sample_h3_config)) = 1400"
    by (simp_all add: sample_h3_config_def sample_config_def)
  obtain rt where rt: "ns_udp_init sample_h3_sys sk (unat (1400 :: u16) + CONNECT_IP_OVERHEAD) (udp_enable_offload (t_io tuning_default)) = Ok rt"
    using sys(9) by blast
  have "\<exists>grp. make_h3_dispatcher (ns_sys sample_h3_sys) (ns_listener sample_h3_sys) (ns_config sample_h3_sys) (ns_udp_init sample_h3_sys)
      (ns_udp_join sample_h3_sys) (V6 1, 443) ''c'' ''k'' 1400 (t_io tuning_default) (t_h3 tuning_default) = Ok grp"
    unfolding make_h3_dispatcher_def sk using q rt by (simp add: sys Let_def case_prod_beta)
  then show ?thesis unfolding new_h3_listener_def by (auto simp: cfg addr sys case_prod_beta Let_def)
qed

definition live :: "'t bus \<Rightarrow> chan \<Rightarrow> bool" where
  "live b r \<longleftrightarrow> (\<exists>a. b_actors b r = Some a \<and> ac_result a = None)"

lemma live_send: "live b r \<Longrightarrow> live (fst (actor_send x ev b)) r"
proof -
  have "ac_result (deliver_event ev a) = ac_result a" for a :: "'a actor" by (simp add: deliver_event_def)
  then show "live b r \<Longrightarrow> ?thesis" by (auto simp: live_def actor_send_def upd_actor_def)
qed

lemma live_push: "live b r \<Longrightarrow> live (push_link x y b) r"
  using live_send by (auto simp: push_link_def) (auto simp: live_def upd_actor_def)

lemma live_half: "live b r \<Longrightarrow> live (link_half x y b) r"
  using live_push [of b r x y] by (simp add: link_half_def live_def)

lemma live_link: "live b r \<Longrightarrow> live (actor_link x y b) r"
  unfolding actor_link_def by (intro live_half)

lemma live_spawn: "live b r \<Longrightarrow> r \<noteq> b_next b \<Longrightarrow> live (fst (actor_spawn ctx nm policy b)) r"
  by (simp add: live_def actor_spawn_def)

lemma live_sync: "live (or_bus s) r \<Longrightarrow> live (or_bus (sync_peers_to_actors s)) r"
  by (auto simp: sync_peers_to_actors_def or_send_def Let_def intro!: live_send split: option.split)

lemma dispatcher_live:
  "live (fst (spawn_h3_dispatcher show_addr local_addr ctx grp b)) (snd (spawn_h3_dispatcher show_addr local_addr ctx grp b)) \<and>
   snd (spawn_h3_dispatcher show_addr local_addr ctx grp b) \<noteq> b_next (fst (spawn_h3_dispatcher show_addr local_addr ctx grp b))"
proof -
  have next_link: "b_next (actor_link x y c) = b_next c" for x y and c :: "'a bus" by (simp add: actor_link_def link_half_def)
  show ?thesis
    by (auto simp: spawn_h3_dispatcher_def case_prod_beta Let_def next_link actor_spawn_def intro!: live_link) (simp_all add: live_def)
qed

lemma sample_h3_started:
  "orch_new sample_h3_sys sample_h3_config = Ok sample_h3_orch \<and> map fst (or_peers sample_h3_orch) = [''p''] \<and>
   (\<exists>r. or_h3_listener sample_h3_orch = Some r \<and> live (or_bus sample_h3_orch) r)"
proof -
  obtain grp where grp: "\<And>ctx (b :: sample_trie bus). new_h3_listener sample_h3_sys sample_h3_config ctx b =
      Ok (fst (spawn_h3_dispatcher (\<lambda>_. []) (\<lambda>_. []) ctx grp b), Some (snd (spawn_h3_dispatcher (\<lambda>_. []) (\<lambda>_. []) ctx grp b)))"
    using sample_listener by blast
  have "\<exists>b :: sample_trie bus. new_tun sample_h3_sys sample_h3_config = Ok (b, 0, 1, 2)"
    by (simp add: new_tun_def sample_h3_sys_def sample_h3_config_def sample_new_sys_def sample_config_def make_tun_def split_addrs_by_version_def
        spawn_tun_tx_def spawn_tun_rx_def spawn_router_def bus_mailbox_def actor_spawn_def bus_new_def Let_def)
  then obtain b :: "sample_trie bus" where b: "new_tun sample_h3_sys sample_h3_config = Ok (b, 0, 1, 2)" by blast
  have parts: "lc_bare (cfg_local sample_h3_config) = None" "lc_table (cfg_local sample_h3_config) = False" "lc_api (cfg_local sample_h3_config) = None"
      "cfg_peers sample_h3_config = [sample_listen_peer]" "peer_id sample_listen_peer = ''p''"
    by (simp_all add: sample_h3_config_def sample_config_def sample_listen_peer_def)
  have keep: "or_h3_listener (sync_peers_to_actors t) = or_h3_listener t" for t :: "sample_trie orch"
    by (simp add: sync_peers_to_actors_def Let_def split: option.split)
  show ?thesis
    unfolding sample_h3_orch_def orch_new_def b new_bare_rx_def new_route_def new_api_def parts
    using dispatcher_live [of "\<lambda>_. []" "\<lambda>_. []" 0 grp b]
    by (auto simp: grp new_peers_def parts keep spawn_dns_def case_prod_beta Let_def intro!: live_sync live_spawn)
qed

theorem deleted_peer_cannot_authenticate_witness:
  "\<exists>r a' before tokens evs. or_h3_listener sample_h3_orch = Some r \<and> b_actors (or_bus (handle_delete_config [''p''] sample_h3_orch)) r = Some a' \<and>
     ac_received a' = before @ UpdatePeerTokens tokens # evs \<and> (\<nexists>headers. validate_server_auth hmac_ref () headers tokens = Ok ''p'')"
proof -
  obtain r a where r: "or_h3_listener sample_h3_orch = Some r" "b_actors (or_bus sample_h3_orch) r = Some a" "ac_result a = None"
    using sample_h3_started by (auto simp: live_def)
  have new: "orch_new sample_h3_sys sample_h3_config = Ok sample_h3_orch" and p: "''p'' \<in> fst ` set (or_peers sample_h3_orch)" "''p'' \<in> set [''p'']"
    using sample_h3_started by (simp_all add: list.set_map [symmetric])
  from deleted_peer_cannot_authenticate [OF sample_h3_config_valid new rtranclp.rtrancl_refl r p, where H = hmac_ref and key = "()"] r(1)
  show ?thesis by blast
qed

end
